(* ===== verification/Go_Prelude.thy ===== *)
theory Go_Prelude
  imports Main "HOL-Library.AList" "HOL-Library.Sublist" "HOL-Library.Multiset"
    "HOL-Library.Signed_Division"
begin

text \<open>
  Shared vocabulary of the development: the named collections the component proofs
  draw on, Go's string tests, durations, the in-place slice compaction idiom
  (\<open>out := xs[:0]; for ... { out = append(out, x) }\<close>), the fixed-size batching loop
  and Go maps as association lists with distinct keys.
\<close>

named_theorems go_defs \<open>definitions that component proofs unfold together\<close>
named_theorems inv_intros \<open>preservation lemmas of component invariants\<close>

section \<open>Base types\<close>

text \<open>
  A \<open>time.Duration\<close> and a \<open>time.Time\<close> are counts of nanoseconds; an error value is
  kept as its text. A Go map is an association list whose keys are distinct; the order
  of the list is one of the iteration orders the runtime may choose.
\<close>

type_synonym duration = int
type_synonym time = int
type_synonym go_error = string
type_synonym ('k, 'v) go_map = "('k \<times> 'v) list"

definition millisecond :: duration where "millisecond = 1000000"
definition second :: duration where "second = 1000 * millisecond"
definition minute :: duration where "minute = 60 * second"
definition hour :: duration where "hour = 60 * minute"

lemmas duration_defs = millisecond_def second_def minute_def hour_def

section \<open>Strings\<close>

definition HasPrefix :: "string \<Rightarrow> string \<Rightarrow> bool" where
  "HasPrefix s p \<longleftrightarrow> length p \<le> length s \<and> take (length p) s = p"

definition HasSuffix :: "string \<Rightarrow> string \<Rightarrow> bool" where
  "HasSuffix s p \<longleftrightarrow> length p \<le> length s \<and> drop (length s - length p) s = p"

lemma HasPrefix_iff: "HasPrefix s p \<longleftrightarrow> (\<exists>t. s = p @ t)"
proof
  assume "HasPrefix s p"
  then show "\<exists>t. s = p @ t"
    unfolding HasPrefix_def by (metis append_take_drop_id)
qed (auto simp: HasPrefix_def)

lemma HasSuffix_iff: "HasSuffix s p \<longleftrightarrow> (\<exists>t. s = t @ p)"
proof
  assume "HasSuffix s p"
  then show "\<exists>t. s = t @ p"
    unfolding HasSuffix_def by (metis append_take_drop_id)
qed (auto simp: HasSuffix_def)

lemma HasSuffix_append [simp]: "HasSuffix (s @ p) p"
  by (auto simp: HasSuffix_iff)

definition lower_char :: "char \<Rightarrow> char" where
  "lower_char c = (if of_char c \<ge> (65::nat) \<and> of_char c \<le> (90::nat)
                   then char_of ((of_char c :: nat) + 32) else c)"

text \<open>
  \<open>strings.ToLower\<close> on the ASCII range; the bytes of other characters are kept, which is
  exact wherever the result is only compared with ASCII words without \<open>i\<close> and \<open>k\<close>.
\<close>

definition to_lower :: "string \<Rightarrow> string" where
  "to_lower s = map lower_char s"

fun join :: "string \<Rightarrow> string list \<Rightarrow> string" where
  "join sep [] = []"
| "join sep [s] = s"
| "join sep (s # t # ts) = s @ sep @ join sep (t # ts)"

definition contains :: "string \<Rightarrow> string \<Rightarrow> bool" where
  "contains s p \<longleftrightarrow> list_ex (\<lambda>t. HasPrefix t p) (suffixes s)"

lemma contains_iff: "contains s p \<longleftrightarrow> (\<exists>a b. s = a @ p @ b)"
proof -
  have "contains s p \<longleftrightarrow> (\<exists>t. (\<exists>a. s = a @ t) \<and> (\<exists>b. t = p @ b))"
    unfolding contains_def list_ex_iff HasPrefix_iff in_set_suffixes suffix_def Bex_def ..
  also have "\<dots> \<longleftrightarrow> (\<exists>a b. s = a @ p @ b)" by blast
  finally show ?thesis .
qed

text \<open>The decimal text of a natural number.\<close>

fun itoa :: "nat \<Rightarrow> string" where
  "itoa n = (if n < 10 then [char_of (48 + n)] else itoa (n div 10) @ [char_of (48 + n mod 10)])"

declare itoa.simps [simp del]

text \<open>Two different suffixes of different last characters cannot end the same string.\<close>

lemma append_last_neq:
  "last p \<noteq> last q \<Longrightarrow> p \<noteq> [] \<Longrightarrow> q \<noteq> [] \<Longrightarrow> s @ p \<noteq> t @ q"
  by (metis last_appendR)

section \<open>In-place compaction of a slice\<close>

text \<open>
  \<open>out := xs[:0]\<close> makes \<open>out\<close> share the backing array of \<open>xs\<close>, and each \<open>append\<close>
  overwrites the array cell at the write index while the \<open>range\<close> loop keeps reading the
  same array. \<open>f\<close> is the loop body: what is appended, if anything, and how much is added
  to the running count.
\<close>

function compact_loop ::
  "('a \<Rightarrow> 'a option \<times> nat) \<Rightarrow> nat \<Rightarrow> nat \<Rightarrow> nat \<Rightarrow> 'a list \<Rightarrow> 'a list \<times> nat \<times> nat" where
  "compact_loop f i w d arr =
     (if i < length arr
      then (case f (arr ! i) of
              (None, k) \<Rightarrow> compact_loop f (Suc i) w (d + k) arr
            | (Some y, k) \<Rightarrow> compact_loop f (Suc i) (Suc w) (d + k) (arr[w := y]))
      else (arr, w, d))"
  by pat_completeness auto
termination
  by (relation "measure (\<lambda>(f, i, w, d, arr). length arr - i)") auto

declare compact_loop.simps [simp del]

definition compact_slice :: "('a \<Rightarrow> 'a option \<times> nat) \<Rightarrow> 'a list \<Rightarrow> 'a list \<times> nat" where
  "compact_slice f xs = (case compact_loop f 0 0 0 xs of (arr, w, d) \<Rightarrow> (take w arr, d))"

lemma take_drop_update:
  "w \<le> i \<Longrightarrow> i < length arr \<Longrightarrow>
     take (Suc w) (arr[w := y]) = take w arr @ [y] \<and>
     drop (Suc i) (arr[w := y]) = drop (Suc i) arr"
  by (simp add: take_Suc_conv_app_nth take_update_cancel drop_update_cancel)

lemma compact_loop_spec:
  assumes "w \<le> i" "i \<le> length arr" "compact_loop f i w d arr = (arr', w', d')"
  shows "take w' arr' = take w arr @ List.map_filter (fst \<circ> f) (drop i arr) \<and>
         d' = d + sum_list (map (snd \<circ> f) (drop i arr))"
  using assms
proof (induction f i w d arr rule: compact_loop.induct)
  case (1 f i w d arr)
  show ?case
  proof (cases "i < length arr")
    case False
    then have "compact_loop f i w d arr = (arr, w, d)"
      by (simp add: compact_loop.simps [of f i w d arr])
    with False "1.prems" show ?thesis by (simp add: map_filter_simps)
  next
    case True
    obtain r k where fk: "f (arr ! i) = (r, k)" by fastforce
    have dr: "drop i arr = arr ! i # drop (Suc i) arr"
      using True by (rule Cons_nth_drop_Suc [symmetric])
    show ?thesis
    proof (cases r)
      case None
      with "1.IH"(1) [OF True fk [symmetric] None] "1.prems" True fk show ?thesis
        by (simp add: compact_loop.simps [of f i w d arr] dr map_filter_simps)
    next
      case (Some y)
      note td = take_drop_update [OF "1.prems"(1) True, of y]
      from "1.IH"(2) [OF True fk [symmetric] Some] "1.prems" True fk Some td show ?thesis
        by (simp add: compact_loop.simps [of f i w d arr] dr map_filter_simps)
    qed
  qed
qed

text \<open>The idiom computes the functional filter: overwriting never clobbers an unread cell.\<close>

lemma compact_slice_eq:
  "compact_slice f xs = (List.map_filter (fst \<circ> f) xs, sum_list (map (snd \<circ> f) xs))"
proof -
  obtain arr w d where r: "compact_loop f 0 0 0 xs = (arr, w, d)" by (metis prod_cases3)
  from compact_loop_spec [OF _ _ r] show ?thesis
    by (simp add: compact_slice_def r)
qed

section \<open>Fixed-size batches\<close>

text \<open>
  \<open>for i := 0; i < len(xs); i += n { batch := xs[i:min(i+n, len(xs))] ... }\<close>. With
  \<open>n = 0\<close> the Go loop does not advance; the callers make that case a value of its own.
\<close>

function batches :: "nat \<Rightarrow> 'a list \<Rightarrow> 'a list list" where
  "batches n xs = (if xs = [] \<or> n = 0 then [] else take n xs # batches n (drop n xs))"
  by pat_completeness auto
termination
  by (relation "measure (\<lambda>(n, xs). length xs)") auto

declare batches.simps [simp del]

lemma batches_Nil [simp]: "batches n [] = []"
  by (simp add: batches.simps)

lemma batches_step: "0 < n \<Longrightarrow> xs \<noteq> [] \<Longrightarrow> batches n xs = take n xs # batches n (drop n xs)"
  by (simp add: batches.simps)

lemma concat_batches: "0 < n \<Longrightarrow> concat (batches n xs) = xs"
  by (induction n xs rule: batches.induct) (subst batches.simps, auto)

lemma batches_bounds: "b \<in> set (batches n xs) \<Longrightarrow> 0 < length b \<and> length b \<le> n"
proof (induction n xs rule: batches.induct)
  case (1 n xs)
  then show ?case
    by (subst (asm) batches.simps) (auto split: if_splits)
qed

lemma find_SomeD: "find P xs = Some x \<Longrightarrow> x \<in> set xs \<and> P x"
  by (induction xs) (auto split: if_splits)

lemma option_eqI: "(\<And>b. x = Some b \<longleftrightarrow> y = Some b) \<Longrightarrow> x = y"
  by (cases x; cases y) auto

section \<open>Go maps\<close>

definition map_wf :: "('k, 'v) go_map \<Rightarrow> bool" where
  "map_wf m \<longleftrightarrow> distinct (map fst m)"

lemma map_wf_Nil [simp]: "map_wf []"
  by (simp add: map_wf_def)

lemma map_wf_update [simp]: "map_wf m \<Longrightarrow> map_wf (AList.update k v m)"
  by (simp add: map_wf_def distinct_update)

lemma map_wf_delete [simp]: "map_wf m \<Longrightarrow> map_wf (AList.delete k m)"
  by (simp add: map_wf_def distinct_delete)

lemma map_of_update [simp]: "map_of (AList.update k v m) = (map_of m)(k \<mapsto> v)"
  by (simp add: update_conv')

lemma update_fresh: "k \<notin> fst ` set m \<Longrightarrow> AList.update k v m = m @ [(k, v)]"
  by (induction m) auto

lemma length_update:
  "length (AList.update k v m) = (if k \<in> fst ` set m then length m else Suc (length m))"
  by (induction m) auto

lemma set_update_fresh:
  "k \<notin> fst ` set m \<Longrightarrow> set (AList.update k v m) = insert (k, v) (set m)"
  by (simp add: update_fresh)

lemma update_in_set: "p \<in> set (AList.update k v m) \<Longrightarrow> p = (k, v) \<or> p \<in> set m"
  by (induction m) (auto split: if_splits)

lemma map_wf_lookup: "map_wf m \<Longrightarrow> (k, v) \<in> set m \<longleftrightarrow> map_of m k = Some v"
  by (simp add: map_wf_def map_of_eq_Some_iff)

lemma dom_map_of_fst: "map_of m k = None \<longleftrightarrow> k \<notin> fst ` set m"
  by (simp add: map_of_eq_None_iff)

text \<open>
  A map ranged over may be visited in any order: an \<open>iteration order\<close> of a list is a
  permutation of it.
\<close>

definition iteration_of :: "'a list \<Rightarrow> 'a list \<Rightarrow> bool" where
  "iteration_of ys xs \<longleftrightarrow> mset ys = mset xs"

lemma iteration_of_set: "iteration_of ys xs \<Longrightarrow> set ys = set xs"
  unfolding iteration_of_def by (metis set_mset_mset)

lemma iteration_of_distinct: "iteration_of ys xs \<Longrightarrow> distinct ys = distinct xs"
  unfolding iteration_of_def by (metis mset_eq_imp_distinct_iff)

lemma iteration_of_refl [simp]: "iteration_of xs xs"
  by (simp add: iteration_of_def)

end
