(* ===== verification/Go_Time.thy ===== *)
theory Go_Time
  imports Go_Prelude "HOL-Library.List_Lexorder" "HOL-Library.Char_ord"
begin

text \<open>
  The part of Go's \<open>time\<close> package the program relies on: the saturating subtraction of two
  times, the proleptic Gregorian calendar and the two layouts the database code prints,
  \<open>SQLiteTimeFormat\<close> (\<open>2006-01-02 15:04:05\<close>) and RFC 3339, both in UTC. A time is the count
  of nanoseconds since the Unix epoch. The texts matter because SQLite compares times as
  texts: the lemmas at the end say how texts that share a date or a second are ordered.
\<close>

section \<open>Durations\<close>

definition minDuration :: duration where "minDuration = - (2 ^ 63)"
definition maxDuration :: duration where "maxDuration = 2 ^ 63 - 1"

text \<open>\<open>Time.Sub\<close> saturates; negating the smallest duration wraps to itself.\<close>

definition time_sub :: "time \<Rightarrow> time \<Rightarrow> duration" where
  "time_sub t u = max minDuration (min maxDuration (t - u))"

definition duration_neg :: "duration \<Rightarrow> duration" where
  "duration_neg d = (if d = minDuration then minDuration else - d)"

lemma time_sub_exact: "\<bar>t - u\<bar> \<le> maxDuration \<Longrightarrow> time_sub t u = t - u"
  by (auto simp: time_sub_def minDuration_def maxDuration_def)

lemma duration_neg_exact: "\<bar>d\<bar> \<le> maxDuration \<Longrightarrow> duration_neg d = - d"
  by (auto simp: duration_neg_def minDuration_def maxDuration_def)

section \<open>The calendar\<close>

text \<open>Days since 1 March of year 0, split into 400-year eras, years and months.\<close>

definition civil_from_days :: "int \<Rightarrow> int \<times> int \<times> int" where
  "civil_from_days z0 =
     (let z = z0 + 719468; era = z div 146097; doe = z mod 146097;
          yoe = (doe - doe div 1460 + doe div 36524 - doe div 146096) div 365;
          doy = doe - (365 * yoe + yoe div 4 - yoe div 100);
          mp = (5 * doy + 2) div 153;
          d = doy - (153 * mp + 2) div 5 + 1;
          m = (if mp < 10 then mp + 3 else mp - 9);
          y = yoe + era * 400 + (if m \<le> 2 then 1 else 0)
      in (y, m, d))"

definition digit :: "int \<Rightarrow> char" where
  "digit n = char_of (48 + nat (n mod 10))"

definition pad2 :: "int \<Rightarrow> string" where
  "pad2 n = [digit (n div 10), digit n]"

definition pad4 :: "int \<Rightarrow> string" where
  "pad4 n = [digit (n div 1000), digit (n div 100), digit (n div 10), digit n]"

text \<open>The date and the clock of a time in UTC, for the years 0 to 9999.\<close>

definition date_text :: "time \<Rightarrow> string" where
  "date_text t = (case civil_from_days (t div (86400 * second)) of
     (y, m, d) \<Rightarrow> pad4 y @ ''-'' @ pad2 m @ ''-'' @ pad2 d)"

definition clock_text :: "time \<Rightarrow> string" where
  "clock_text t =
     (let s = (t div second) mod 86400 in
      pad2 (s div 3600) @ '':'' @ pad2 (s div 60 mod 60) @ '':'' @ pad2 (s mod 60))"

definition format_SQLite :: "time \<Rightarrow> string" where
  "format_SQLite t = date_text t @ '' '' @ clock_text t"

definition format_RFC3339 :: "time \<Rightarrow> string" where
  "format_RFC3339 t = date_text t @ ''T'' @ clock_text t @ ''Z''"

lemma length_date_text [simp]: "length (date_text t) = 10"
  by (simp add: date_text_def pad4_def pad2_def split: prod.split)

lemma length_clock_text [simp]: "length (clock_text t) = 8"
  by (simp add: clock_text_def pad2_def Let_def)

lemma length_format_SQLite [simp]: "length (format_SQLite t) = 19"
  by (simp add: format_SQLite_def)

lemma civil_from_days_epoch: "civil_from_days 0 = (1970, 1, 1)"
  by code_simp

lemma civil_from_days_leap: "civil_from_days 19782 = (2024, 2, 29)"
  by code_simp

section \<open>Texts of times in order\<close>

lemma append_less_same_length:
  fixes a b :: "'a :: linorder list"
  shows "length a = length b \<Longrightarrow> a @ x < b @ y \<longleftrightarrow> a < b \<or> (a = b \<and> x < y)"
  by (induction a b rule: list_induct2) auto

lemma append_le_same_length:
  fixes a b :: "'a :: linorder list"
  shows "length a = length b \<Longrightarrow> a @ x \<le> b @ y \<longleftrightarrow> a < b \<or> (a = b \<and> x \<le> y)"
  by (auto simp: le_less append_less_same_length)

text \<open>A text that starts with the second of a time, against the second printed alone.\<close>

lemma less_second_text:
  "(format_SQLite t @ rest) < format_SQLite u \<longleftrightarrow> format_SQLite t < format_SQLite u"
  using append_less_same_length [of "format_SQLite t" "format_SQLite u" rest "[]"] by simp

lemma le_second_text:
  "rest \<noteq> [] \<Longrightarrow> (format_SQLite t @ rest) \<le> format_SQLite u \<longleftrightarrow> format_SQLite t < format_SQLite u"
  using append_le_same_length [of "format_SQLite t" "format_SQLite u" rest "[]"] by (cases rest) auto

lemma second_text_le:
  "format_SQLite u \<le> (format_SQLite t @ rest) \<longleftrightarrow> format_SQLite u \<le> format_SQLite t"
  using append_le_same_length [of "format_SQLite u" "format_SQLite t" "[]" rest] by auto

text \<open>
  Against an RFC 3339 text only the dates decide: after the same date the space of the
  first layout sorts before the \<open>T\<close> of the second, whatever the clock says.
\<close>

lemma less_RFC3339_text:
  "(format_SQLite t @ rest) < format_RFC3339 u \<longleftrightarrow> date_text t \<le> date_text u"
  using append_less_same_length [of "date_text t" "date_text u"
      "'' '' @ clock_text t @ rest" "''T'' @ clock_text u @ ''Z''"]
  by (auto simp: format_SQLite_def format_RFC3339_def le_less less_char_def)

end
