(* ===== verification/Go_Calendar.thy ===== *)
theory Go_Calendar
  imports Go_Time
begin

text \<open>
  The layouts \<open>2006-01-02 15:04:05\<close> and RFC 3339 sort like the times they print, as long as
  the year has four digits: days in order have dates in order (the calendar), dates and
  clocks in order have texts in order. SQLite compares its timestamps as texts, so these
  lemmas carry statements about stored texts over to statements about times.
\<close>

section \<open>Years within an era of 400 years\<close>

definition year_of_era :: "int \<Rightarrow> int" where
  "year_of_era doe = (doe - doe div 1460 + doe div 36524 - doe div 146096) div 365"

definition year_start :: "int \<Rightarrow> int" where
  "year_start y = 365 * y + y div 4 - y div 100 + y div 400"

lemma year_start_split:
  assumes "0 \<le> c" "c \<le> 3" "0 \<le> q" "q \<le> 24" "0 \<le> r" "r \<le> 3"
  shows "year_start (100 * c + 4 * q + r) = 36524 * c + 1461 * q + 365 * r"
proof -
  let ?y = "100 * c + 4 * q + r"
  have "?y div 4 = 25 * c + q" by (rule int_div_pos_eq [where r = r]) (use assms in auto)
  moreover have "?y div 100 = c" by (rule int_div_pos_eq [where r = "4 * q + r"]) (use assms in auto)
  moreover have "?y div 400 = 0" by (rule div_pos_pos_trivial) (use assms in auto)
  ultimately show ?thesis by (simp add: year_start_def)
qed

lemma year_of_era_split:
  assumes "0 \<le> c" "c \<le> 3" "0 \<le> q" "q \<le> 24" "0 \<le> r" "r \<le> 3" "0 \<le> s" "s \<le> 365"
    and last: "s = 365 \<Longrightarrow> r = 3 \<and> (q < 24 \<or> c = 3)"
  shows "year_of_era (36524 * c + 1461 * q + 365 * r + s) = 100 * c + 4 * q + r"
proof -
  let ?a = "36524 * c + 1461 * q + 365 * r + s" and ?t = "24 * c + q + 365 * r + s"
  have century: "?a div 36524 - ?a div 146096 = c"
  proof (cases "s = 365 \<and> q = 24")
    case True
    with last have "?a = 146096" "c = 3" by auto
    then show ?thesis by simp
  next
    case False
    then have b: "1461 * q + 365 * r + s < 36524" using assms by (cases "s = 365") auto
    have "?a div 36524 = c" by (rule int_div_pos_eq [where r = "1461 * q + 365 * r + s"]) (use assms b in auto)
    moreover have "?a div 146096 = 0" by (rule div_pos_pos_trivial) (use assms b in auto)
    ultimately show ?thesis by simp
  qed
  define e :: int where "e = (if ?t < 1460 then 0 else 1)"
  have "?a div 1460 = 25 * c + q + e"
    by (rule int_div_pos_eq [where r = "?t - 1460 * e"]) (use assms in \<open>auto simp: e_def\<close>)
  with century have "?a - ?a div 1460 + ?a div 36524 - ?a div 146096 = 365 * (100 * c + 4 * q + r) + (s - e)" by simp
  moreover have "0 \<le> s - e \<and> s - e < 365"
    using assms last by (cases "s = 365") (auto simp: e_def)
  then have "(365 * (100 * c + 4 * q + r) + (s - e)) div 365 = 100 * c + 4 * q + r"
    by (intro int_div_pos_eq [where r = "s - e"]) auto
  ultimately show ?thesis by (simp add: year_of_era_def)
qed

lemma era_split:
  fixes a :: int
  assumes "0 \<le> a" "a \<le> 146096"
  obtains c q r s where "a = 36524 * c + 1461 * q + 365 * r + s" "0 \<le> c" "c \<le> 3" "0 \<le> q" "q \<le> 24"
    "0 \<le> r" "r \<le> 3" "0 \<le> s" "s \<le> 365" "s = 365 \<Longrightarrow> r = 3 \<and> (q < 24 \<or> c = 3)"
proof -
  define c where "c = min 3 (a div 36524)"
  define b where "b = a - 36524 * c"
  have "a - 36524 * (a div 36524) < 36524" using pos_mod_bound [of 36524 a] by (simp add: minus_mult_div_eq_mod)
  then have c: "0 \<le> c" "c \<le> 3" "0 \<le> b" "b \<le> 36524" "b = 36524 \<Longrightarrow> c = 3"
    using assms unfolding b_def c_def by (auto simp: min_def split: if_splits)
  define q where "q = b div 1461"
  define d where "d = b mod 1461"
  have q: "b = 1461 * q + d" "0 \<le> d" "d < 1461" "0 \<le> q" "q \<le> 24"
    using c by (auto simp: q_def d_def pos_imp_zdiv_nonneg_iff)
  define r where "r = min 3 (d div 365)"
  have "d - 365 * (d div 365) < 365" using pos_mod_bound [of 365 d] by (simp add: minus_mult_div_eq_mod)
  then have r: "0 \<le> r" "r \<le> 3" "0 \<le> d - 365 * r" "d - 365 * r \<le> 365" "d - 365 * r = 365 \<Longrightarrow> r = 3"
    using q unfolding r_def by (auto simp: min_def split: if_splits)
  show ?thesis
  proof (rule that [of c q r "d - 365 * r"])
    assume "d - 365 * r = 365"
    with r q c show "r = 3 \<and> (q < 24 \<or> c = 3)" by (cases "q = 24") auto
  qed (use c q r in \<open>auto simp: b_def\<close>)
qed
lemma less_year_start: "year_start n = v \<Longrightarrow> year_of_era a + 1 = n \<Longrightarrow> a < v \<Longrightarrow> a < year_start (year_of_era a + 1)"
  by simp

lemma year_of_era_interval:
  assumes "0 \<le> a" "a \<le> 146096"
  shows "0 \<le> year_of_era a \<and> year_of_era a < 400 \<and> year_start (year_of_era a) \<le> a
    \<and> a < year_start (year_of_era a + 1) \<and> a - year_start (year_of_era a) \<le> 365"
proof -
  obtain c q r s where a: "a = 36524 * c + 1461 * q + 365 * r + s" and b: "0 \<le> c" "c \<le> 3" "0 \<le> q" "q \<le> 24"
    "0 \<le> r" "r \<le> 3" "0 \<le> s" "s \<le> 365" and last: "s = 365 \<Longrightarrow> r = 3 \<and> (q < 24 \<or> c = 3)"
    using era_split [OF assms] by metis
  have y: "year_of_era a = 100 * c + 4 * q + r"
    unfolding a by (rule year_of_era_split [OF b last])
  have start: "year_start (year_of_era a) = 36524 * c + 1461 * q + 365 * r"
    unfolding y by (rule year_start_split) (use b in auto)
  consider "r < 3" | "r = 3" "q < 24" | "r = 3" "q = 24" "c < 3" | "r = 3" "q = 24" "c = 3"
    using b by linarith
  then have "a < year_start (year_of_era a + 1)"
  proof cases
    case 1
    have "s < 365" using 1 b last by (cases "s = 365") auto
    show ?thesis
      by (rule less_year_start [OF year_start_split [of c q "r + 1"]]) (use a b y 1 \<open>s < 365\<close> in auto)
  next
    case 2
    show ?thesis by (rule less_year_start [OF year_start_split [of c "q + 1" 0]]) (use a b y 2 in auto)
  next
    case 3
    have "s < 365" using 3 b last by (cases "s = 365") auto
    show ?thesis
      by (rule less_year_start [OF year_start_split [of "c + 1" 0 0]]) (use a b y 3 \<open>s < 365\<close> in auto)
  next
    case 4
    show ?thesis
      by (rule less_year_start [of 400 146097]) (use assms(2) y 4 in \<open>auto simp: year_start_def\<close>)
  qed
  moreover have "a - year_start (year_of_era a) = s" unfolding start by (simp add: a)
  moreover have "0 \<le> year_of_era a" "year_of_era a < 400" using b by (simp_all add: y)
  ultimately show ?thesis using b by linarith
qed

lemma year_start_mono: "y \<le> z \<Longrightarrow> year_start y \<le> year_start z"
proof -
  assume "y \<le> z"
  then have "y div 4 \<le> z div 4" "y div 400 \<le> z div 400" "z div 100 \<le> y div 100 + (z - y)"
    by (simp_all add: zdiv_mono1)
  with \<open>y \<le> z\<close> show ?thesis by (simp add: year_start_def)
qed

section \<open>Dates in order\<close>

text \<open>Month and day within a year that starts in March.\<close>

definition month_of :: "int \<Rightarrow> int" where "month_of doy = (5 * doy + 2) div 153"

definition day_of :: "int \<Rightarrow> int" where "day_of doy = doy - (153 * month_of doy + 2) div 5 + 1"

lemma months: "\<forall>doy \<in> set [0..365]. 0 \<le> month_of doy \<and> month_of doy \<le> 11 \<and> 1 \<le> day_of doy \<and> day_of doy \<le> 31"
  by code_simp

lemma civil_from_days_cases:
  assumes "civil_from_days z = (y, m, d)"
  obtains era yoe doy where "z + 719468 = 146097 * era + (year_start yoe + doy)" "0 \<le> yoe" "yoe < 400"
    "0 \<le> doy" "year_start yoe + doy < year_start (yoe + 1)" "year_start yoe + doy < 146097"
    "12 * y + m = 4800 * era + 12 * yoe + month_of doy + 3" "d = day_of doy"
    "0 \<le> month_of doy" "month_of doy \<le> 11" "1 \<le> m" "m \<le> 12" "1 \<le> d" "d \<le> 31"
proof -
  define doe where "doe = (z + 719468) mod 146097"
  define yoe where "yoe = year_of_era doe"
  define doy where "doy = doe - year_start yoe"
  have doe: "0 \<le> doe" "doe \<le> 146096" by (simp_all add: doe_def)
  note iv = year_of_era_interval [OF doe, folded yoe_def]
  have doy: "0 \<le> doy" "doy \<le> 365" using iv by (simp_all add: doy_def)
  have "year_start yoe = 365 * yoe + yoe div 4 - yoe div 100" using iv by (simp add: year_start_def)
  then have *: "doy = doe - (365 * yoe + yoe div 4 - yoe div 100)" by (simp add: doy_def)
  have mp: "0 \<le> month_of doy" "month_of doy \<le> 11" "1 \<le> day_of doy" "day_of doy \<le> 31"
    using months doy by simp_all
  have "civil_from_days z = (yoe + (z + 719468) div 146097 * 400
        + (if (if month_of doy < 10 then month_of doy + 3 else month_of doy - 9) \<le> 2 then 1 else 0),
      if month_of doy < 10 then month_of doy + 3 else month_of doy - 9, day_of doy)"
    unfolding civil_from_days_def year_of_era_def [symmetric] Let_def doe_def [symmetric] yoe_def [symmetric]
      * [symmetric] month_of_def [symmetric] day_of_def [symmetric] by (rule refl)
  with assms have m: "y = yoe + (z + 719468) div 146097 * 400 + (if m \<le> 2 then 1 else 0)"
    "m = (if month_of doy < 10 then month_of doy + 3 else month_of doy - 9)" and d: "d = day_of doy" by auto
  show ?thesis
  proof (rule that [of "(z + 719468) div 146097" yoe doy])
    show "z + 719468 = 146097 * ((z + 719468) div 146097) + (year_start yoe + doy)"
      by (simp add: doy_def doe_def)
    show "12 * y + m = 4800 * ((z + 719468) div 146097) + 12 * yoe + month_of doy + 3" "1 \<le> m" "m \<le> 12"
      using m mp(1,2) by (auto split: if_splits)
  qed (use iv doe doy mp d in \<open>auto simp: doy_def\<close>)
qed

lemma year_start_0: "year_start 0 = 0"
  by (simp add: year_start_def)

text \<open>Days in order have dates in order.\<close>

lemma civil_from_days_less:
  assumes "z < z'" "civil_from_days z = (y, m, d)" "civil_from_days z' = (y', m', d')"
  shows "12 * y + m < 12 * y' + m' \<or> (12 * y + m = 12 * y' + m' \<and> d < d')"
proof -
  obtain era yoe doy where f: "z + 719468 = 146097 * era + (year_start yoe + doy)" "0 \<le> yoe" "yoe < 400"
    "0 \<le> doy" "year_start yoe + doy < year_start (yoe + 1)" "year_start yoe + doy < 146097"
    "12 * y + m = 4800 * era + 12 * yoe + month_of doy + 3" "d = day_of doy"
    "0 \<le> month_of doy" "month_of doy \<le> 11"
    using civil_from_days_cases [OF assms(2)] by metis
  obtain era' yoe' doy' where f': "z' + 719468 = 146097 * era' + (year_start yoe' + doy')" "0 \<le> yoe'" "yoe' < 400"
    "0 \<le> doy'" "year_start yoe' + doy' < year_start (yoe' + 1)" "year_start yoe' + doy' < 146097"
    "12 * y' + m' = 4800 * era' + 12 * yoe' + month_of doy' + 3" "d' = day_of doy'"
    "0 \<le> month_of doy'" "month_of doy' \<le> 11"
    using civil_from_days_cases [OF assms(3)] by metis
  have start: "0 \<le> year_start yoe" "0 \<le> year_start yoe'"
    using year_start_mono [OF f(2)] year_start_mono [OF f'(2)] year_start_0 by linarith+
  have era: "era \<le> era'" using f f' start assms(1) by linarith
  show ?thesis
  proof (cases "era = era'")
    case False
    with era have "era + 1 \<le> era'" by simp
    with f f' have "12 * y + m < 12 * y' + m'" by linarith
    then show ?thesis by simp
  next
    case e: True
    then have lt: "year_start yoe + doy < year_start yoe' + doy'" using f(1) f'(1) assms(1) by linarith
    have "yoe \<le> yoe'"
    proof (rule ccontr)
      assume "\<not> yoe \<le> yoe'"
      then have "year_start (yoe' + 1) \<le> year_start yoe" by (intro year_start_mono) simp
      with f f' lt show False by linarith
    qed
    then consider "yoe < yoe'" | "yoe = yoe'" by linarith
    then show ?thesis
    proof cases
      case 1
      with e f(7,10) f'(7,9) show ?thesis by linarith
    next
      case 2
      with lt have "doy < doy'" by simp
      moreover from this have "month_of doy \<le> month_of doy'" unfolding month_of_def by (intro zdiv_mono1) auto
      moreover have "d < d'" if "month_of doy = month_of doy'"
        using \<open>doy < doy'\<close> by (simp add: f(8) f'(8) day_of_def that)
      ultimately show ?thesis using f(7) f'(7) e 2 by linarith
    qed
  qed
qed

section \<open>Texts of numbers in order\<close>

lemma digit_less: "0 \<le> a \<Longrightarrow> a < 10 \<Longrightarrow> 0 \<le> b \<Longrightarrow> b < 10 \<Longrightarrow> digit a < digit b \<longleftrightarrow> a < b"
  by (auto simp: digit_def less_char_def mod_pos_pos_trivial)

lemma digit_mod: "digit (n mod 10) = digit n" by (simp add: digit_def)

lemma Cons_digits_less:
  fixes x y :: string
  assumes "0 \<le> a" "a < 10" "0 \<le> b" "b < 10"
  shows "digit a # x < digit b # y \<longleftrightarrow> a < b \<or> (a = b \<and> x < y)"
  using assms digit_less [of a b] digit_less [of b a] by (cases "a = b") auto

lemma pad2_less:
  fixes x y :: string
  assumes "0 \<le> a" "a < 100" "0 \<le> b" "b < 100"
  shows "pad2 a @ x < pad2 b @ y \<longleftrightarrow> a < b \<or> (a = b \<and> x < y)"
proof -
  have "pad2 a @ x < pad2 b @ y \<longleftrightarrow>
      a div 10 < b div 10 \<or> a div 10 = b div 10 \<and> (a mod 10 < b mod 10 \<or> a mod 10 = b mod 10 \<and> x < y)"
    using assms Cons_digits_less [of "a div 10" "b div 10" "digit (a mod 10) # x" "digit (b mod 10) # y"]
      Cons_digits_less [of "a mod 10" "b mod 10" x y]
    by (simp add: pad2_def digit_mod)
  also have "\<dots> \<longleftrightarrow> a < b \<or> (a = b \<and> x < y)" 
    using div_mult_mod_eq [of a 10] div_mult_mod_eq [of b 10] pos_mod_bound [of 10 a] pos_mod_bound [of 10 b] pos_mod_sign [of 10 a] pos_mod_sign [of 10 b]
    by linarith
  finally show ?thesis .
qed

lemma pad4_pad2: "pad4 n = pad2 (n div 100) @ pad2 (n mod 100)"
proof -
  have "digit (n mod 100 div 10) = digit (n div 10)"
    using zmod_zmult2_eq [of 10 n 10] digit_mod [of "n div 10"] by simp
  moreover have "digit (n mod 100) = digit n" by (simp add: digit_def mod_mod_cancel)
  moreover have "n div 1000 = n div 100 div 10" using zdiv_zmult2_eq [of 10 n 100] by simp
  ultimately show ?thesis by (simp add: pad4_def pad2_def)
qed

lemma pad4_less:
  fixes x y :: string
  assumes "0 \<le> a" "a < 10000" "0 \<le> b" "b < 10000"
  shows "pad4 a @ x < pad4 b @ y \<longleftrightarrow> a < b \<or> (a = b \<and> x < y)"
proof -
  have "pad4 a @ x < pad4 b @ y \<longleftrightarrow>
      a div 100 < b div 100 \<or> a div 100 = b div 100 \<and> (a mod 100 < b mod 100 \<or> a mod 100 = b mod 100 \<and> x < y)"
    using assms pad2_less [of "a div 100" "b div 100" "pad2 (a mod 100) @ x" "pad2 (b mod 100) @ y"]
      pad2_less [of "a mod 100" "b mod 100" x y]
    by (simp add: pad4_pad2)
  also have "\<dots> \<longleftrightarrow> a < b \<or> (a = b \<and> x < y)"
    using div_mult_mod_eq [of a 100] div_mult_mod_eq [of b 100] pos_mod_bound [of 100 a] pos_mod_bound [of 100 b]
      pos_mod_sign [of 100 a] pos_mod_sign [of 100 b]
    by linarith
  finally show ?thesis .
qed

section \<open>Times in order\<close>

definition day :: duration where "day = 86400 * second"

definition four_digit_years :: "time \<Rightarrow> bool" where
  "four_digit_years t \<longleftrightarrow> (case civil_from_days (t div day) of (y, m, d) \<Rightarrow> 0 \<le> y \<and> y < 10000)"

lemma date_text_less:
  assumes "four_digit_years t" "four_digit_years u" "t div day < u div day"
  shows "date_text t @ x < date_text u @ y"
proof -
  obtain y m d where t: "civil_from_days (t div day) = (y, m, d)" by (metis prod_cases3)
  obtain y' m' d' where u: "civil_from_days (u div day) = (y', m', d')" by (metis prod_cases3)
  have b: "0 \<le> y" "y < 10000" "0 \<le> y'" "y' < 10000" using assms t u by (simp_all add: four_digit_years_def)
  have m: "1 \<le> m" "m \<le> 12" "1 \<le> d" "d \<le> 31" using civil_from_days_cases [OF t] by metis+
  have m': "1 \<le> m'" "m' \<le> 12" "1 \<le> d'" "d' \<le> 31" using civil_from_days_cases [OF u] by metis+
  have "y < y' \<or> y = y' \<and> (m < m' \<or> m = m' \<and> d < d')"
    using civil_from_days_less [OF assms(3) t u] m m' by linarith
  then show ?thesis
    using t u m m' b by (auto simp: date_text_def day_def pad4_less pad2_less)
qed

lemma date_text_le_iff:
  assumes "four_digit_years t" "four_digit_years u"
  shows "date_text t \<le> date_text u \<longleftrightarrow> t div day \<le> u div day"
proof -
  have "date_text t = date_text u" if "t div day = u div day" using that by (simp add: date_text_def day_def)
  moreover have "date_text t < date_text u" if "t div day < u div day" using date_text_less [OF assms that, of "[]" "[]"] by simp
  moreover have "date_text u < date_text t" if "u div day < t div day" using date_text_less [OF assms(2,1) that, of "[]" "[]"] by simp
  ultimately show ?thesis by (metis leD leI le_less)
qed

lemma clock_digits:
  assumes "0 \<le> s" "s < 86400" "0 \<le> s'" "s' < 86400"
  shows "s div 3600 < s' div 3600 \<or> s div 3600 = s' div 3600 \<and> (s div 60 mod 60 < s' div 60 mod 60
           \<or> s div 60 mod 60 = s' div 60 mod 60 \<and> s mod 60 < s' mod 60) \<longleftrightarrow> s < (s' :: int)"
proof -
  have *: "s = 3600 * (s div 3600) + (60 * (s div 60 mod 60) + s mod 60)" for s :: int
  proof -
    have "s div 3600 = s div 60 div 60" using zdiv_zmult2_eq [of 60 s 60] by simp
    then have "s div 60 = 60 * (s div 3600) + s div 60 mod 60" by simp
    moreover have "s = 60 * (s div 60) + s mod 60" by simp
    ultimately show ?thesis by linarith
  qed
  define h m r h' m' r' where "h = s div 3600" "m = s div 60 mod 60" "r = s mod 60"
    and "h' = s' div 3600" "m' = s' div 60 mod 60" "r' = s' mod 60"
  note defs = this
  have "0 \<le> m" "m < 60" "0 \<le> r" "r < 60" "0 \<le> m'" "m' < 60" "0 \<le> r'" "r' < 60"
    by (simp_all add: defs)
  moreover have "s = 3600 * h + (60 * m + r)" "s' = 3600 * h' + (60 * m' + r')"
    using * [of s] * [of s'] by (simp_all only: defs)
  ultimately show ?thesis unfolding defs [symmetric] by linarith
qed

lemma clock_text_less:
  fixes x y :: string
  shows "clock_text t @ x < clock_text u @ y \<longleftrightarrow>
    (t div second) mod 86400 < (u div second) mod 86400 \<or> ((t div second) mod 86400 = (u div second) mod 86400 \<and> x < y)"
proof -
  define s s' where "s = (t div second) mod 86400" and "s' = (u div second) mod 86400"
  have b: "0 \<le> s" "s < 86400" "0 \<le> s'" "s' < 86400" by (simp_all add: s_def s'_def)
  then have h: "0 \<le> s div 3600" "s div 3600 < 100" "0 \<le> s' div 3600" "s' div 3600 < 100" by auto
  have m: "0 \<le> n div 60 mod 60 \<and> n div 60 mod 60 < 100 \<and> 0 \<le> n mod 60 \<and> n mod 60 < 100" for n :: int
    using pos_mod_bound [of 60 n] pos_mod_bound [of 60 "n div 60"] by (simp del: pos_mod_bound)
  have eq: "s = s'" if "s div 3600 = s' div 3600" "s div 60 mod 60 = s' div 60 mod 60" "s mod 60 = s' mod 60"
    using clock_digits [OF b] clock_digits [OF b(3,4) b(1,2)] that by (metis linorder_neqE less_irrefl)
  have "clock_text t @ x < clock_text u @ y \<longleftrightarrow>
      s div 3600 < s' div 3600 \<or> s div 3600 = s' div 3600 \<and> (s div 60 mod 60 < s' div 60 mod 60
        \<or> s div 60 mod 60 = s' div 60 mod 60 \<and> (s mod 60 < s' mod 60 \<or> s mod 60 = s' mod 60 \<and> x < y))"
    using h m [of s] m [of s'] by (simp add: clock_text_def Let_def pad2_less s_def [symmetric] s'_def [symmetric])
  also have "\<dots> \<longleftrightarrow> s < s' \<or> s = s' \<and> x < y"
    using clock_digits [OF b] eq by blast
  finally show ?thesis by (simp add: s_def s'_def)
qed

lemma day_of_second: "t div day = (t div second) div 86400"
  using zdiv_zmult2_eq [of 86400 t second] by (simp add: day_def mult.commute)

lemma format_SQLite_cong: "t div second = u div second \<Longrightarrow> format_SQLite t = format_SQLite u"
  using day_of_second [of t] day_of_second [of u]
  by (simp add: format_SQLite_def clock_text_def date_text_def day_def)

lemma format_SQLite_less_aux:
  assumes "four_digit_years t" "four_digit_years u" "t div second < u div second"
  shows "format_SQLite t < format_SQLite u"
proof (cases "t div day = u div day")
  case True
  then have d: "date_text t = date_text u" by (simp add: date_text_def day_def)
  have "t div second = 86400 * (t div day) + (t div second) mod 86400" "u div second = 86400 * (u div day) + (u div second) mod 86400"
    by (simp_all add: day_of_second)
  with True assms(3) have "(t div second) mod 86400 < (u div second) mod 86400" by linarith
  then show ?thesis using clock_text_less [of t "[]" u "[]"] append_less_same_length [of "date_text t" "date_text u" "'' '' @ clock_text t" "'' '' @ clock_text u"]
    by (simp add: format_SQLite_def d)
next
  case False
  with assms(3) have "t div day < u div day" by (simp add: day_of_second zdiv_mono1 order_less_le)
  then show ?thesis using date_text_less [OF assms(1,2)] by (simp add: format_SQLite_def)
qed

lemma format_SQLite_less:
  assumes "four_digit_years t" "four_digit_years u"
  shows "format_SQLite t < format_SQLite u \<longleftrightarrow> t div second < u div second"
  using format_SQLite_less_aux [OF assms] format_SQLite_less_aux [OF assms(2,1)] format_SQLite_cong [of t u]
  by (metis linorder_neqE less_irrefl less_asym)

lemma format_SQLite_le:
  assumes "four_digit_years t" "four_digit_years u"
  shows "format_SQLite t \<le> format_SQLite u \<longleftrightarrow> t div second \<le> u div second"
  using format_SQLite_less [OF assms(2,1)] by (simp add: not_less [symmetric])

text \<open>The years with four digits in terms of time: from year 0 up to year 10000.\<close>

lemma four_digit_years_iff: "four_digit_years t \<longleftrightarrow> - 719528 * day \<le> t \<and> t < 2932897 * day"
proof -
  define z where "z = t div day"
  obtain y m d where z: "civil_from_days z = (y, m, d)" by (metis prod_cases3)
  have m: "1 \<le> m" "m \<le> 12" "1 \<le> d" "d \<le> 31" using civil_from_days_cases [OF z] by metis+
  have lo: "civil_from_days (- 719528) = (0, 1, 1)" and hi: "civil_from_days 2932896 = (9999, 12, 31)" by code_simp+
  have "0 \<le> y \<longleftrightarrow> - 719528 \<le> z"
    using civil_from_days_less [OF _ z lo] civil_from_days_less [OF _ lo z] z lo m
    by (cases z "- 719528 :: int" rule: linorder_cases) auto
  moreover have "y < 10000 \<longleftrightarrow> z \<le> 2932896"
    using civil_from_days_less [OF _ z hi] civil_from_days_less [OF _ hi z] z hi m
    by (cases z "2932896 :: int" rule: linorder_cases) auto
  moreover have "- 719528 \<le> z \<longleftrightarrow> - 719528 * day \<le> t" "z \<le> 2932896 \<longleftrightarrow> t < 2932897 * day"
    unfolding z_def day_def by (auto simp: duration_defs)
  ultimately show ?thesis by (simp add: four_digit_years_def z z_def [symmetric])
qed
end
