(* ===== verification/Db_Model.thy ===== *)
theory Db_Model
  imports Go_Calendar Complex_Main
begin

text \<open>
  The records that cross the \<open>db.Provider\<close> interface (\<open>internal/db/model.go\<close>,
  \<open>internal/db/provider.go\<close>, \<open>api/models/series.go\<close>). Field names carry a short prefix
  because record selectors are global in HOL.
\<close>

record MetricCatalogItem =
  ci_Name :: string
  ci_Type :: string
  ci_Help :: string
  ci_Unit :: string

record MetricJobIndexItem =
  ji_Name :: string
  ji_Job :: string

record TimeRange =
  tr_From :: time
  tr_To :: time

text \<open>
  Usage metadata of one metric. The counters are Go \<open>int\<close>s. \<open>LastQueriedAt\<close> is the RFC 3339
  text of a time, or the empty string.
\<close>

record MetricMetadata =
  mm_Name :: string
  mm_Type :: string
  mm_Help :: string
  mm_Unit :: string
  mm_AlertCount :: int
  mm_RecordCount :: int
  mm_DashboardCount :: int
  mm_QueryCount :: int
  mm_LastQueriedAt :: string

text \<open>The zero \<open>time.Time\<close> is the start of year 1; \<open>IsZero\<close> tests for it.\<close>

definition zero_time :: time where
  "zero_time = -62135596800 * second"

text \<open>A recorded query execution and the rows pushed by the usage collector.\<close>

record Query =
  q_TS :: time
  q_QueryParam :: string
  q_TimeParam :: time
  q_Duration :: duration
  q_StatusCode :: int
  q_BodySize :: int
  q_LabelMatchers :: "(string, string) go_map list"
  q_Fingerprint :: string
  q_Type :: string
  q_Step :: real
  q_Start :: time
  q_End :: time
  q_TotalQueryableSamples :: int
  q_PeakSamples :: int
  q_HTTPHeaders :: "(string, string) go_map"

definition QueryTypeRange :: string where "QueryTypeRange = ''range''"
definition QueryTypeInstant :: string where "QueryTypeInstant = ''instant''"
definition KnownQueryTypes :: "string list" where "KnownQueryTypes = [QueryTypeRange, QueryTypeInstant]"

definition RuleUsageKindAlert :: string where "RuleUsageKindAlert = ''alert''"
definition RuleUsageKindRecord :: string where "RuleUsageKindRecord = ''record''"

record RulesUsage =
  ru_Serie :: string
  ru_GroupName :: string
  ru_Name :: string
  ru_Expression :: string
  ru_Kind :: string
  ru_Labels :: "string list"
  ru_CreatedAt :: time

record DashboardUsage =
  du_Id :: string
  du_Serie :: string
  du_Name :: string
  du_URL :: string
  du_CreatedAt :: time

section \<open>Time ranges\<close>

definition TimeRange_Format :: "(time \<Rightarrow> string) \<Rightarrow> TimeRange \<Rightarrow> string \<times> string" where
  "TimeRange_Format layout tr = (layout (tr_From tr), layout (tr_To tr))"

definition TimeRange_Previous :: "TimeRange \<Rightarrow> TimeRange" where
  "TimeRange_Previous tr =
     (let duration = time_sub (tr_To tr) (tr_From tr) in
      \<lparr>tr_From = tr_From tr + duration_neg duration, tr_To = tr_To tr + duration_neg duration\<rparr>)"

definition ThirtyDays :: duration where "ThirtyDays = 30 * 24 * hour"

definition SetDefaultTimeRange :: "time \<Rightarrow> TimeRange \<Rightarrow> TimeRange" where
  "SetDefaultTimeRange now tr =
     \<lparr>tr_From = (if tr_From tr = zero_time then now - ThirtyDays else tr_From tr),
      tr_To = (if tr_To tr = zero_time then now else tr_To tr)\<rparr>"

text \<open>The previous window has the same length and ends where the window starts.\<close>

lemma TimeRange_Previous_adjacent:
  "\<bar>tr_To tr - tr_From tr\<bar> \<le> maxDuration \<Longrightarrow>
     tr_To (TimeRange_Previous tr) = tr_From tr \<and>
     tr_To (TimeRange_Previous tr) - tr_From (TimeRange_Previous tr) = tr_To tr - tr_From tr"
  by (simp add: TimeRange_Previous_def Let_def time_sub_exact duration_neg_exact)

lemma SetDefaultTimeRange_idem:
  "now \<noteq> zero_time \<Longrightarrow> now - ThirtyDays \<noteq> zero_time \<Longrightarrow>
     SetDefaultTimeRange later (SetDefaultTimeRange now tr) = SetDefaultTimeRange now tr"
  by (simp add: SetDefaultTimeRange_def)

end
