(* ===== verification/Otlp_Data.thy ===== *)
theory Otlp_Data
  imports Db_Model
begin

text \<open>
  The OTLP metrics message as the ingester reads it, and the naming rules that translate
  it to Prometheus (\<open>internal/ingester/otlp/prometheus_names.go\<close>, the counting helpers of
  \<open>filter.go\<close>, \<open>otlpTypeToPrometheus\<close> of \<open>catalog_buffer.go\<close>).

  The message types are those of the OpenTelemetry protocol buffers, restricted to the
  fields the code reads. A data point is kept as its encoded bytes: the code only counts
  data points. \<open>NoData\<close> is a metric whose \<open>data\<close> oneof is unset. Elements of the repeated
  fields are never nil, as protocol buffer decoding guarantees.
\<close>

section \<open>The message\<close>

type_synonym datapoint = string

datatype any_value = StringValue string | OtherValue

record key_value =
  kv_Key :: string
  kv_Value :: "any_value option"

record resource =
  res_Attributes :: "key_value list"

datatype metric_data =
    Gauge "datapoint list"
  | Sum "datapoint list" bool \<comment> \<open>the flag is \<open>IsMonotonic\<close>\<close>
  | Histogram "datapoint list"
  | ExponentialHistogram "datapoint list"
  | Summary "datapoint list"
  | NoData

record metric =
  m_Name :: string
  m_Description :: string
  m_Unit :: string
  m_Data :: metric_data

record scope_metrics =
  sm_Scope :: string
  sm_Metrics :: "metric list"

record resource_metrics =
  rm_Resource :: "resource option"
  rm_ScopeMetrics :: "scope_metrics list"

record export_request =
  ResourceMetrics :: "resource_metrics list"

section \<open>Attributes\<close>

text \<open>\<open>AttrView.Get\<close>: the first attribute with the key that holds a string.\<close>

fun AttrView_Get :: "key_value list \<Rightarrow> string \<Rightarrow> string" where
  "AttrView_Get [] key = ''''"
| "AttrView_Get (kv # a) key =
     (if kv_Key kv = key
      then (case kv_Value kv of
              Some (StringValue v) \<Rightarrow> v
            | _ \<Rightarrow> AttrView_Get a key)
      else AttrView_Get a key)"

section \<open>Data point counts\<close>

fun countMetricDatapoints_data :: "metric_data \<Rightarrow> nat" where
  "countMetricDatapoints_data (Gauge dps) = length dps"
| "countMetricDatapoints_data (Sum dps _) = length dps"
| "countMetricDatapoints_data (Histogram dps) = length dps"
| "countMetricDatapoints_data (ExponentialHistogram dps) = length dps"
| "countMetricDatapoints_data (Summary dps) = length dps"
| "countMetricDatapoints_data NoData = 0"

definition countMetricDatapoints :: "metric \<Rightarrow> nat" where
  "countMetricDatapoints m = countMetricDatapoints_data (m_Data m)"

fun metricIsEmpty_data :: "metric_data \<Rightarrow> bool" where
  "metricIsEmpty_data (Gauge dps) = (length dps = 0)"
| "metricIsEmpty_data (Sum dps _) = (length dps = 0)"
| "metricIsEmpty_data (Histogram dps) = (length dps = 0)"
| "metricIsEmpty_data (ExponentialHistogram dps) = (length dps = 0)"
| "metricIsEmpty_data (Summary dps) = (length dps = 0)"
| "metricIsEmpty_data NoData = False"

definition metricIsEmpty :: "metric \<Rightarrow> bool" where
  "metricIsEmpty m = metricIsEmpty_data (m_Data m)"

lemma metricIsEmpty_count: "metricIsEmpty m \<Longrightarrow> countMetricDatapoints m = 0"
  by (cases "m_Data m") (auto simp: metricIsEmpty_def countMetricDatapoints_def)

section \<open>Prometheus names\<close>

text \<open>
  The pointer argument may be nil (\<open>None\<close>). \<open>GetSum\<close> is non-nil exactly when the data is
  a sum.
\<close>

definition prometheusMetricName :: "metric option \<Rightarrow> string" where
  "prometheusMetricName mp =
     (case mp of
        None \<Rightarrow> ''''
      | Some m \<Rightarrow>
          (let name = m_Name m in
           if name = '''' then ''''
           else (case m_Data m of
                   Sum _ isMonotonic \<Rightarrow>
                     if isMonotonic \<and> \<not> HasSuffix name ''_total'' then name @ ''_total'' else name
                 | _ \<Rightarrow> name)))"

abbreviation metric_name :: "metric \<Rightarrow> string" where
  "metric_name m \<equiv> prometheusMetricName (Some m)"

fun otlpTypeToPrometheus_data :: "metric_data \<Rightarrow> string" where
  "otlpTypeToPrometheus_data (Gauge _) = ''gauge''"
| "otlpTypeToPrometheus_data (Sum _ isMonotonic) = (if isMonotonic then ''counter'' else ''gauge'')"
| "otlpTypeToPrometheus_data (Histogram _) = ''histogram''"
| "otlpTypeToPrometheus_data (ExponentialHistogram _) = ''histogram''"
| "otlpTypeToPrometheus_data (Summary _) = ''summary''"
| "otlpTypeToPrometheus_data NoData = ''unknown''"

definition otlpTypeToPrometheus :: "metric \<Rightarrow> string" where
  "otlpTypeToPrometheus m = otlpTypeToPrometheus_data (m_Data m)"

definition isHistogram :: "metric \<Rightarrow> bool" where
  "isHistogram m = (case m_Data m of Histogram _ \<Rightarrow> True | _ \<Rightarrow> False)"

definition isExponentialHistogram :: "metric \<Rightarrow> bool" where
  "isExponentialHistogram m = (case m_Data m of ExponentialHistogram _ \<Rightarrow> True | _ \<Rightarrow> False)"

definition isSummary :: "metric \<Rightarrow> bool" where
  "isSummary m = (case m_Data m of Summary _ \<Rightarrow> True | _ \<Rightarrow> False)"

definition prometheusCatalogItems :: "metric \<Rightarrow> MetricCatalogItem list" where
  "prometheusCatalogItems m =
     (let name = metric_name m; help = m_Description m; unt = m_Unit m in
      if name = '''' then []
      else
        [\<lparr>ci_Name = name, ci_Type = otlpTypeToPrometheus m, ci_Help = help, ci_Unit = unt\<rparr>]
        @ (if isHistogram m \<or> isExponentialHistogram m
           then [\<lparr>ci_Name = name @ ''_bucket'', ci_Type = ''histogram'', ci_Help = help, ci_Unit = unt\<rparr>,
                 \<lparr>ci_Name = name @ ''_sum'', ci_Type = ''histogram'', ci_Help = help, ci_Unit = unt\<rparr>,
                 \<lparr>ci_Name = name @ ''_count'', ci_Type = ''histogram'', ci_Help = help, ci_Unit = ''''\<rparr>]
           else [])
        @ (if isSummary m
           then [\<lparr>ci_Name = name @ ''_sum'', ci_Type = ''summary'', ci_Help = help, ci_Unit = unt\<rparr>,
                 \<lparr>ci_Name = name @ ''_count'', ci_Type = ''summary'', ci_Help = help, ci_Unit = ''''\<rparr>]
           else []))"

definition prometheusCatalogNames :: "metric list \<Rightarrow> string list" where
  "prometheusCatalogNames metrics =
     concat (map (\<lambda>m. map ci_Name (prometheusCatalogItems m)) metrics)"

section \<open>Facts about names\<close>

lemma metric_name_empty_iff: "metric_name m = '''' \<longleftrightarrow> m_Name m = ''''"
  by (auto simp: prometheusMetricName_def Let_def split: metric_data.splits)

lemma metric_name_prefix: "\<exists>t. metric_name m = m_Name m @ t"
  by (cases "m_Name m = ''''")
    (auto simp: prometheusMetricName_def Let_def split: metric_data.splits)

text \<open>
  Normalising is idempotent: a metric already carrying its Prometheus name keeps it, so a
  producer that appends \<open>_total\<close> itself and one that does not end at the same name.
\<close>

lemma metric_name_idem: "metric_name (m\<lparr>m_Name := metric_name m\<rparr>) = metric_name m"
  by (auto simp: prometheusMetricName_def Let_def split: metric_data.splits)

lemma metric_name_counter_suffix:
  "m_Name m \<noteq> '''' \<Longrightarrow> m_Data m = Sum dps True \<Longrightarrow> HasSuffix (metric_name m) ''_total''"
  by (auto simp: prometheusMetricName_def Let_def)

lemma catalog_items_empty_iff: "prometheusCatalogItems m = [] \<longleftrightarrow> metric_name m = ''''"
  by (simp add: prometheusCatalogItems_def Let_def)

lemma catalog_items_names_nonempty:
  "it \<in> set (prometheusCatalogItems m) \<Longrightarrow> ci_Name it \<noteq> ''''"
  by (auto simp: prometheusCatalogItems_def Let_def split: if_splits)

lemma catalog_items_distinct: "distinct (map ci_Name (prometheusCatalogItems m))"
  by (auto simp: prometheusCatalogItems_def Let_def isHistogram_def isExponentialHistogram_def
      isSummary_def split: metric_data.splits)

lemma catalog_items_prefix:
  "it \<in> set (prometheusCatalogItems m) \<Longrightarrow> \<exists>t. ci_Name it = metric_name m @ t"
  by (auto simp: prometheusCatalogItems_def Let_def split: if_splits)

end
