(* ===== verification/Otlp_Filter.thy ===== *)
theory Otlp_Filter
  imports Otlp_Data
begin

text \<open>
  The request filter (\<open>internal/ingester/otlp/filter.go\<close>): \<open>FilterExport\<close> walks
  resources, scopes and metrics, compacts every slice in place and drops scopes and
  resources that become empty.
\<close>

section \<open>Configuration and context\<close>

record FilterContext =
  fc_Resource :: "resource option"
  fc_Scope :: string
  fc_Metric :: metric

text \<open>A nil map and a nil function are \<open>None\<close>.\<close>

record FilterConfig =
  DropMetricNames :: "string set option"
  DropMetricPrefixes :: "string list"
  MetricKeep :: "(FilterContext \<Rightarrow> bool) option"

definition FilterContext_ResourceAttr :: "FilterContext \<Rightarrow> string \<Rightarrow> string" where
  "FilterContext_ResourceAttr c key =
     (case fc_Resource c of
        None \<Rightarrow> ''''
      | Some r \<Rightarrow> AttrView_Get (res_Attributes r) key)"

definition shouldDropMetric :: "FilterContext \<Rightarrow> FilterConfig \<Rightarrow> bool" where
  "shouldDropMetric ctx cfg =
     (let name = metric_name (fc_Metric ctx) in
      (case DropMetricNames cfg of None \<Rightarrow> False | Some ns \<Rightarrow> name \<in> ns)
      \<or> list_ex (\<lambda>p. HasPrefix name p) (DropMetricPrefixes cfg)
      \<or> (case MetricKeep cfg of None \<Rightarrow> False | Some keep \<Rightarrow> \<not> keep ctx))"

section \<open>The three loops\<close>

text \<open>
  One iteration of each loop gives what is appended and what is added to \<open>dropped\<close>; the
  loops themselves are the in-place compaction of the prelude.
\<close>

definition filter_metric ::
  "resource option \<Rightarrow> string \<Rightarrow> FilterConfig \<Rightarrow> metric \<Rightarrow> metric option \<times> nat" where
  "filter_metric res scope cfg m =
     (let ctx = \<lparr>fc_Resource = res, fc_Scope = scope, fc_Metric = m\<rparr> in
      if shouldDropMetric ctx cfg then (None, countMetricDatapoints m)
      else if metricIsEmpty m then (None, 0)
      else (Some m, 0))"

definition filterScopeMetrics ::
  "resource option \<Rightarrow> FilterConfig \<Rightarrow> scope_metrics \<Rightarrow> scope_metrics option \<times> nat" where
  "filterScopeMetrics res cfg sm =
     (let (newMetrics, dropped) = compact_slice (filter_metric res (sm_Scope sm) cfg) (sm_Metrics sm) in
      if newMetrics = [] then (None, dropped)
      else (Some (sm\<lparr>sm_Metrics := newMetrics\<rparr>), dropped))"

definition filterResourceMetrics ::
  "FilterConfig \<Rightarrow> resource_metrics \<Rightarrow> resource_metrics option \<times> nat" where
  "filterResourceMetrics cfg rm =
     (let (newSMS, dropped) = compact_slice (filterScopeMetrics (rm_Resource rm) cfg) (rm_ScopeMetrics rm) in
      if newSMS = [] then (None, dropped)
      else (Some (rm\<lparr>rm_ScopeMetrics := newSMS\<rparr>), dropped))"

definition FilterExport :: "export_request \<Rightarrow> FilterConfig \<Rightarrow> export_request \<times> nat" where
  "FilterExport req cfg =
     (let (rms, dropped) = compact_slice (filterResourceMetrics cfg) (ResourceMetrics req) in
      (req\<lparr>ResourceMetrics := rms\<rparr>, dropped))"

section \<open>Reference view: the metrics of a request with their resource and scope\<close>

definition scope_rows :: "resource option \<Rightarrow> scope_metrics \<Rightarrow> (resource option \<times> string \<times> metric) list" where
  "scope_rows res sm = map (\<lambda>m. (res, sm_Scope sm, m)) (sm_Metrics sm)"

definition resource_rows :: "resource_metrics \<Rightarrow> (resource option \<times> string \<times> metric) list" where
  "resource_rows rm = concat (map (scope_rows (rm_Resource rm)) (rm_ScopeMetrics rm))"

definition request_rows :: "export_request \<Rightarrow> (resource option \<times> string \<times> metric) list" where
  "request_rows req = concat (map resource_rows (ResourceMetrics req))"

definition row_dropped :: "FilterConfig \<Rightarrow> resource option \<times> string \<times> metric \<Rightarrow> bool" where
  "row_dropped cfg = (\<lambda>(res, scope, m).
     shouldDropMetric \<lparr>fc_Resource = res, fc_Scope = scope, fc_Metric = m\<rparr> cfg)"

definition row_datapoints :: "resource option \<times> string \<times> metric \<Rightarrow> nat" where
  "row_datapoints = (\<lambda>(res, scope, m). countMetricDatapoints m)"

definition row_kept :: "FilterConfig \<Rightarrow> resource option \<times> string \<times> metric \<Rightarrow> bool" where
  "row_kept cfg row \<longleftrightarrow> \<not> row_dropped cfg row \<and> \<not> metricIsEmpty (snd (snd row))"

definition request_datapoints :: "export_request \<Rightarrow> nat" where
  "request_datapoints req = sum_list (map row_datapoints (request_rows req))"

lemmas row_defs = scope_rows_def resource_rows_def request_rows_def

section \<open>The loops against the reference view\<close>

lemma filter_metric_loop:
  "compact_slice (filter_metric res scope cfg) ms =
     (filter (\<lambda>m. row_kept cfg (res, scope, m)) ms,
      sum_list (map row_datapoints (filter (row_dropped cfg) (map (\<lambda>m. (res, scope, m)) ms))))"
proof (induction ms)
  case Nil
  then show ?case by (simp add: compact_slice_eq map_filter_simps)
next
  case (Cons m ms)
  then show ?case
    by (simp add: compact_slice_eq map_filter_simps filter_metric_def Let_def row_kept_def
        row_dropped_def row_datapoints_def)
qed

text \<open>
  Each level keeps exactly the rows that survive and counts exactly the data points of the
  rows dropped by the configuration; a level that ends empty contributes no rows.
\<close>

lemma filterScopeMetrics_rows:
  "(case fst (filterScopeMetrics res cfg sm) of None \<Rightarrow> [] | Some sm' \<Rightarrow> scope_rows res sm') =
     filter (row_kept cfg) (scope_rows res sm)"
proof -
  have "filter (row_kept cfg) (scope_rows res sm) =
      map (\<lambda>m. (res, sm_Scope sm, m)) (filter (\<lambda>m. row_kept cfg (res, sm_Scope sm, m)) (sm_Metrics sm))"
    by (simp add: scope_rows_def filter_map comp_def)
  then show ?thesis
    by (auto simp: filterScopeMetrics_def filter_metric_loop scope_rows_def split: if_splits)
qed

lemma filterScopeMetrics_dropped:
  "snd (filterScopeMetrics res cfg sm) =
     sum_list (map row_datapoints (filter (row_dropped cfg) (scope_rows res sm)))"
  by (auto simp: filterScopeMetrics_def filter_metric_loop scope_rows_def)

text \<open>Lifting a per-element specification through one compaction loop.\<close>

lemma compact_lift_rows:
  assumes "\<And>x. (case fst (f x) of None \<Rightarrow> [] | Some y \<Rightarrow> rows y) = filter P (rows x)"
  shows "concat (map rows (fst (compact_slice f xs))) = filter P (concat (map rows xs))"
proof (induction xs)
  case Nil
  then show ?case by (simp add: compact_slice_eq map_filter_simps)
next
  case (Cons x xs)
  then show ?case
    using assms [of x] by (simp add: compact_slice_eq map_filter_simps split: option.splits)
qed

lemma compact_lift_count:
  assumes "\<And>x. snd (f x) = sum_list (map g (filter Q (rows x)))"
  shows "snd (compact_slice f xs) = sum_list (map g (filter Q (concat (map rows xs))))"
  by (induction xs) (simp_all add: compact_slice_eq map_filter_simps assms)

lemma filterResourceMetrics_rows:
  "(case fst (filterResourceMetrics cfg rm) of None \<Rightarrow> [] | Some rm' \<Rightarrow> resource_rows rm') =
     filter (row_kept cfg) (resource_rows rm)"
  using compact_lift_rows [where f = "filterScopeMetrics (rm_Resource rm) cfg"
      and rows = "scope_rows (rm_Resource rm)" and xs = "rm_ScopeMetrics rm", OF filterScopeMetrics_rows]
  by (auto simp: filterResourceMetrics_def resource_rows_def split: if_splits prod.splits)

lemma filterResourceMetrics_dropped:
  "snd (filterResourceMetrics cfg rm) =
     sum_list (map row_datapoints (filter (row_dropped cfg) (resource_rows rm)))"
  using compact_lift_count [where f = "filterScopeMetrics (rm_Resource rm) cfg" and rows = "scope_rows (rm_Resource rm)"
      and xs = "rm_ScopeMetrics rm", OF filterScopeMetrics_dropped]
  by (auto simp: filterResourceMetrics_def resource_rows_def split: if_splits prod.splits)

lemma FilterExport_rows:
  "request_rows (fst (FilterExport req cfg)) = filter (row_kept cfg) (request_rows req)"
  using compact_lift_rows [where f = "filterResourceMetrics cfg" and rows = resource_rows
      and xs = "ResourceMetrics req", OF filterResourceMetrics_rows]
  by (auto simp: FilterExport_def request_rows_def split: prod.splits)

lemma FilterExport_dropped:
  "snd (FilterExport req cfg) =
     sum_list (map row_datapoints (filter (row_dropped cfg) (request_rows req)))"
  using compact_lift_count [where f = "filterResourceMetrics cfg" and rows = resource_rows
      and xs = "ResourceMetrics req", OF filterResourceMetrics_dropped]
  by (auto simp: FilterExport_def request_rows_def split: prod.splits)

lemma sum_kept_dropped:
  "sum_list (map row_datapoints (filter (row_kept cfg) rows))
   + sum_list (map row_datapoints (filter (row_dropped cfg) rows))
   = sum_list (map row_datapoints rows)"
  by (induction rows) (auto simp: row_kept_def row_datapoints_def metricIsEmpty_count)

text \<open>
  C5. The filter loses and invents no data points: what is left in the request plus what is
  reported as dropped is what the request held, although the slices are compacted in place
  and empty metrics, scopes and resources are removed on the way. The rows left are exactly
  the non-empty rows the configuration keeps, in their order.
\<close>

theorem FilterExport_conserves:
  "request_datapoints (fst (FilterExport req cfg)) + snd (FilterExport req cfg) = request_datapoints req
   \<and> request_rows (fst (FilterExport req cfg)) = filter (row_kept cfg) (request_rows req)"
  by (simp add: request_datapoints_def FilterExport_rows FilterExport_dropped sum_kept_dropped)

text \<open>A filtered request holds no empty scope or resource and no empty metric.\<close>

definition request_compacted :: "export_request \<Rightarrow> bool" where
  "request_compacted req \<longleftrightarrow>
     (\<forall>rm \<in> set (ResourceMetrics req). rm_ScopeMetrics rm \<noteq> [] \<and>
        (\<forall>sm \<in> set (rm_ScopeMetrics rm). sm_Metrics sm \<noteq> [] \<and>
           (\<forall>m \<in> set (sm_Metrics sm). \<not> metricIsEmpty m)))"

lemma set_map_filter: "set (List.map_filter f xs) = {y. \<exists>x \<in> set xs. f x = Some y}"
  by (induction xs) (auto simp: map_filter_simps split: option.splits)

lemma FilterExport_compacted: "request_compacted (fst (FilterExport req cfg))"
proof -
  have sm: "sm_Metrics sm' \<noteq> [] \<and> (\<forall>m \<in> set (sm_Metrics sm'). \<not> metricIsEmpty m)"
    if "fst (filterScopeMetrics res cfg sm) = Some sm'" for res sm sm'
    using that by (auto simp: filterScopeMetrics_def filter_metric_loop row_kept_def split: if_splits)
  have rm: "rm_ScopeMetrics rm' \<noteq> [] \<and> (\<forall>sm \<in> set (rm_ScopeMetrics rm'). sm_Metrics sm \<noteq> [] \<and>
        (\<forall>m \<in> set (sm_Metrics sm). \<not> metricIsEmpty m))"
    if "fst (filterResourceMetrics cfg rm) = Some rm'" for rm rm'
    using that sm
    by (auto simp: filterResourceMetrics_def compact_slice_eq set_map_filter split: if_splits)
  show ?thesis
    using rm by (auto simp: request_compacted_def FilterExport_def compact_slice_eq set_map_filter)
qed

end
