(* ===== verification/Config.thy ===== *)
theory Config
  imports Go_Prelude Complex_Main
begin

text \<open>
  The configuration tree (\<open>internal/config/config.go\<close>): one record per struct, the
  defaults, the handling of the two SQLite path keys, the header normalisation of
  \<open>LoadConfig\<close> and the sanitised copy that \<open>/api/v1/configs\<close> and the start-up log show.
  YAML decoding itself is third-party code; its result is an argument where the code
  post-processes it. A \<open>float64\<close> field is a real number.
\<close>

section \<open>Structs\<close>

record QueryProcessing =
  ExtractHTTPHeaders :: "string list"

record PostgreSQLConfig =
  pg_Addr :: string
  pg_Database :: string
  pg_DialTimeout :: duration
  pg_Password :: string
  pg_Port :: int
  pg_SSLMode :: string
  pg_User :: string
  pg_MaxOpenConns :: int
  pg_MaxIdleConns :: int
  pg_ConnMaxLifetime :: duration
  pg_ConnMaxIdleTime :: duration

record SQLiteConfig =
  sl_DatabasePath :: string

record DatabaseConfig =
  db_Provider :: string
  db_PostgreSQL :: PostgreSQLConfig
  db_SQLite :: SQLiteConfig

record UpstreamConfig =
  up_URL :: string
  up_IncludeQueryStats :: bool

record ServerConfig =
  srv_InsecureListenAddress :: string
  srv_PushMetricsUsageTimeout :: duration

record InsertConfig =
  ins_BatchSize :: int
  ins_BufferSize :: int
  ins_FlushInterval :: duration
  ins_GracePeriod :: duration
  ins_Timeout :: duration

record MemoryLimitConfig =
  ml_Enabled :: bool
  ml_Ratio :: real
  ml_RefreshInterval :: duration

record CORSConfig =
  AllowedOrigins :: "string list"
  AllowedMethods :: "string list"
  AllowedHeaders :: "string list"
  AllowCredentials :: bool
  MaxAge :: int

record InventoryConfig =
  inv_Enabled :: bool
  inv_MetadataSyncEnabled :: bool
  inv_MetadataMetricsNameOnly :: bool
  inv_SyncInterval :: duration
  inv_TimeWindow :: duration
  inv_RunTimeout :: duration
  inv_MetadataStepTimeout :: duration
  inv_SummaryStepTimeout :: duration
  inv_JobSyncEnabled :: bool
  inv_JobIndexLabelTimeout :: duration
  inv_JobIndexPerJobTimeout :: duration
  inv_JobIndexWorkers :: int

record RetentionConfig =
  ret_Enabled :: bool
  ret_Interval :: duration
  ret_RunTimeout :: duration
  ret_QueriesMaxAge :: duration

record OtlpIngesterConfig =
  ListenAddress :: string
  DownstreamAddress :: string
  GRPCMaxRecvMsgSizeBytes :: int
  GRPCMaxSendMsgSizeBytes :: int
  DownstreamGRPCMaxRecvMsgSizeBytes :: int
  DownstreamGRPCMaxSendMsgSizeBytes :: int
  DownstreamRetryMaxAttempts :: int
  DownstreamRetryInitialBackoff :: duration
  DownstreamRetryMaxBackoff :: duration
  DownstreamRetryBackoffMultiplier :: real
  DownstreamRetryCodes :: "string list"
  BalancerName :: string
  DownstreamConnectMinTimeout :: duration
  DownstreamConnectBaseDelay :: duration
  DownstreamConnectMaxDelay :: duration
  DownstreamConnectBackoffMultiplier :: real
  LookupChunkSize :: int

record CatalogSyncConfig =
  cs_Enabled :: bool
  cs_FlushInterval :: duration
  cs_BufferSize :: int
  cs_SeenTTL :: duration

record RedisCacheConfig =
  rd_Enabled :: bool
  rd_Addr :: string
  rd_Username :: string
  rd_Password :: string
  rd_DB :: int
  rd_UsedTTL :: duration
  rd_UnusedTTL :: duration
  rd_UsedOnly :: bool
  rd_OperationTimeout :: duration
  rd_DialTimeout :: duration
  rd_ConnWriteTimeout :: duration
  rd_BatchSize :: int

record IngesterConfig =
  ing_Protocol :: string
  ing_OTLP :: OtlpIngesterConfig
  ing_MetricsListenAddress :: string
  ing_DryRun :: bool
  ing_GracefulShutdownTimeout :: duration
  ing_DrainDelay :: duration
  ing_AllowedJobs :: "string list"
  ing_DeniedJobs :: "string list"
  ing_Redis :: RedisCacheConfig
  ing_CatalogSync :: CatalogSyncConfig

text \<open>
  \<open>Tracing\<close> is a pointer to the configuration of the Thanos tracing package; only its
  presence and its service name are read here.
\<close>

record ProxyConfig =
  cfg_Upstream :: UpstreamConfig
  cfg_Server :: ServerConfig
  cfg_Ingester :: IngesterConfig
  cfg_Database :: DatabaseConfig
  cfg_Insert :: InsertConfig
  cfg_Tracing :: "string option"
  cfg_MemoryLimit :: MemoryLimitConfig
  cfg_MetadataLimit :: nat
  cfg_SeriesLimit :: nat
  cfg_CORS :: CORSConfig
  cfg_Inventory :: InventoryConfig
  cfg_QueryProcessing :: QueryProcessing
  cfg_Retention :: RetentionConfig

section \<open>Defaults\<close>

definition DefaultOtlpIngesterConfig :: OtlpIngesterConfig where
  "DefaultOtlpIngesterConfig =
     \<lparr>ListenAddress = '':4317'', DownstreamAddress = '''',
      GRPCMaxRecvMsgSizeBytes = 10 * 1024 * 1024, GRPCMaxSendMsgSizeBytes = 10 * 1024 * 1024,
      DownstreamGRPCMaxRecvMsgSizeBytes = 10 * 1024 * 1024,
      DownstreamGRPCMaxSendMsgSizeBytes = 10 * 1024 * 1024,
      DownstreamRetryMaxAttempts = 2, DownstreamRetryInitialBackoff = 250 * millisecond,
      DownstreamRetryMaxBackoff = 1 * second, DownstreamRetryBackoffMultiplier = 16 / 10,
      DownstreamRetryCodes = [''UNAVAILABLE''], BalancerName = '''',
      DownstreamConnectMinTimeout = 500 * millisecond,
      DownstreamConnectBaseDelay = 250 * millisecond,
      DownstreamConnectMaxDelay = 5 * second,
      DownstreamConnectBackoffMultiplier = 16 / 10, LookupChunkSize = 500\<rparr>"

definition DefaultRedisCacheConfig :: RedisCacheConfig where
  "DefaultRedisCacheConfig =
     \<lparr>rd_Enabled = False, rd_Addr = '''', rd_Username = '''', rd_Password = '''', rd_DB = 0,
      rd_UsedTTL = 1 * hour, rd_UnusedTTL = 2 * minute, rd_UsedOnly = False,
      rd_OperationTimeout = 200 * millisecond, rd_DialTimeout = 5 * second,
      rd_ConnWriteTimeout = 10 * second, rd_BatchSize = 100\<rparr>"

definition DefaultIngesterConfig :: IngesterConfig where
  "DefaultIngesterConfig =
     \<lparr>ing_Protocol = ''otlp'', ing_OTLP = DefaultOtlpIngesterConfig,
      ing_MetricsListenAddress = '':9090'', ing_DryRun = False,
      ing_GracefulShutdownTimeout = 30 * second, ing_DrainDelay = 2 * second,
      ing_AllowedJobs = [], ing_DeniedJobs = [], ing_Redis = DefaultRedisCacheConfig,
      ing_CatalogSync = \<lparr>cs_Enabled = False, cs_FlushInterval = 30 * second,
                         cs_BufferSize = 10000, cs_SeenTTL = 1 * hour\<rparr>\<rparr>"

definition DefaultConfig :: ProxyConfig where
  "DefaultConfig =
     \<lparr>cfg_Upstream = \<lparr>up_URL = '''', up_IncludeQueryStats = True\<rparr>,
      cfg_Server = \<lparr>srv_InsecureListenAddress = '':9091'', srv_PushMetricsUsageTimeout = 30 * second\<rparr>,
      cfg_Ingester = DefaultIngesterConfig,
      cfg_Database =
        \<lparr>db_Provider = '''',
         db_PostgreSQL = \<lparr>pg_Addr = '''', pg_Database = '''', pg_DialTimeout = 0, pg_Password = '''',
           pg_Port = 0, pg_SSLMode = '''', pg_User = '''', pg_MaxOpenConns = 0, pg_MaxIdleConns = 0,
           pg_ConnMaxLifetime = 0, pg_ConnMaxIdleTime = 0\<rparr>,
         db_SQLite = \<lparr>sl_DatabasePath = ''''\<rparr>\<rparr>,
      cfg_Insert = \<lparr>ins_BatchSize = 0, ins_BufferSize = 0, ins_FlushInterval = 0,
        ins_GracePeriod = 0, ins_Timeout = 0\<rparr>,
      cfg_Tracing = None,
      cfg_MemoryLimit = \<lparr>ml_Enabled = False, ml_Ratio = 9 / 10, ml_RefreshInterval = minute\<rparr>,
      cfg_MetadataLimit = 0, cfg_SeriesLimit = 0,
      cfg_CORS = \<lparr>AllowedOrigins = [''*''],
        AllowedMethods = [''GET'', ''POST'', ''PUT'', ''DELETE'', ''OPTIONS''],
        AllowedHeaders = [''Content-Type'', ''Authorization'', ''X-Requested-With''],
        AllowCredentials = True, MaxAge = 300\<rparr>,
      cfg_Inventory = \<lparr>inv_Enabled = True, inv_MetadataSyncEnabled = True,
        inv_MetadataMetricsNameOnly = False, inv_SyncInterval = 10 * minute,
        inv_TimeWindow = 30 * 24 * hour, inv_RunTimeout = 300 * second,
        inv_MetadataStepTimeout = 30 * second, inv_SummaryStepTimeout = 30 * second,
        inv_JobSyncEnabled = False, inv_JobIndexLabelTimeout = 30 * second,
        inv_JobIndexPerJobTimeout = 30 * second, inv_JobIndexWorkers = 10\<rparr>,
      cfg_QueryProcessing = \<lparr>ExtractHTTPHeaders = [''user-agent'']\<rparr>,
      cfg_Retention = \<lparr>ret_Enabled = False, ret_Interval = 1 * hour, ret_RunTimeout = 5 * minute,
        ret_QueriesMaxAge = 30 * 24 * hour\<rparr>\<rparr>"

section \<open>Operations\<close>

text \<open>
  \<open>SQLiteConfig.UnmarshalYAML\<close>: the decoded node gives the value of the current key
  \<open>database_path\<close> and of the legacy key \<open>database_paths\<close>, or a decoding error.
\<close>

definition SQLiteConfig_UnmarshalYAML ::
  "SQLiteConfig \<Rightarrow> go_error + string \<times> string \<Rightarrow> go_error option \<times> SQLiteConfig" where
  "SQLiteConfig_UnmarshalYAML c decoded =
     (case decoded of
        Inl err \<Rightarrow> (Some err, c)
      | Inr (DatabasePath, LegacyDatabasePath) \<Rightarrow>
          if DatabasePath \<noteq> '''' then (None, c\<lparr>sl_DatabasePath := DatabasePath\<rparr>)
          else (None, c\<lparr>sl_DatabasePath := LegacyDatabasePath\<rparr>))"

text \<open>
  \<open>LoadConfig\<close>: reading the file and decoding it are arguments; the header names of the
  result are lower-cased.
\<close>

definition LoadConfig ::
  "go_error + string \<Rightarrow> (string \<Rightarrow> ProxyConfig \<Rightarrow> go_error option \<times> ProxyConfig) \<Rightarrow> ProxyConfig
   \<Rightarrow> go_error option \<times> ProxyConfig" where
  "LoadConfig readFile unmarshal cfg =
     (case readFile of
        Inl err \<Rightarrow> (Some (''failed to read config file: '' @ err), cfg)
      | Inr f \<Rightarrow>
          (case unmarshal f cfg of
             (Some err, cfg') \<Rightarrow> (Some (''failed to unmarshal config file: '' @ err), cfg')
           | (None, cfg') \<Rightarrow>
               (None, cfg'\<lparr>cfg_QueryProcessing :=
                  (cfg_QueryProcessing cfg')\<lparr>ExtractHTTPHeaders :=
                     map to_lower (ExtractHTTPHeaders (cfg_QueryProcessing cfg'))\<rparr>\<rparr>)))"

definition IsTracingEnabled :: "ProxyConfig option \<Rightarrow> bool" where
  "IsTracingEnabled c = (case c of None \<Rightarrow> False | Some cfg \<Rightarrow> cfg_Tracing cfg \<noteq> None)"

text \<open>The first argument is the value of the environment variable \<open>OTEL_SERVICE_NAME\<close>.\<close>

definition GetTracingServiceName :: "string \<Rightarrow> ProxyConfig option \<Rightarrow> string" where
  "GetTracingServiceName env c =
     (if env = ''''
      then (case c of
              None \<Rightarrow> ''''
            | Some cfg \<Rightarrow> (case cfg_Tracing cfg of None \<Rightarrow> '''' | Some name \<Rightarrow> name))
      else env)"

definition GetSanitizedConfig :: "ProxyConfig \<Rightarrow> ProxyConfig" where
  "GetSanitizedConfig c =
     (if db_Provider (cfg_Database c) = ''postgresql''
      then c\<lparr>cfg_Database := (cfg_Database c)\<lparr>db_PostgreSQL :=
               (db_PostgreSQL (cfg_Database c))\<lparr>pg_User := '''', pg_Password := ''''\<rparr>\<rparr>\<rparr>
      else c)"

section \<open>Facts\<close>

lemma lower_char_idem [simp]: "lower_char (lower_char c) = lower_char c"
proof (cases "of_char c \<ge> (65::nat) \<and> of_char c \<le> (90::nat)")
  case True
  then have "(of_char (char_of ((of_char c :: nat) + 32) :: char) :: nat) = of_char c + 32"
    by (simp add: of_char_of)
  with True show ?thesis by (simp add: lower_char_def)
qed (auto simp: lower_char_def)

lemma to_lower_idem [simp]: "to_lower (to_lower s) = to_lower s"
  by (simp add: to_lower_def comp_def)

lemma sanitize_idem: "GetSanitizedConfig (GetSanitizedConfig c) = GetSanitizedConfig c"
  by (simp add: GetSanitizedConfig_def)

text \<open>
  What the sanitised configuration hides and what it does not: with the PostgreSQL
  provider the database user and password are blanked and everything else is kept, but
  under any provider the Redis password of the ingester section is passed on unchanged,
  and so are the PostgreSQL credentials when another provider is selected.
\<close>

lemma GetSanitizedConfig_redaction:
  "(db_Provider (cfg_Database c) = ''postgresql'' \<longrightarrow>
      pg_Password (db_PostgreSQL (cfg_Database (GetSanitizedConfig c))) = '''' \<and>
      pg_User (db_PostgreSQL (cfg_Database (GetSanitizedConfig c))) = '''')
   \<and> (db_Provider (cfg_Database c) \<noteq> ''postgresql'' \<longrightarrow> GetSanitizedConfig c = c)
   \<and> rd_Password (ing_Redis (cfg_Ingester (GetSanitizedConfig c))) = rd_Password (ing_Redis (cfg_Ingester c))
   \<and> GetSanitizedConfig c = c\<lparr>cfg_Database := cfg_Database (GetSanitizedConfig c)\<rparr>"
  by (simp add: GetSanitizedConfig_def)

definition leaky_config :: ProxyConfig where
  "leaky_config = DefaultConfig\<lparr>
     cfg_Database := (cfg_Database DefaultConfig)\<lparr>db_Provider := ''postgresql'',
       db_PostgreSQL := (db_PostgreSQL (cfg_Database DefaultConfig))\<lparr>pg_Password := ''pgpass''\<rparr>\<rparr>,
     cfg_Ingester := (cfg_Ingester DefaultConfig)\<lparr>ing_Redis := DefaultRedisCacheConfig\<lparr>rd_Password := ''hunter2''\<rparr>\<rparr>\<rparr>"

lemma GetSanitizedConfig_redaction_witness:
  "pg_Password (db_PostgreSQL (cfg_Database (GetSanitizedConfig leaky_config))) = ''''
   \<and> rd_Password (ing_Redis (cfg_Ingester (GetSanitizedConfig leaky_config))) = ''hunter2''"
  using GetSanitizedConfig_redaction [of leaky_config]
  by (simp add: leaky_config_def)

end
