(* ===== verification/Metric_Cache.thy ===== *)
theory Metric_Cache
  imports Config
begin

text \<open>
  The metric usage cache (\<open>internal/ingester/otlp/metric_cache.go\<close>): the interface
  \<open>MetricUsageCache\<close> as a locale and its Redis implementation.

  The Redis client (rueidis) is third-party. It is the parameter \<open>exec\<close>: running one
  command in a server state gives a result and the next server state. A result is the
  pair of accessors the code calls on it, \<open>AsInt64\<close> and \<open>Error\<close>. \<open>DoMulti\<close> pipelines a
  list of commands and returns one result per command, in order. Deadlines and
  cancellation show up as error results of \<open>exec\<close>.
\<close>

section \<open>States and the Redis client\<close>

datatype MetricUsageState = StateUnknown | StateUsed | StateUnused

definition CacheValueUnused :: int where "CacheValueUnused = 0"
definition CacheValueUsed :: int where "CacheValueUsed = 1"

datatype redis_cmd =
    GET string
  | SETEX string int int \<comment> \<open>key, integer value, expiry in seconds\<close>
  | EXISTS string

record redis_result =
  AsInt64 :: "go_error + int"
  Error :: "go_error option"

type_synonym 'r redis = "'r \<Rightarrow> redis_cmd \<Rightarrow> redis_result \<times> 'r"

fun DoMulti :: "'r redis \<Rightarrow> 'r \<Rightarrow> redis_cmd list \<Rightarrow> redis_result list \<times> 'r" where
  "DoMulti exec r [] = ([], r)"
| "DoMulti exec r (c # cs) =
     (let (x, r1) = exec r c; (xs, r2) = DoMulti exec r1 cs in (x # xs, r2))"

lemma DoMulti_append:
  "DoMulti exec r (cs @ ds) =
     (let (xs, r1) = DoMulti exec r cs; (ys, r2) = DoMulti exec r1 ds in (xs @ ys, r2))"
  by (induction cs arbitrary: r) (auto simp: Let_def split: prod.splits)

lemma DoMulti_length: "length (fst (DoMulti exec r cs)) = length cs"
proof (induction cs arbitrary: r)
  case (Cons c cs)
  show ?case using Cons.IH [of "snd (exec r c)"] by (auto split: prod.splits)
qed simp

lemma snd_DoMulti_Cons: "snd (DoMulti exec r (c # cs)) = snd (DoMulti exec (snd (exec r c)) cs)"
  by (simp split: prod.splits)

lemma fst_DoMulti_Cons:
  "fst (DoMulti exec r (c # cs)) = fst (exec r c) # fst (DoMulti exec (snd (exec r c)) cs)"
  by (simp split: prod.splits)

section \<open>The Redis cache\<close>

record redisMetricUsageCache =
  mc_usedTTL :: duration
  mc_unusedTTL :: duration
  mc_usedOnly :: bool
  mc_maxBatchSize :: nat

text \<open>
  The constructor. Creating the client is third-party; \<open>clientErr\<close> is its error, if any.
  The result is the pair of Go results: cache or nil, error or nil.
\<close>

definition NewRedisMetricUsageCache ::
  "go_error option \<Rightarrow> RedisCacheConfig \<Rightarrow> redisMetricUsageCache option \<times> go_error option" where
  "NewRedisMetricUsageCache clientErr cfg =
     (if \<not> rd_Enabled cfg then (None, None)
      else if rd_Addr cfg = '''' then (None, Some ''redis addr is required when redis is enabled'')
      else (case clientErr of
              Some err \<Rightarrow> (None, Some (''failed to create redis client: '' @ err))
            | None \<Rightarrow>
                (let usedTTL = (if rd_UsedTTL cfg \<le> 0 then 1 * hour else rd_UsedTTL cfg);
                     unusedTTL = (if rd_UnusedTTL cfg \<le> 0 then 2 * minute else rd_UnusedTTL cfg);
                     maxBatchSize = (if rd_BatchSize cfg \<le> 0 then 100 else rd_BatchSize cfg)
                 in (Some \<lparr>mc_usedTTL = usedTTL, mc_unusedTTL = unusedTTL,
                           mc_usedOnly = rd_UsedOnly cfg, mc_maxBatchSize = nat maxBatchSize\<rparr>, None))))"

text \<open>What the constructor guarantees of every cache it returns; the batching loops rely on it.\<close>

definition cache_wf :: "redisMetricUsageCache \<Rightarrow> bool" where
  "cache_wf c \<longleftrightarrow> 0 < mc_usedTTL c \<and> 0 < mc_unusedTTL c \<and> 0 < mc_maxBatchSize c"

lemma NewRedisMetricUsageCache_wf:
  "NewRedisMetricUsageCache clientErr cfg = (Some c, err) \<Longrightarrow> cache_wf c \<and> err = None"
  by (auto simp: NewRedisMetricUsageCache_def cache_wf_def Let_def duration_defs
      split: if_splits option.splits)

definition cache_key :: "string \<Rightarrow> string" where
  "cache_key name = ''metric_usage:'' @ name"

lemma cache_key_inj [simp]: "cache_key a = cache_key b \<longleftrightarrow> a = b"
  by (simp add: cache_key_def)

definition decode_state :: "redisMetricUsageCache \<Rightarrow> redis_result \<Rightarrow> MetricUsageState" where
  "decode_state c res =
     (case AsInt64 res of
        Inl err \<Rightarrow> StateUnknown
      | Inr v \<Rightarrow>
          if v = CacheValueUsed then StateUsed
          else if v = CacheValueUnused then (if \<not> mc_usedOnly c then StateUnused else StateUnknown)
          else StateUnknown)"

text \<open>One batch of \<open>GetStates\<close>: a GET per name, then the results are read back in order.\<close>

definition get_batch ::
  "'r redis \<Rightarrow> redisMetricUsageCache \<Rightarrow> string list \<Rightarrow> (string, MetricUsageState) go_map \<times> 'r
   \<Rightarrow> (string, MetricUsageState) go_map \<times> 'r" where
  "get_batch exec c batch = (\<lambda>(states, r).
     let (results, r') = DoMulti exec r (map (\<lambda>name. GET (cache_key name)) batch) in
     (fold (\<lambda>(name, res) st. AList.update name (decode_state c res) st) (zip batch results) states, r'))"

definition GetStates ::
  "'r redis \<Rightarrow> redisMetricUsageCache \<Rightarrow> 'r \<Rightarrow> string list
   \<Rightarrow> (go_error + (string, MetricUsageState) go_map) \<times> 'r" where
  "GetStates exec c r names =
     (if names = [] then (Inr [], r)
      else let (states, r') = fold (get_batch exec c) (batches (mc_maxBatchSize c) names) ([], r)
           in (Inr states, r'))"

text \<open>
  \<open>int64(ttl.Seconds())\<close> truncates. The command for one entry of the map, \<open>None\<close> where the
  loop continues without a command.
\<close>

definition ttl_seconds :: "duration \<Rightarrow> int \<Rightarrow> int" where
  "ttl_seconds ttl fallback = (let s = ttl sdiv second in if s \<le> 0 then fallback else s)"

definition set_cmd :: "redisMetricUsageCache \<Rightarrow> string \<times> MetricUsageState \<Rightarrow> redis_cmd option" where
  "set_cmd c = (\<lambda>(name, state).
     case state of
       StateUsed \<Rightarrow> Some (SETEX (cache_key name) CacheValueUsed (ttl_seconds (mc_usedTTL c) 3600))
     | StateUnused \<Rightarrow>
         if mc_usedOnly c then None
         else Some (SETEX (cache_key name) CacheValueUnused (ttl_seconds (mc_unusedTTL c) 120))
     | StateUnknown \<Rightarrow> None)"

lemma set_cmd_simps [simp]:
  "set_cmd c (n, StateUnknown) = None"
  "set_cmd c (n, StateUsed) = Some (SETEX (cache_key n) CacheValueUsed (ttl_seconds (mc_usedTTL c) 3600))"
  "set_cmd c (n, StateUnused) =
     (if mc_usedOnly c then None
      else Some (SETEX (cache_key n) CacheValueUnused (ttl_seconds (mc_unusedTTL c) 120)))"
  by (simp_all add: set_cmd_def)

definition first_error :: "redis_result list \<Rightarrow> go_error option \<Rightarrow> go_error option" where
  "first_error results e0 = fold (\<lambda>res e. case e of None \<Rightarrow> Error res | Some x \<Rightarrow> Some x) results e0"

definition set_batch ::
  "'r redis \<Rightarrow> redis_cmd list \<Rightarrow> go_error option \<times> 'r \<Rightarrow> go_error option \<times> 'r" where
  "set_batch exec batch = (\<lambda>(firstErr, r).
     let (results, r') = DoMulti exec r batch in (first_error results firstErr, r'))"

definition SetStates ::
  "'r redis \<Rightarrow> redisMetricUsageCache \<Rightarrow> 'r \<Rightarrow> (string, MetricUsageState) go_map
   \<Rightarrow> go_error option \<times> 'r" where
  "SetStates exec c r states =
     (if states = [] then (None, r)
      else let cmds = List.map_filter (set_cmd c) states in
           if cmds = [] then (None, r)
           else fold (set_batch exec) (batches (mc_maxBatchSize c) cmds) (None, r))"

section \<open>Batching is invisible\<close>

lemma get_batches:
  "fold (get_batch exec c) bs (states, r) = get_batch exec c (concat bs) (states, r)"
proof (induction bs arbitrary: states r)
  case Nil
  then show ?case by (simp add: get_batch_def)
next
  case (Cons b bs)
  obtain xs r1 where 1: "DoMulti exec r (map (\<lambda>name. GET (cache_key name)) b) = (xs, r1)" by fastforce
  obtain ys r2 where 2: "DoMulti exec r1 (map (\<lambda>name. GET (cache_key name)) (concat bs)) = (ys, r2)" by fastforce
  have len: "length xs = length b"
    using DoMulti_length [of exec r "map (\<lambda>name. GET (cache_key name)) b"] 1 by simp
  show ?case
    using Cons.IH 1 2 len by (simp add: get_batch_def DoMulti_append)
qed

lemma first_error_append: "first_error (xs @ ys) e = first_error ys (first_error xs e)"
  by (simp add: first_error_def)

lemma set_batches: "fold (set_batch exec) bs (e, r) = set_batch exec (concat bs) (e, r)"
proof (induction bs arbitrary: e r)
  case Nil
  then show ?case by (simp add: set_batch_def first_error_def)
next
  case (Cons b bs)
  obtain xs r1 where 1: "DoMulti exec r b = (xs, r1)" by fastforce
  obtain ys r2 where 2: "DoMulti exec r1 (concat bs) = (ys, r2)" by fastforce
  show ?case
    using Cons.IH 1 2 by (simp add: set_batch_def DoMulti_append first_error_append)
qed

lemma GetStates_unbatched:
  "cache_wf c \<Longrightarrow> GetStates exec c r names = (case get_batch exec c names ([], r) of (st, r') \<Rightarrow> (Inr st, r'))"
  by (auto simp: GetStates_def get_batches concat_batches cache_wf_def get_batch_def)

lemma SetStates_unbatched:
  "cache_wf c \<Longrightarrow> SetStates exec c r states = set_batch exec (List.map_filter (set_cmd c) states) (None, r)"
  by (simp add: SetStates_def set_batches concat_batches cache_wf_def Let_def)
    (auto simp: set_batch_def first_error_def map_filter_simps)


section \<open>What a reading returns\<close>

lemma fold_update_range:
  "map_of (fold (\<lambda>(n, x) st. AList.update n (f x) st) ps st) n = Some s \<Longrightarrow>
     map_of st n = Some s \<or> (\<exists>x. (n, x) \<in> set ps \<and> s = f x)"
proof (induction ps arbitrary: st)
  case (Cons p ps)
  show ?case
    using Cons.IH [of "AList.update (fst p) (f (snd p)) st"] Cons.prems
    by (cases p) (auto split: if_splits)
qed simp

lemma fold_update_dom:
  "dom (map_of (fold (\<lambda>(n, x) st. AList.update n (f x) st) ps st)) = dom (map_of st) \<union> fst ` set ps"
  by (induction ps arbitrary: st) (auto simp: image_iff)

lemma GetStates_answers:
  assumes "cache_wf c" "GetStates exec c r names = (Inr st, r')" "map_of st n = Some s"
  shows "\<exists>res. (n, res) \<in> set (zip names (fst (DoMulti exec r (map (\<lambda>n. GET (cache_key n)) names))))
               \<and> s = decode_state c res"
  using assms
  by (auto simp: GetStates_unbatched get_batch_def split: prod.splits dest!: fold_update_range)

lemma GetStates_dom:
  assumes "cache_wf c"
  shows "\<exists>st r'. GetStates exec c r names = (Inr st, r') \<and> dom (map_of st) = set names"
proof -
  obtain st r' where b: "get_batch exec c names ([], r) = (st, r')" by fastforce
  have "fst ` set (zip names (fst (DoMulti exec r (map (\<lambda>n. GET (cache_key n)) names)))) = set names"
    using DoMulti_length [of exec r "map (\<lambda>n. GET (cache_key n)) names"]
    by (metis length_map map_fst_zip list.set_map)
  moreover have "st = fold (\<lambda>(n, res) st. AList.update n (decode_state c res) st)
      (zip names (fst (DoMulti exec r (map (\<lambda>n. GET (cache_key n)) names)))) []"
    using b by (auto simp: get_batch_def split: prod.splits)
  ultimately have "dom (map_of st) = set names" by (simp only: fold_update_dom) simp
  then show ?thesis using b assms by (simp add: GetStates_unbatched)
qed

lemma decode_usedOnly: "mc_usedOnly c \<Longrightarrow> decode_state c res \<noteq> StateUnused"
  by (simp add: decode_state_def split: sum.split)

text \<open>
  C24. Reading never fails and answers for every name that was asked and for no other, however
  the names are cut into batches; in used-only mode it never answers "unused".
\<close>

theorem GetStates_total:
  assumes "cache_wf c"
  shows "\<exists>st r'. GetStates exec c r names = (Inr st, r') \<and> dom (map_of st) = set names
           \<and> (mc_usedOnly c \<longrightarrow> (\<forall>n. map_of st n \<noteq> Some StateUnused))"
proof -
  obtain st r' where g: "GetStates exec c r names = (Inr st, r')" "dom (map_of st) = set names"
    using GetStates_dom [OF assms, of exec r names] by blast
  have "\<not> mc_usedOnly c" if unused: "map_of st n = Some StateUnused" for n
  proof -
    obtain res where "StateUnused = decode_state c res"
      using GetStates_answers [OF assms g(1) unused] by blast
    then show ?thesis using decode_usedOnly [of c res] by auto
  qed
  with g show ?thesis by blast
qed

section \<open>What a writing sends\<close>

lemma ttl_seconds_pos: "0 < fallback \<Longrightarrow> 0 < ttl_seconds ttl fallback"
  by (simp add: ttl_seconds_def Let_def)

lemma sdiv_pos: "0 \<le> (a::int) \<Longrightarrow> 0 < b \<Longrightarrow> a sdiv b = a div b"
  by (simp add: signed_divide_int_def sgn_if zdiv_int zero_less_mult_iff)

text \<open>
  The expiry of a cached usage state in seconds: a positive number that never exceeds the
  configured duration and misses it by less than a second, except for durations below one
  second, which are stored with the fallback of an hour instead of a second.
\<close>

lemma ttl_seconds_bounds:
  assumes "0 < ttl" "0 < fallback"
  shows "(second \<le> ttl \<longrightarrow> ttl_seconds ttl fallback * second \<le> ttl \<and>
             ttl < (ttl_seconds ttl fallback + 1) * second)
       \<and> (ttl < second \<longrightarrow> ttl_seconds ttl fallback = fallback)
       \<and> 0 < ttl_seconds ttl fallback"
proof -
  have "ttl sdiv second = ttl div second"
    using assms by (intro sdiv_pos) (simp_all add: duration_defs)
  then show ?thesis
    using assms by (auto simp: ttl_seconds_def Let_def duration_defs)
qed

lemma ttl_seconds_bounds_witness:
  "ttl_seconds (500 * millisecond) 3600 = 3600 \<and> ttl_seconds (90 * second) 3600 * second \<le> 90 * second"
  using ttl_seconds_bounds [of "500 * millisecond" 3600] ttl_seconds_bounds [of "90 * second" 3600]
  by (simp add: duration_defs)

lemma set_cmds_written:
  "SETEX k v t \<in> set (List.map_filter (set_cmd c) states) \<Longrightarrow>
     \<exists>n. k = cache_key n \<and> 0 < t \<and>
       ((v = CacheValueUsed \<and> (n, StateUsed) \<in> set states) \<or>
        (v = CacheValueUnused \<and> (n, StateUnused) \<in> set states \<and> \<not> mc_usedOnly c))"
  by (auto simp: List.map_filter_def set_cmd_def ttl_seconds_pos split: MetricUsageState.splits if_splits)

lemma set_cmds_only_sets:
  "cmd \<in> set (List.map_filter (set_cmd c) states) \<Longrightarrow> \<exists>k v t. cmd = SETEX k v t"
  by (auto simp: List.map_filter_def set_cmd_def split: MetricUsageState.splits if_splits)

section \<open>Writing and reading back\<close>

text \<open>
  A healthy server with a view of its contents: SET with a positive expiry succeeds and is
  visible, GET answers what is stored and changes nothing.
\<close>

definition redis_healthy :: "'r redis \<Rightarrow> ('r \<Rightarrow> string \<Rightarrow> int option) \<Rightarrow> bool" where
  "redis_healthy exec view \<longleftrightarrow>
     (\<forall>r k v t. 0 < t \<longrightarrow> Error (fst (exec r (SETEX k v t))) = None \<and>
                view (snd (exec r (SETEX k v t))) = (view r)(k \<mapsto> v)) \<and>
     (\<forall>r k. view (snd (exec r (GET k))) = view r \<and>
            (case view r k of Some v \<Rightarrow> AsInt64 (fst (exec r (GET k))) = Inr v
             | None \<Rightarrow> \<exists>e. AsInt64 (fst (exec r (GET k))) = Inl e))"

definition decode_value :: "redisMetricUsageCache \<Rightarrow> int option \<Rightarrow> MetricUsageState" where
  "decode_value c v =
     (case v of
        None \<Rightarrow> StateUnknown
      | Some v \<Rightarrow> if v = CacheValueUsed then StateUsed
                  else if v = CacheValueUnused \<and> \<not> mc_usedOnly c then StateUnused
                  else StateUnknown)"

lemma healthy_get:
  assumes "redis_healthy exec view"
  shows "decode_state c (fst (exec r (GET k))) = decode_value c (view r k)"
proof -
  have "case view r k of Some v \<Rightarrow> AsInt64 (fst (exec r (GET k))) = Inr v
        | None \<Rightarrow> \<exists>e. AsInt64 (fst (exec r (GET k))) = Inl e"
    using assms by (simp add: redis_healthy_def)
  then show ?thesis
    by (cases "view r k") (auto simp: decode_state_def decode_value_def)
qed

lemma healthy_view_get: "redis_healthy exec view \<Longrightarrow> view (snd (exec r (GET k))) = view r"
  by (simp add: redis_healthy_def)

lemma healthy_reads:
  assumes "redis_healthy exec view"
  shows "map (decode_state c) (fst (DoMulti exec r (map (\<lambda>n. GET (cache_key n)) names))) =
           map (\<lambda>n. decode_value c (view r (cache_key n))) names"
proof (induction names arbitrary: r)
  case (Cons n ns)
  have "map (decode_state c) (fst (DoMulti exec (snd (exec r (GET (cache_key n)))) (map (\<lambda>n. GET (cache_key n)) ns)))
      = map (\<lambda>n. decode_value c (view r (cache_key n))) ns"
    using Cons.IH [of "snd (exec r (GET (cache_key n)))"] healthy_view_get [OF assms] by simp
  then show ?case
    using healthy_get [OF assms, of c r "cache_key n"]
    by (simp add: fst_DoMulti_Cons del: DoMulti.simps)
qed simp

lemma healthy_GetStates:
  assumes "redis_healthy exec view" "cache_wf c" "GetStates exec c r names = (Inr st, r')"
    and "n \<in> set names"
  shows "map_of st n = Some (decode_value c (view r (cache_key n)))"
proof -
  let ?rs = "fst (DoMulti exec r (map (\<lambda>n. GET (cache_key n)) names))"
  obtain s where s: "map_of st n = Some s"
    using GetStates_dom [OF assms(2), of exec r names] assms(3,4) by auto
  then obtain res where "(n, res) \<in> set (zip names ?rs)" "s = decode_state c res"
    using GetStates_answers [OF assms(2,3)] by blast
  then obtain i where "i < length names" "names ! i = n" "i < length ?rs" "s = map (decode_state c) ?rs ! i"
    by (auto simp: set_zip)
  with s show ?thesis by (simp add: healthy_reads [OF assms(1)] del: length_map)
qed

lemma healthy_writes:
  assumes "redis_healthy exec view" "map_wf states"
  shows "view (snd (DoMulti exec r (List.map_filter (set_cmd c) states))) (cache_key n) =
           (case map_of states n of
              Some StateUsed \<Rightarrow> Some CacheValueUsed
            | Some StateUnused \<Rightarrow> if mc_usedOnly c then view r (cache_key n) else Some CacheValueUnused
            | _ \<Rightarrow> view r (cache_key n))"
  using assms(2)
proof (induction states arbitrary: r)
  case Nil
  then show ?case by (simp add: map_filter_simps)
next
  case (Cons p states)
  obtain m s where p: "p = (m, s)" by fastforce
  have wf: "map_wf states" and fresh: "map_of states m = None"
    using Cons.prems by (auto simp: map_wf_def p map_of_eq_None_iff)
  have step: "view (snd (exec r (SETEX k v (ttl_seconds t f)))) = (view r)(k \<mapsto> v)"
    if "0 < f" for r k v t f
    using assms(1) ttl_seconds_pos [OF that, of t] by (simp add: redis_healthy_def)
  show ?case
    using Cons.IH [OF wf] fresh
    by (cases s) (auto simp: p map_filter_simps step snd_DoMulti_Cons simp del: DoMulti.simps
        split: option.splits MetricUsageState.splits)
qed

definition states_written :: "redisMetricUsageCache \<Rightarrow> (string, MetricUsageState) go_map \<Rightarrow> string \<Rightarrow> bool" where
  "states_written c states n \<longleftrightarrow>
     map_of states n = Some StateUsed \<or> (map_of states n = Some StateUnused \<and> \<not> mc_usedOnly c)"

text \<open>
  C16. Round trip through a healthy Redis: after \<open>SetStates\<close>, \<open>GetStates\<close> gives back every
  state that was written, in any batch size, for every name asked.
\<close>

theorem SetStates_GetStates:
  assumes "redis_healthy exec view" "cache_wf c" "map_wf states"
    and "SetStates exec c r states = (err, r1)" "GetStates exec c r1 names = (Inr st, r2)"
    and "n \<in> set names" "states_written c states n"
  shows "map_of st n = map_of states n"
proof -
  have "r1 = snd (DoMulti exec r (List.map_filter (set_cmd c) states))"
    using assms(2,4) by (auto simp: SetStates_unbatched set_batch_def split: prod.splits)
  then have "view r1 (cache_key n) =
      (if map_of states n = Some StateUsed then Some CacheValueUsed else Some CacheValueUnused)"
    using healthy_writes [OF assms(1,3), of r c n] assms(7)
    by (auto simp: states_written_def)
  then show ?thesis
    using healthy_GetStates [OF assms(1,2,5,6)] assms(7)
    by (auto simp: states_written_def decode_value_def CacheValueUsed_def CacheValueUnused_def)
qed

text \<open>A key-value store without expiry, to show that the hypotheses can hold.\<close>

fun kv_exec :: "(string \<Rightarrow> int option) redis" where
  "kv_exec m (GET k) =
     (\<lparr>AsInt64 = (case m k of Some v \<Rightarrow> Inr v | None \<Rightarrow> Inl ''redis nil message''), Error = None\<rparr>, m)"
| "kv_exec m (SETEX k v t) = (\<lparr>AsInt64 = Inl ''not an integer'', Error = None\<rparr>, m(k \<mapsto> v))"
| "kv_exec m (EXISTS k) =
     (\<lparr>AsInt64 = Inr (if m k = None then 0 else 1), Error = None\<rparr>, m)"

lemma kv_exec_healthy: "redis_healthy kv_exec (\<lambda>m. m)"
  by (auto simp: redis_healthy_def split: option.splits)

definition sample_cache :: redisMetricUsageCache where
  "sample_cache = \<lparr>mc_usedTTL = hour, mc_unusedTTL = 2 * minute, mc_usedOnly = False, mc_maxBatchSize = 1\<rparr>"

lemma sample_cache_wf: "cache_wf sample_cache"
  by (simp add: cache_wf_def sample_cache_def duration_defs)

theorem GetStates_total_witness:
  "\<exists>st r'. GetStates kv_exec (sample_cache\<lparr>mc_usedOnly := True\<rparr>) [cache_key ''up'' \<mapsto> 0] [''up'', ''down''] = (Inr st, r')
     \<and> dom (map_of st) = {''up'', ''down''} \<and> (\<forall>n. map_of st n \<noteq> Some StateUnused)"
proof -
  have wf: "cache_wf (sample_cache\<lparr>mc_usedOnly := True\<rparr>)"
    using sample_cache_wf by (simp add: cache_wf_def)
  show ?thesis
    using GetStates_total [OF wf, of kv_exec "[cache_key ''up'' \<mapsto> 0]" "[''up'', ''down'']"] by simp
qed

theorem SetStates_GetStates_witness:
  "\<exists>r1 st r2. SetStates kv_exec sample_cache Map.empty [(''up'', StateUsed), (''idle'', StateUnused)] = (None, r1)
     \<and> GetStates kv_exec sample_cache r1 [''idle'', ''up''] = (Inr st, r2)
     \<and> map_of st ''idle'' = Some StateUnused"
proof -
  let ?states = "[(''up'', StateUsed), (''idle'', StateUnused)]"
  obtain r1 where s: "SetStates kv_exec sample_cache Map.empty ?states = (None, r1)"
    by (simp add: SetStates_unbatched [OF sample_cache_wf] set_batch_def map_filter_simps first_error_def)
      (simp add: sample_cache_def)
  obtain st r2 where g: "GetStates kv_exec sample_cache r1 [''idle'', ''up''] = (Inr st, r2)"
    using GetStates_dom [OF sample_cache_wf, of kv_exec r1 "[''idle'', ''up'']"] by blast
  have "map_of st ''idle'' = map_of ?states ''idle''"
    using SetStates_GetStates [OF kv_exec_healthy sample_cache_wf _ s g, of "''idle''"]
    by (simp add: map_wf_def states_written_def sample_cache_def)
  with s g show ?thesis by auto
qed


section \<open>The interface the ingester relies on\<close>

text \<open>
  \<open>MetricUsageCache\<close> as a contract. \<open>truth n s\<close> says that \<open>s\<close> is a right usage state of the
  metric \<open>n\<close>; a good cache holds right entries only. Reading keeps a cache good and answers
  right states (or "unknown"); writing right states keeps it good, whether or not the write
  is reported to have failed.
\<close>

locale usage_cache =
  fixes get_states :: "'c \<Rightarrow> string list \<Rightarrow> (go_error + (string, MetricUsageState) go_map) \<times> 'c"
    and set_states :: "'c \<Rightarrow> (string, MetricUsageState) go_map \<Rightarrow> go_error option \<times> 'c"
    and good :: "'c \<Rightarrow> bool"
    and truth :: "string \<Rightarrow> MetricUsageState \<Rightarrow> bool"
  assumes get_good: "good c \<Longrightarrow> good (snd (get_states c ns))"
    and get_truth: "good c \<Longrightarrow> fst (get_states c ns) = Inr m \<Longrightarrow> map_of m n = Some s
          \<Longrightarrow> s \<noteq> StateUnknown \<Longrightarrow> truth n s"
    and set_good: "good c \<Longrightarrow> (\<And>n s. (n, s) \<in> set ws \<Longrightarrow> s \<noteq> StateUnknown \<Longrightarrow> truth n s)
          \<Longrightarrow> good (snd (set_states c ws))"

text \<open>
  What is relied on of the Redis server: as long as only entries satisfying \<open>Q\<close> are written
  (by this process or another one), a GET answers entries satisfying \<open>Q\<close> or fails. \<open>I\<close> is the
  server-side invariant "every stored entry satisfies \<open>Q\<close>".
\<close>

definition redis_keeps :: "'r redis \<Rightarrow> ('r \<Rightarrow> bool) \<Rightarrow> (string \<Rightarrow> int \<Rightarrow> bool) \<Rightarrow> bool" where
  "redis_keeps exec I Q \<longleftrightarrow>
     (\<forall>r k. I r \<longrightarrow> I (snd (exec r (GET k))) \<and> I (snd (exec r (EXISTS k)))) \<and>
     (\<forall>r k v. I r \<longrightarrow> AsInt64 (fst (exec r (GET k))) = Inr v \<longrightarrow> Q k v) \<and>
     (\<forall>r k v t. I r \<longrightarrow> Q k v \<longrightarrow> I (snd (exec r (SETEX k v t))))"

definition usage_entry :: "(string \<Rightarrow> MetricUsageState \<Rightarrow> bool) \<Rightarrow> string \<Rightarrow> int \<Rightarrow> bool" where
  "usage_entry truth k v \<longleftrightarrow>
     (\<forall>n. k = cache_key n \<longrightarrow> (v = CacheValueUsed \<longrightarrow> truth n StateUsed) \<and>
                             (v = CacheValueUnused \<longrightarrow> truth n StateUnused))"

definition redis_good ::
  "'r redis \<Rightarrow> redisMetricUsageCache \<Rightarrow> ('r \<Rightarrow> bool) \<Rightarrow> (string \<Rightarrow> MetricUsageState \<Rightarrow> bool) \<Rightarrow> 'r \<Rightarrow> bool" where
  "redis_good exec c I truth r \<longleftrightarrow> cache_wf c \<and> redis_keeps exec I (usage_entry truth) \<and> I r"

lemma redis_keepsD:
  assumes "redis_keeps exec I Q" "I r" "\<And>k v t. cmd = SETEX k v t \<Longrightarrow> Q k v"
  shows "I (snd (exec r cmd))"
  using assms by (cases cmd) (simp_all add: redis_keeps_def)

lemma redis_keeps_get:
  "redis_keeps exec I Q \<Longrightarrow> I r \<Longrightarrow> AsInt64 (fst (exec r (GET k))) = Inr v \<Longrightarrow> Q k v"
  by (simp add: redis_keeps_def)

lemma keeps_DoMulti:
  assumes "redis_keeps exec I Q" "I r" "\<And>k v t. SETEX k v t \<in> set cmds \<Longrightarrow> Q k v"
  shows "I (snd (DoMulti exec r cmds))"
  using assms(2,3)
proof (induction cmds arbitrary: r)
  case (Cons cmd cmds)
  have "I (snd (exec r cmd))"
    by (rule redis_keepsD [OF assms(1) Cons.prems(1)]) (auto intro: Cons.prems(2))
  then have "I (snd (DoMulti exec (snd (exec r cmd)) cmds))"
    by (rule Cons.IH) (auto intro: Cons.prems(2))
  then show ?case by (simp add: snd_DoMulti_Cons del: DoMulti.simps)
qed simp

lemma keeps_reads:
  assumes "redis_keeps exec I Q" "I r"
    and "(n, res) \<in> set (zip names (fst (DoMulti exec r (map (\<lambda>n. GET (cache_key n)) names))))"
    and "AsInt64 res = Inr v"
  shows "Q (cache_key n) v"
  using assms(2-)
proof (induction names arbitrary: r)
  case (Cons m names)
  have "I (snd (exec r (GET (cache_key m))))"
    by (rule redis_keepsD [OF assms(1) Cons.prems(1)]) simp
  moreover note redis_keeps_get [OF assms(1) Cons.prems(1), of "cache_key m" v]
  ultimately show ?case
    using Cons.IH Cons.prems by (auto simp: fst_DoMulti_Cons simp del: DoMulti.simps)
qed simp

lemma decode_state_entry:
  assumes "s = decode_state c res" "s \<noteq> StateUnknown"
    and "\<And>v. AsInt64 res = Inr v \<Longrightarrow> usage_entry truth (cache_key n) v"
  shows "truth n s"
  using assms by (auto simp: decode_state_def usage_entry_def split: sum.splits if_splits)

interpretation redis: usage_cache "GetStates exec c" "SetStates exec c" "redis_good exec c I truth" truth
  for exec c I truth
proof
  fix r ns
  assume g: "redis_good exec c I truth r"
  have "I (snd (DoMulti exec r (map (\<lambda>n. GET (cache_key n)) ns)))"
    by (rule keeps_DoMulti [where Q = "usage_entry truth"]) (use g in \<open>auto simp: redis_good_def\<close>)
  with g show "redis_good exec c I truth (snd (GetStates exec c r ns))"
    by (auto simp: redis_good_def GetStates_unbatched get_batch_def split: prod.splits)
next
  fix r ns m n s
  assume g: "redis_good exec c I truth r" and m: "fst (GetStates exec c r ns) = Inr m"
    and s: "map_of m n = Some s" "s \<noteq> StateUnknown"
  have wf: "cache_wf c" using g by (simp add: redis_good_def)
  have "GetStates exec c r ns = (Inr m, snd (GetStates exec c r ns))"
    using m by (metis prod.collapse)
  from GetStates_answers [OF wf this s(1)] obtain res where
    res: "(n, res) \<in> set (zip ns (fst (DoMulti exec r (map (\<lambda>n. GET (cache_key n)) ns))))"
    "s = decode_state c res" by blast
  show "truth n s"
  proof (rule decode_state_entry [OF res(2) s(2)])
    show "usage_entry truth (cache_key n) v" if "AsInt64 res = Inr v" for v
      by (rule keeps_reads [OF _ _ res(1) that, where I = I]) (use g in \<open>auto simp: redis_good_def\<close>)
  qed
next
  fix r ws
  assume g: "redis_good exec c I truth r"
    and ws: "\<And>n s. (n, s) \<in> set ws \<Longrightarrow> s \<noteq> StateUnknown \<Longrightarrow> truth n s"
  have "I (snd (DoMulti exec r (List.map_filter (set_cmd c) ws)))"
  proof (rule keeps_DoMulti)
    show "usage_entry truth k v" if "SETEX k v t \<in> set (List.map_filter (set_cmd c) ws)" for k v t
      using set_cmds_written [OF that] ws
      by (auto simp: usage_entry_def CacheValueUsed_def CacheValueUnused_def)
  qed (use g in \<open>auto simp: redis_good_def\<close>)
  with g show "redis_good exec c I truth (snd (SetStates exec c r ws))"
    by (auto simp: redis_good_def SetStates_unbatched set_batch_def split: prod.splits)
qed

end
