(* ===== verification/Db_Common.thy ===== *)
theory Db_Common
  imports Db_Model
begin

text \<open>
  The helpers both database providers share: \<open>internal/db/errors.go\<close>, the placeholder and
  interval builders of \<open>internal/db/common.go\<close> and the parameter validation of
  \<open>internal/db/provider.go\<close>, which keeps request text out of the SQL that is built by
  concatenation.
\<close>

section \<open>Errors\<close>

text \<open>
  The sentinel errors, the errors of the driver, \<open>fmt.Errorf\<close> with \<open>%w\<close> (a text before the
  wrapped error) and \<open>fmt.Errorf\<close> without it (a text only).
\<close>

datatype db_error =
    ErrNoResults | ErrInvalidScan | ErrInvalidQuery | ErrDatabaseConnection | ErrQueryExecution
  | DriverError string
  | Wrapped string db_error
  | Flat string

fun error_text :: "db_error \<Rightarrow> string" where
  "error_text ErrNoResults = ''no results found''"
| "error_text ErrInvalidScan = ''invalid row scan''"
| "error_text ErrInvalidQuery = ''invalid query''"
| "error_text ErrDatabaseConnection = ''database connection error''"
| "error_text ErrQueryExecution = ''query execution failed''"
| "error_text (DriverError s) = s"
| "error_text (Wrapped s e) = s @ error_text e"
| "error_text (Flat s) = s"

definition ErrorWithOperation :: "db_error option \<Rightarrow> string \<Rightarrow> db_error" where
  "ErrorWithOperation err operation =
     (case err of None \<Rightarrow> Flat (operation @ '': <nil>'') | Some e \<Rightarrow> Wrapped (operation @ '': '') e)"

text \<open>With details and a nil error \<open>%w\<close> prints \<open>%!w(<nil>)\<close>.\<close>

definition QueryError :: "db_error option \<Rightarrow> string \<Rightarrow> string \<Rightarrow> db_error" where
  "QueryError err operation details =
     (if details \<noteq> [] then
        (case err of None \<Rightarrow> Flat (operation @ '': '' @ details @ '': %!w(<nil>)'')
         | Some e \<Rightarrow> Wrapped (operation @ '': '' @ details @ '': '') e)
      else ErrorWithOperation err operation)"

definition ConnectionError :: "db_error \<Rightarrow> string \<Rightarrow> string \<Rightarrow> db_error" where
  "ConnectionError err dbType details =
     (let baseErr = Wrapped (''failed to connect to '' @ dbType @ '' database: '') err in
      if details \<noteq> [] then Flat (error_text baseErr @ '': '' @ details) else baseErr)"

definition SchemaError :: "db_error \<Rightarrow> string \<Rightarrow> string \<Rightarrow> db_error" where
  "SchemaError err operation table =
     Wrapped (''schema '' @ operation @ '' failed for table '' @ table @ '': '') err"

definition ValidationError :: "string \<Rightarrow> string \<Rightarrow> db_error" where
  "ValidationError what reason = Flat (''validation error for '' @ what @ '': '' @ reason)"

fun IsNoResults :: "db_error option \<Rightarrow> bool" where
  "IsNoResults None = False"
| "IsNoResults (Some (Wrapped s e)) = IsNoResults (Some e)"
| "IsNoResults (Some e) = (e = ErrNoResults)"

lemma IsNoResults_QueryError: "IsNoResults (Some (QueryError err operation details)) = IsNoResults err"
  by (simp add: QueryError_def ErrorWithOperation_def split: option.split)

lemma IsNoResults_SchemaError: "IsNoResults (Some (SchemaError err operation table)) = IsNoResults (Some err)"
  by (simp add: SchemaError_def)

lemma IsNoResults_ConnectionError:
  "IsNoResults (Some (ConnectionError err dbType details)) = (details = [] \<and> IsNoResults (Some err))"
  by (simp add: ConnectionError_def Let_def)

section \<open>Insert placeholders\<close>

text \<open>
  The two loops of \<open>createSQLiteInsertPlaceholders\<close>: the text of one row, then the rows.
\<close>

fun sqlite_columns :: "nat \<Rightarrow> nat \<Rightarrow> nat \<Rightarrow> string" where
  "sqlite_columns columns i 0 = []"
| "sqlite_columns columns i (Suc n) =
     (if Suc i = columns then ''?)'' else ''?, '') @ sqlite_columns columns (Suc i) n"

definition singleRowPlaceholders :: "nat \<Rightarrow> string" where
  "singleRowPlaceholders columns = ''(?, '' @ sqlite_columns columns 1 (columns - 1)"

fun repeat_rows :: "(nat \<Rightarrow> string) \<Rightarrow> nat \<Rightarrow> nat \<Rightarrow> nat \<Rightarrow> string" where
  "repeat_rows row rows i 0 = []"
| "repeat_rows row rows i (Suc n) =
     row i @ (if Suc i < rows then '', '' else []) @ repeat_rows row rows (Suc i) n"

definition createSQLiteInsertPlaceholders :: "nat \<Rightarrow> nat \<Rightarrow> string" where
  "createSQLiteInsertPlaceholders columns rows = repeat_rows (\<lambda>_. singleRowPlaceholders columns) rows 0 rows"

definition createPostgreSQLInsertPlaceholders :: "nat \<Rightarrow> nat \<Rightarrow> string" where
  "createPostgreSQLInsertPlaceholders columns rows =
     repeat_rows (\<lambda>i. ''('' @ repeat_rows (\<lambda>j. CHR ''$'' # itoa (i * columns + j + 1)) columns 0 columns @ '')'')
       rows 0 rows"

record QueryBuildingContext =
  Dialect :: string

definition NewPostgreSQLQueryContext :: QueryBuildingContext where
  "NewPostgreSQLQueryContext = \<lparr>Dialect = ''postgresql''\<rparr>"

definition NewSQLiteQueryContext :: QueryBuildingContext where
  "NewSQLiteQueryContext = \<lparr>Dialect = ''sqlite''\<rparr>"

definition PlaceholderFn :: "QueryBuildingContext \<Rightarrow> nat \<Rightarrow> string" where
  "PlaceholderFn qc i = (if Dialect qc = ''postgresql'' then CHR ''$'' # itoa i else ''?'')"

definition CreateInsertPlaceholders :: "QueryBuildingContext \<Rightarrow> nat \<Rightarrow> nat \<Rightarrow> string" where
  "CreateInsertPlaceholders qc columns rows =
     (if Dialect qc = ''postgresql'' then createPostgreSQLInsertPlaceholders columns rows
      else createSQLiteInsertPlaceholders columns rows)"

text \<open>
  What a statement needs: the numbers \<open>1 .. rows*columns\<close>, cut into rows of \<open>columns\<close>, each
  printed by the dialect's placeholder function.
\<close>

definition placeholder_rows :: "(nat \<Rightarrow> string) \<Rightarrow> nat \<Rightarrow> nat \<Rightarrow> string" where
  "placeholder_rows f columns rows =
     join '', '' (map (\<lambda>r. ''('' @ join '', '' (map f r) @ '')'') (batches columns [1..<Suc (rows * columns)]))"

lemma upt_shift: "map (\<lambda>j. a + j) [i..<k] = [a + i..<a + k]"
  by (induction k) auto

lemma batches_upt:
  "0 < c \<Longrightarrow> batches c [a..<a + r * c] = map (\<lambda>i. map (\<lambda>j. a + (i * c + j)) [0..<c]) [0..<r]"
proof (induction r arbitrary: a)
  case (Suc r)
  have row: "map (\<lambda>j. a + j) [0..<c] = [a..<a + c]" using upt_shift [of a 0 c] by simp
  have "[a..<a + Suc r * c] \<noteq> []" using Suc.prems by auto
  then have "batches c [a..<a + Suc r * c]
      = take c [a..<a + Suc r * c] # batches c (drop c [a..<a + Suc r * c])"
    by (rule batches_step [OF Suc.prems])
  also have "take c [a..<a + Suc r * c] = [a..<a + c]" by (rule take_upt) simp
  also have "drop c [a..<a + Suc r * c] = [a + c..<a + c + r * c]" by (simp add: drop_upt ac_simps)
  finally have "batches c [a..<a + Suc r * c] = [a..<a + c] # batches c [a + c..<a + c + r * c]" .
  moreover have "map (\<lambda>i. map (\<lambda>j. a + (i * c + j)) [0..<c]) [0..<Suc r]
      = map (\<lambda>j. a + j) [0..<c] # map (\<lambda>i. map (\<lambda>j. a + c + (i * c + j)) [0..<c]) [0..<r]"
    by (subst upt_conv_Cons, simp, subst map_Suc_upt [symmetric])
      (simp add: comp_def add.assoc del: map_Suc_upt)
  ultimately show ?case by (simp only: Suc.IH [OF Suc.prems] row)
qed simp

lemma placeholder_rows_eq:
  assumes "0 < columns"
  shows "placeholder_rows f columns rows =
     join '', '' (map (\<lambda>i. ''('' @ join '', '' (map (\<lambda>j. f (i * columns + j + 1)) [0..<columns]) @ '')'') [0..<rows])"
proof -
  have "batches columns [1..<1 + rows * columns]
      = map (\<lambda>i. map (\<lambda>j. 1 + (i * columns + j)) [0..<columns]) [0..<rows]"
    by (rule batches_upt [OF assms])
  then show ?thesis
    by (simp add: placeholder_rows_def comp_def del: upt_Suc)
qed

lemma repeat_rows_join:
  "i + n = rows \<Longrightarrow> repeat_rows row rows i n = join '', '' (map row [i..<rows])"
proof (induction n arbitrary: i)
  case (Suc n)
  have up: "[i..<rows] = i # [Suc i..<rows]" using Suc.prems by (simp add: upt_conv_Cons)
  show ?case
  proof (cases n)
    case 0
    with Suc.prems show ?thesis by (simp add: up)
  next
    case (Suc m)
    then have "[Suc i..<rows] = Suc i # [Suc (Suc i)..<rows]"
      using \<open>i + Suc n = rows\<close> by (simp add: upt_conv_Cons)
    with Suc.IH [of "Suc i"] \<open>i + Suc n = rows\<close> Suc show ?thesis by (simp add: up)
  qed
qed simp

lemma createPostgreSQLInsertPlaceholders_eq:
  "0 < columns \<Longrightarrow> createPostgreSQLInsertPlaceholders columns rows
     = placeholder_rows (\<lambda>k. CHR ''$'' # itoa k) columns rows"
  by (simp add: createPostgreSQLInsertPlaceholders_def placeholder_rows_eq repeat_rows_join)

lemma sqlite_columns_join:
  "0 < n \<Longrightarrow> i + n = columns \<Longrightarrow>
     sqlite_columns columns i n = join '', '' (replicate n ''?'') @ '')''"
proof (induction n arbitrary: i)
  case (Suc n)
  then show ?case by (cases n) auto
qed simp

lemma singleRowPlaceholders_eq:
  "2 \<le> columns \<Longrightarrow> singleRowPlaceholders columns = ''('' @ join '', '' (replicate columns ''?'') @ '')''"
proof -
  assume "2 \<le> columns"
  then obtain n where n: "columns = Suc (Suc n)" by (auto simp: numeral_2_eq_2 Suc_le_eq dest!: gr0_implies_Suc less_imp_Suc_add)
  then show ?thesis
    using sqlite_columns_join [of "Suc n" 1 columns] by (simp add: singleRowPlaceholders_def)
qed

lemma map_const_upt: "map (\<lambda>_. c) [i..<j] = replicate (j - i) c"
  by (simp add: map_replicate_const)

lemma createSQLiteInsertPlaceholders_eq:
  "2 \<le> columns \<Longrightarrow> createSQLiteInsertPlaceholders columns rows = placeholder_rows (\<lambda>_. ''?'') columns rows"
  by (simp add: createSQLiteInsertPlaceholders_def placeholder_rows_eq repeat_rows_join
      singleRowPlaceholders_eq map_const_upt)

text \<open>
  Insert statements have exactly the placeholders the values need: for PostgreSQL the rows
  of \<open>$1 .. $(rows*columns)\<close> in order, for SQLite (two columns or more, as both callers have)
  the same rows of question marks.
\<close>

lemma CreateInsertPlaceholders_correct:
  assumes "2 \<le> columns"
  shows "CreateInsertPlaceholders NewPostgreSQLQueryContext columns rows
           = placeholder_rows (PlaceholderFn NewPostgreSQLQueryContext) columns rows
       \<and> CreateInsertPlaceholders NewSQLiteQueryContext columns rows
           = placeholder_rows (PlaceholderFn NewSQLiteQueryContext) columns rows"
  using assms createPostgreSQLInsertPlaceholders_eq [of columns rows]
    createSQLiteInsertPlaceholders_eq [of columns rows]
  by (simp add: CreateInsertPlaceholders_def NewPostgreSQLQueryContext_def NewSQLiteQueryContext_def
      PlaceholderFn_def [abs_def])

text \<open>With a single column the SQLite text is never closed.\<close>

lemma createSQLiteInsertPlaceholders_one_column:
  "createSQLiteInsertPlaceholders 1 1 = ''(?, ''"
  by (simp add: createSQLiteInsertPlaceholders_def singleRowPlaceholders_def)

lemma CreateInsertPlaceholders_correct_witness:
  "CreateInsertPlaceholders NewPostgreSQLQueryContext 2 2 = ''($1, $2), ($3, $4)''"
proof -
  have "CreateInsertPlaceholders NewPostgreSQLQueryContext 2 2
      = placeholder_rows (PlaceholderFn NewPostgreSQLQueryContext) 2 2"
    using CreateInsertPlaceholders_correct [of 2 2] by simp
  also have "\<dots> = ''($1, $2), ($3, $4)''" by code_simp
  finally show ?thesis .
qed

section \<open>Time buckets\<close>

definition GetInterval :: "time \<Rightarrow> time \<Rightarrow> string \<Rightarrow> string" where
  "GetInterval from to dialect =
     (let duration = time_sub to from;
          interval = (if duration \<le> 2 * hour then ''1 minute''
                      else if duration \<le> 6 * hour then ''5 minutes''
                      else if duration \<le> 24 * hour then ''15 minutes''
                      else if duration \<le> 7 * 24 * hour then ''1 hour''
                      else if duration \<le> 30 * 24 * hour then ''6 hours''
                      else if duration \<le> 90 * 24 * hour then ''1 day''
                      else ''1 day'')
      in if dialect = ''postgresql'' then interval
         else if interval = ''1 minute'' then ''+1 minutes''
         else if interval = ''5 minutes'' then ''+5 minutes''
         else if interval = ''15 minutes'' then ''+15 minutes''
         else if interval = ''1 hour'' then ''+1 hours''
         else if interval = ''6 hours'' then ''+6 hours''
         else if interval = ''1 day'' then ''+1 days''
         else ''+1 days'')"

text \<open>The length of the interval each of these texts denotes.\<close>

definition interval_length :: "string \<Rightarrow> duration option" where
  "interval_length s = map_of
     [(''1 minute'', minute), (''5 minutes'', 5 * minute), (''15 minutes'', 15 * minute),
      (''1 hour'', hour), (''6 hours'', 6 * hour), (''1 day'', 24 * hour),
      (''+1 minutes'', minute), (''+5 minutes'', 5 * minute), (''+15 minutes'', 15 * minute),
      (''+1 hours'', hour), (''+6 hours'', 6 * hour), (''+1 days'', 24 * hour)] s"

definition PrepareTimeRange :: "TimeRange \<Rightarrow> string \<Rightarrow> string \<times> string" where
  "PrepareTimeRange tr dialect =
     (if dialect = ''postgresql'' then TimeRange_Format format_RFC3339 tr
      else TimeRange_Format format_SQLite tr)"

text \<open>
  Time buckets keep charts small: both dialects pick intervals of the same length, and a
  window of up to 168 days is cut into at most 168 of them.
\<close>

lemma GetInterval_buckets:
  assumes "0 \<le> to - from" "to - from \<le> 168 * 24 * hour"
  shows "\<exists>l. interval_length (GetInterval from to ''postgresql'') = Some l
           \<and> interval_length (GetInterval from to ''sqlite'') = Some l
           \<and> 0 < l \<and> to - from \<le> 168 * l"
proof -
  have "time_sub to from = to - from"
    using assms by (intro time_sub_exact) (simp add: maxDuration_def duration_defs)
  with assms show ?thesis
    by (simp add: GetInterval_def Let_def interval_length_def duration_defs)
qed

lemma GetInterval_buckets_witness:
  "\<exists>l. interval_length (GetInterval 0 (7 * 24 * hour) ''postgresql'') = Some l
     \<and> interval_length (GetInterval 0 (7 * 24 * hour) ''sqlite'') = Some l
     \<and> 0 < l \<and> 7 * 24 * hour - 0 \<le> 168 * l"
  by (rule GetInterval_buckets) (simp_all add: duration_defs)

section \<open>Validation of sorting and paging parameters\<close>

text \<open>
  \<open>strings.TrimSpace\<close>: the UTF-8 encodings of the characters Go counts as white space.
\<close>

definition spaces :: "string list" where
  "spaces = map (map char_of)
     ([[9], [10], [11], [12], [13], [32], [0xC2, 0x85], [0xC2, 0xA0], [0xE1, 0x9A, 0x80],
       [0xE2, 0x80, 0xA8], [0xE2, 0x80, 0xA9], [0xE2, 0x80, 0xAF], [0xE2, 0x81, 0x9F], [0xE3, 0x80, 0x80]]
      @ map (\<lambda>k. [0xE2, 0x80, 0x80 + k]) [0..<11 :: nat])"

fun trim_front :: "string list \<Rightarrow> nat \<Rightarrow> string \<Rightarrow> string" where
  "trim_front ws 0 s = s"
| "trim_front ws (Suc n) s =
     (case find (HasPrefix s) ws of None \<Rightarrow> s | Some w \<Rightarrow> trim_front ws n (drop (length w) s))"

definition TrimSpace :: "string \<Rightarrow> string" where
  "TrimSpace s =
     (let l = trim_front spaces (length s) s
      in rev (trim_front (map rev spaces) (length l) (rev l)))"

text \<open>A text of printable ASCII characters has nothing to trim.\<close>

lemma spaces_not_printable:
  "\<forall>w \<in> set spaces. w \<noteq> [] \<and> \<not> (33 \<le> (of_char (hd w) :: nat) \<and> of_char (hd w) < (128 :: nat))
     \<and> \<not> (33 \<le> (of_char (last w) :: nat) \<and> of_char (last w) < (128 :: nat))"
  by (simp add: spaces_def upt_rec)

lemma trim_front_id: "\<forall>w \<in> set ws. \<not> HasPrefix s w \<Longrightarrow> trim_front ws n s = s"
  by (cases n) (auto split: option.split dest: find_SomeD)

lemma TrimSpace_printable:
  assumes "\<forall>c \<in> set s. 33 \<le> (of_char c :: nat) \<and> of_char c < (128 :: nat)"
  shows "TrimSpace s = s"
proof -
  have "\<not> HasPrefix s w" if "w \<in> set spaces" for w
  proof
    assume "HasPrefix s w"
    then have "\<exists>t. s = w @ t" by (simp add: HasPrefix_iff)
    then have "w = [] \<or> hd w \<in> set s" by (cases w) auto
    with that spaces_not_printable assms show False by blast
  qed
  moreover have "\<not> HasPrefix (rev s) (rev w)" if "w \<in> set spaces" for w
  proof
    assume "HasPrefix (rev s) (rev w)"
    then have "\<exists>t. s = t @ w" by (metis HasPrefix_iff rev_append rev_rev_ident)
    then have "w = [] \<or> last w \<in> set s" by (cases w rule: rev_cases) auto
    with that spaces_not_printable assms show False by blast
  qed
  ultimately show ?thesis by (simp add: TrimSpace_def trim_front_id)
qed
definition MaxPageSize :: int where "MaxPageSize = 100"

definition ValidSortDirections :: "string list" where
  "ValidSortDirections = [''asc'', ''desc'']"

definition ValidSeriesMetadataSortFields :: "string list" where
  "ValidSeriesMetadataSortFields =
     [''name'', ''type'', ''help'', ''unit'', ''alertCount'', ''recordCount'', ''dashboardCount'', ''queryCount'']"

definition SeriesMetadataSortAliases :: "(string, string) go_map" where
  "SeriesMetadataSortAliases =
     [(''name'', ''c.name''), (''type'', ''c.type''), (''help'', ''c.help''), (''unit'', ''c.unit''),
      (''alertCount'', ''COALESCE(s.alert_count, 0)''), (''recordCount'', ''COALESCE(s.record_count, 0)''),
      (''dashboardCount'', ''COALESCE(s.dashboard_count, 0)''), (''queryCount'', ''COALESCE(s.query_count, 0)'')]"

text \<open>The pointers it assigns through are the result: (sort field, direction).\<close>

definition ValidateSortField :: "string \<Rightarrow> string \<Rightarrow> string list \<Rightarrow> string \<Rightarrow> string \<times> string" where
  "ValidateSortField sortBy0 sortOrder0 validSortFields defaultSort =
     (let sortBy = (if sortBy0 = [] then defaultSort else sortBy0);
          sortOrder = (if sortOrder0 = [] then ''desc'' else sortOrder0);
          normalizedOrder = to_lower (TrimSpace sortOrder);
          order = (if normalizedOrder \<notin> set ValidSortDirections then ''desc'' else normalizedOrder);
          normalizedSortBy = TrimSpace sortBy;
          field = (if normalizedSortBy \<notin> set validSortFields then defaultSort else normalizedSortBy)
      in (field, order))"

definition ValidatePagination :: "int \<Rightarrow> int \<Rightarrow> int \<Rightarrow> int \<times> int" where
  "ValidatePagination page pageSize defaultPageSize =
     (let p = (if page \<le> 0 then 1 else page);
          s = (if pageSize \<le> 0 then defaultPageSize else pageSize)
      in (p, if s > MaxPageSize then MaxPageSize else s))"

text \<open>\<open>strings.ToUpper\<close> on the directions \<open>asc\<close> and \<open>desc\<close>.\<close>

definition upper_char :: "char \<Rightarrow> char" where
  "upper_char c = (if of_char c \<ge> (97::nat) \<and> of_char c \<le> (122::nat)
                   then char_of ((of_char c :: nat) - 32) else c)"

definition sort_expression :: "(string, string) go_map option \<Rightarrow> string \<Rightarrow> string \<Rightarrow> string" where
  "sort_expression sortAliases tableAlias sortBy =
     (let e = (case sortAliases of
                 None \<Rightarrow> []
               | Some m \<Rightarrow> (case map_of m sortBy of None \<Rightarrow> [] | Some expr \<Rightarrow> expr))
      in if e = [] \<and> tableAlias \<noteq> [] then tableAlias @ ''.'' @ sortBy
         else if e = [] then sortBy
         else e)"

definition BuildSafeOrderByClause ::
  "string \<Rightarrow> string \<Rightarrow> string \<Rightarrow> string list \<Rightarrow> string \<Rightarrow> (string, string) go_map option \<Rightarrow> string" where
  "BuildSafeOrderByClause sortBy0 sortOrder0 tableAlias validSortFields defaultSort sortAliases =
     (let (sortBy, sortOrder) = ValidateSortField sortBy0 sortOrder0 validSortFields defaultSort
      in '' ORDER BY '' @ sort_expression sortAliases tableAlias sortBy @ '' '' @
         map upper_char sortOrder @ '' NULLS LAST'')"

definition BuildSafeQueryWithOrderBy ::
  "string \<Rightarrow> string \<Rightarrow> string \<Rightarrow> string \<Rightarrow> string \<Rightarrow> string list \<Rightarrow> string
   \<Rightarrow> (string, string) go_map option \<Rightarrow> string" where
  "BuildSafeQueryWithOrderBy baseQuery tableAlias limitClause sortBy0 sortOrder0 validSortFields defaultSort sortAliases =
     (let (sortBy, sortOrder) = ValidateSortField sortBy0 sortOrder0 validSortFields defaultSort
      in baseQuery @ '' ORDER BY '' @ sort_expression sortAliases tableAlias sortBy @ '' '' @
         map upper_char sortOrder @ '' NULLS LAST'' @ limitClause)"

text \<open>\<open>math.Ceil\<close> of the quotient; the quotient is exact for the sizes a table can have.\<close>

definition CalculateTotalPages :: "int \<Rightarrow> int \<Rightarrow> int" where
  "CalculateTotalPages totalCount pageSize = \<lceil>real_of_int totalCount / real_of_int pageSize\<rceil>"

definition NormalizeSeriesMetadataUsage :: "string \<Rightarrow> string" where
  "NormalizeSeriesMetadataUsage usage =
     (let normalized = to_lower (TrimSpace usage) in
      if normalized \<in> set [''all'', ''used'', ''unused''] then normalized else ''all'')"

lemma upper_directions: "map upper_char ''asc'' = ''ASC''" "map upper_char ''desc'' = ''DESC''"
  by code_simp+

lemma ValidateSortField_range:
  "ValidateSortField sb so vf dflt = (f, d) \<Longrightarrow> f \<in> insert dflt (set vf) \<and> d \<in> set ValidSortDirections"
  by (auto simp: ValidateSortField_def Let_def ValidSortDirections_def split: if_splits)

text \<open>
  C25. Sorting parameters of a request never reach the SQL text: whatever the client sends,
  the query built for series metadata is the caller's own text with one of the sixteen
  whitelisted column and direction pairs.
\<close>

theorem BuildSafeQueryWithOrderBy_whitelist:
  "\<exists>e \<in> set (map snd SeriesMetadataSortAliases). \<exists>d \<in> {''ASC'', ''DESC''}.
     BuildSafeQueryWithOrderBy base alias limit sortBy sortOrder ValidSeriesMetadataSortFields ''queryCount''
       (Some SeriesMetadataSortAliases) = base @ '' ORDER BY '' @ e @ '' '' @ d @ '' NULLS LAST'' @ limit"
proof -
  obtain f d where v: "ValidateSortField sortBy sortOrder ValidSeriesMetadataSortFields ''queryCount'' = (f, d)"
    by fastforce
  have f: "f \<in> set ValidSeriesMetadataSortFields" and d: "d \<in> set ValidSortDirections"
    using ValidateSortField_range [OF v] by (auto simp: ValidSeriesMetadataSortFields_def)
  from f have e: "sort_expression (Some SeriesMetadataSortAliases) alias f \<in> set (map snd SeriesMetadataSortAliases)"
    by (auto simp: ValidSeriesMetadataSortFields_def SeriesMetadataSortAliases_def sort_expression_def)
  from d have d': "map upper_char d \<in> {''ASC'', ''DESC''}"
    using upper_directions by (auto simp: ValidSortDirections_def)
  show ?thesis
    by (rule bexI [OF bexI [OF _ d'] e]) (simp add: BuildSafeQueryWithOrderBy_def v)
qed

text \<open>
  Paging is bounded: for any page and page size of a request and a sensible default the
  validated page is at least one, the page size lies between one and \<open>MaxPageSize\<close>, and the
  reported number of pages is exactly what is needed to show all rows.
\<close>

lemma ValidatePagination_bounds:
  assumes "0 < dflt" "0 \<le> cnt" "ValidatePagination page psize dflt = (p, s)"
  shows "1 \<le> p \<and> 1 \<le> s \<and> s \<le> MaxPageSize
       \<and> cnt \<le> CalculateTotalPages cnt s * s \<and> (CalculateTotalPages cnt s - 1) * s < cnt"
proof -
  have b: "1 \<le> p" "1 \<le> s" "s \<le> MaxPageSize"
    using assms by (auto simp: ValidatePagination_def Let_def MaxPageSize_def split: if_splits)
  define n where "n = CalculateTotalPages cnt s"
  have n: "real_of_int cnt / real_of_int s \<le> n" "n - 1 < real_of_int cnt / real_of_int s"
    unfolding n_def CalculateTotalPages_def by linarith+
  have "real_of_int cnt \<le> real_of_int (n * s)"
    using n(1) b(2) by (simp add: field_simps)
  moreover have "real_of_int ((n - 1) * s) < real_of_int cnt"
    using n(2) b(2) by (simp add: field_simps)
  ultimately show ?thesis
    using b by (simp add: n_def del: of_int_mult of_int_diff)
qed

lemma ValidatePagination_bounds_witness:
  "1 \<le> (1::int) \<and> 1 \<le> (100::int) \<and> 100 \<le> MaxPageSize
   \<and> 205 \<le> CalculateTotalPages 205 100 * 100 \<and> (CalculateTotalPages 205 100 - 1) * 100 < 205"
  by (rule ValidatePagination_bounds [where page = 0 and psize = 5000 and dflt = 10])
    (simp_all add: ValidatePagination_def MaxPageSize_def)

lemma NormalizeSeriesMetadataUsage_range:
  "NormalizeSeriesMetadataUsage u \<in> {''all'', ''used'', ''unused''}"
  by (simp add: NormalizeSeriesMetadataUsage_def Let_def)

section \<open>Denied SQL\<close>

text \<open>
  \<open>strings.ToUpper\<close> before the search for ASCII keywords: besides the ASCII letters, the two
  characters whose upper case is an ASCII letter (dotless i, long s).
\<close>

fun to_upper :: "string \<Rightarrow> string" where
  "to_upper [] = []"
| "to_upper [c] = [upper_char c]"
| "to_upper (c # d # s) =
     (if of_char c = (0xC4 :: nat) \<and> of_char d = (0xB1 :: nat) then CHR ''I'' # to_upper s
      else if of_char c = (0xC5 :: nat) \<and> of_char d = (0xBF :: nat) then CHR ''S'' # to_upper s
      else upper_char c # to_upper (d # s))"

definition deniedKeywords :: "string list" where
  "deniedKeywords = [''DROP'', ''DELETE'', ''UPDATE'', ''INSERT'', ''ALTER'', ''TRUNCATE'', ''EXEC'', ''--'', '';'']"

definition containsDeniedKeyword :: "string \<Rightarrow> bool" where
  "containsDeniedKeyword query \<longleftrightarrow> list_ex (contains (to_upper query)) deniedKeywords"

definition containsDeniedPattern :: "string \<Rightarrow> bool" where
  "containsDeniedPattern query \<longleftrightarrow> list_ex (contains query) [''--'', '';'']"

definition ValidateSQLQuery :: "string \<Rightarrow> db_error option" where
  "ValidateSQLQuery query =
     (if containsDeniedKeyword query then Some (ValidationError ''SQL'' ''query contains disallowed keyword'')
      else if containsDeniedPattern query then Some (ValidationError ''SQL'' ''query contains dangerous pattern'')
      else None)"

lemma ValidateSQLQuery_ok:
  "ValidateSQLQuery q = None \<longleftrightarrow>
     (\<forall>k \<in> set deniedKeywords. \<not> contains (to_upper q) k) \<and> \<not> contains q ''--'' \<and> \<not> contains q '';''"
  by (auto simp: ValidateSQLQuery_def containsDeniedKeyword_def containsDeniedPattern_def list_ex_iff)

section \<open>Single rows\<close>

text \<open>
  \<open>ScanSingleRow\<close> and \<open>ProcessRows\<close> over what the driver delivers: the rows with the result
  of scanning each, and the error of the iteration.
\<close>

definition ScanSingleRow :: "(db_error + 'a) list \<Rightarrow> db_error option \<Rightarrow> db_error + 'a" where
  "ScanSingleRow rows iterErr =
     (case rows of
        [] \<Rightarrow> Inl ErrNoResults
      | Inl err # _ \<Rightarrow> Inl (ErrorWithOperation (Some err) ''scanning row'')
      | Inr v # _ \<Rightarrow>
          (case iterErr of Some err \<Rightarrow> Inl (ErrorWithOperation (Some err) ''row iteration'') | None \<Rightarrow> Inr v))"

fun ProcessRows :: "(db_error + 'a) list \<Rightarrow> db_error option \<Rightarrow> db_error + 'a list" where
  "ProcessRows [] iterErr =
     (case iterErr of Some err \<Rightarrow> Inl (ErrorWithOperation (Some err) ''row iteration'') | None \<Rightarrow> Inr [])"
| "ProcessRows (Inl err # rows) iterErr = Inl (ErrorWithOperation (Some err) ''scanning row'')"
| "ProcessRows (Inr v # rows) iterErr =
     (case ProcessRows rows iterErr of Inl err \<Rightarrow> Inl err | Inr vs \<Rightarrow> Inr (v # vs))"

lemma ProcessRows_all: "ProcessRows rows iterErr = Inr vs \<Longrightarrow> rows = map Inr vs \<and> iterErr = None"
  by (induction rows iterErr arbitrary: vs rule: ProcessRows.induct) (auto split: option.splits sum.splits)

end
