(* ===== verification/Sqlite_Store.thy ===== *)
theory Sqlite_Store
  imports Db_Common
begin

text \<open>
  The SQLite provider (\<open>internal/db/sqlite.go\<close>) over the tables its migrations create.
  Each operation is the statement it sends, read as a function on the tables: an upsert is
  an update of the row with the conflict key, a query is a filter over a table.

  A table with a primary key or a unique index is an association list on that key; the
  list order is the order in which a scan returns the rows. The database driver may fail
  at every call: the failures are arguments (\<open>db_faults\<close>). A statement list inside a
  transaction that fails leaves the tables as they were.

  SQLite has no time type: the driver stores a bound \<open>time.Time\<close> as a text and every
  comparison in a statement is a comparison of texts. That text is an argument, \<open>ct\<close>;
  \<open>driver_text\<close> states what the driver documents about it.
\<close>

section \<open>Tables\<close>

record catalog_row =
  cr_type :: string
  cr_help :: string
  cr_unit :: string
  cr_first_seen_at :: time
  cr_last_synced_at :: time

record summary_row =
  su_alert_count :: int
  su_record_count :: int
  su_dashboard_count :: int
  su_query_count :: int
  su_last_queried_at :: "time option"
  su_updated_at :: time

record rule_row =
  rr_created_at :: time
  rr_first_seen_at :: time
  rr_last_seen_at :: time

record dashboard_row =
  dr_name :: string
  dr_url :: string
  dr_created_at :: time
  dr_first_seen_at :: time
  dr_last_seen_at :: time

text \<open>The unique keys: (serie, kind, group, name, expression, sorted labels) and (id, serie).\<close>

type_synonym rule_key = "string \<times> string \<times> string \<times> string \<times> string \<times> string list"
type_synonym dash_key = "string \<times> string"

record tables =
  t_queries :: "Query list"
  t_rules :: "(rule_key, rule_row) go_map"
  t_dashboards :: "(dash_key, dashboard_row) go_map"
  t_catalog :: "(string, catalog_row) go_map"
  t_summary :: "(string, summary_row) go_map"
  t_jobs :: "(string \<times> string, time) go_map"

definition empty_tables :: tables where
  "empty_tables = \<lparr>t_queries = [], t_rules = [], t_dashboards = [], t_catalog = [], t_summary = [], t_jobs = []\<rparr>"

text \<open>
  The constraints of the schema: primary keys and unique indexes, and the foreign key from
  the summary to the catalog.
\<close>

definition tables_wf :: "tables \<Rightarrow> bool" where
  "tables_wf t \<longleftrightarrow> map_wf (t_rules t) \<and> map_wf (t_dashboards t) \<and> map_wf (t_catalog t) \<and>
     map_wf (t_summary t) \<and> map_wf (t_jobs t) \<and> fst ` set (t_summary t) \<subseteq> fst ` set (t_catalog t)"

section \<open>Transactions\<close>

record db_faults =
  f_begin :: "go_error option"
  f_prepare :: "go_error option"
  f_exec :: "nat \<Rightarrow> go_error option"
  f_commit :: "go_error option"

definition no_faults :: db_faults where
  "no_faults = \<lparr>f_begin = None, f_prepare = None, f_exec = (\<lambda>_. None), f_commit = None\<rparr>"

text \<open>The statements of one transaction, one per item; the \<open>i\<close>-th may fail.\<close>

fun exec_stmts :: "(nat \<Rightarrow> go_error option) \<Rightarrow> nat \<Rightarrow> ('a \<Rightarrow> 't \<Rightarrow> 't) \<Rightarrow> 'a list \<Rightarrow> 't \<Rightarrow> go_error + 't" where
  "exec_stmts flt i stmt [] t = Inr t"
| "exec_stmts flt i stmt (x # xs) t =
     (case flt i of Some err \<Rightarrow> Inl err | None \<Rightarrow> exec_stmts flt (Suc i) stmt xs (stmt x t))"

text \<open>Begin, prepare, one execution per item, commit; the labels are those of the wrapped errors.\<close>

definition run_tx ::
  "string \<times> string \<times> string \<times> string \<Rightarrow> db_faults \<Rightarrow> ('a \<Rightarrow> 't \<Rightarrow> 't) \<Rightarrow> 'a list \<Rightarrow> 't \<Rightarrow> go_error option \<times> 't" where
  "run_tx labels fl stmt items t =
     (case labels of (b, p, e, c) \<Rightarrow>
      (case f_begin fl of
         Some err \<Rightarrow> (Some (b @ err), t)
       | None \<Rightarrow>
           (case f_prepare fl of
              Some err \<Rightarrow> (Some (p @ err), t)
            | None \<Rightarrow>
                (case exec_stmts (f_exec fl) 0 stmt items t of
                   Inl err \<Rightarrow> (Some (e @ err), t)
                 | Inr t' \<Rightarrow>
                     (case f_commit fl of
                        Some err \<Rightarrow> (Some (c @ err), t)
                      | None \<Rightarrow> (None, t'))))))"

lemma exec_stmts_fold: "exec_stmts flt i stmt xs t = Inr t' \<Longrightarrow> t' = fold stmt xs t"
  by (induction xs arbitrary: i t) (auto split: option.splits)

lemma run_tx_result: "run_tx l fl stmt items t = (err, t') \<Longrightarrow> t' = (if err = None then fold stmt items t else t)"
  by (auto simp: run_tx_def split: prod.splits option.splits sum.splits dest: exec_stmts_fold)

lemma exec_stmts_no_fault: "exec_stmts (\<lambda>_. None) i stmt xs t = Inr (fold stmt xs t)"
  by (induction xs arbitrary: i t) auto

lemma run_tx_no_faults [simp]: "run_tx l no_faults stmt items t = (None, fold stmt items t)"
  by (simp add: run_tx_def no_faults_def exec_stmts_no_fault split: prod.split)

section \<open>The metrics catalog and the job index\<close>

definition upsert_catalog :: "time \<Rightarrow> MetricCatalogItem \<Rightarrow> tables \<Rightarrow> tables" where
  "upsert_catalog now it t =
     (let row = (case map_of (t_catalog t) (ci_Name it) of
                   None \<Rightarrow> \<lparr>cr_type = ci_Type it, cr_help = ci_Help it, cr_unit = ci_Unit it,
                            cr_first_seen_at = now, cr_last_synced_at = now\<rparr>
                 | Some old \<Rightarrow> old\<lparr>cr_type := ci_Type it, cr_help := ci_Help it, cr_unit := ci_Unit it,
                                  cr_last_synced_at := now\<rparr>)
      in t\<lparr>t_catalog := AList.update (ci_Name it) row (t_catalog t)\<rparr>)"

definition UpsertMetricsCatalog ::
  "db_faults \<Rightarrow> time \<Rightarrow> tables \<Rightarrow> MetricCatalogItem list \<Rightarrow> go_error option \<times> tables" where
  "UpsertMetricsCatalog fl now t items =
     (if items = [] then (None, t)
      else run_tx (''begin tx: '', ''prepare: '', ''exec: '', ''commit: '') fl (upsert_catalog now) items t)"

definition upsert_job :: "time \<Rightarrow> MetricJobIndexItem \<Rightarrow> tables \<Rightarrow> tables" where
  "upsert_job now it t = t\<lparr>t_jobs := AList.update (ji_Name it, ji_Job it) now (t_jobs t)\<rparr>"

definition UpsertMetricsJobIndex ::
  "db_faults \<Rightarrow> time \<Rightarrow> tables \<Rightarrow> MetricJobIndexItem list \<Rightarrow> go_error option \<times> tables" where
  "UpsertMetricsJobIndex fl now t items =
     (if items = [] then (None, t)
      else run_tx (''begin tx: '', ''prepare: '', ''exec: '', ''commit: '') fl (upsert_job now) items t)"

text \<open>\<open>SELECT DISTINCT job ... ORDER BY job\<close>; the argument is the failure of the query, if any.\<close>

definition ListJobs :: "go_error option \<Rightarrow> tables \<Rightarrow> go_error + string list" where
  "ListJobs qerr t =
     (case qerr of
        Some err \<Rightarrow> Inl err
      | None \<Rightarrow> Inr (sort (remdups (map (snd \<circ> fst) (t_jobs t)))))"

section \<open>Reading metadata by name\<close>

definition metadata_row :: "tables \<Rightarrow> string \<times> catalog_row \<Rightarrow> MetricMetadata" where
  "metadata_row t = (\<lambda>(name, c).
     (case map_of (t_summary t) name of
        None \<Rightarrow> \<lparr>mm_Name = name, mm_Type = cr_type c, mm_Help = cr_help c, mm_Unit = cr_unit c,
                 mm_AlertCount = 0, mm_RecordCount = 0, mm_DashboardCount = 0, mm_QueryCount = 0,
                 mm_LastQueriedAt = []\<rparr>
      | Some s \<Rightarrow> \<lparr>mm_Name = name, mm_Type = cr_type c, mm_Help = cr_help c, mm_Unit = cr_unit c,
                 mm_AlertCount = su_alert_count s, mm_RecordCount = su_record_count s,
                 mm_DashboardCount = su_dashboard_count s, mm_QueryCount = su_query_count s,
                 mm_LastQueriedAt = (case su_last_queried_at s of None \<Rightarrow> [] | Some l \<Rightarrow> format_RFC3339 l)\<rparr>))"

definition GetSeriesMetadataByNames ::
  "go_error option \<Rightarrow> tables \<Rightarrow> string list \<Rightarrow> string \<Rightarrow> go_error + MetricMetadata list" where
  "GetSeriesMetadataByNames qerr t names job =
     (if names = [] then Inr []
      else (case qerr of
              Some err \<Rightarrow> Inl (''failed to query series metadata by names: '' @ err)
            | None \<Rightarrow>
                Inr (map (metadata_row t)
                  (filter (\<lambda>(n, c). n \<in> set names \<and>
                            (job = '''' \<or> (n, job) \<in> fst ` set (t_jobs t))) (t_catalog t)))))"

section \<open>Recorded queries\<close>

text \<open>
  One INSERT statement with all rows. The duration column holds whole milliseconds
  (\<open>Duration.Milliseconds\<close> truncates); the row keeps the truncated duration.
\<close>

definition stored_query :: "Query \<Rightarrow> Query" where
  "stored_query q = q\<lparr>q_Duration := (q_Duration q sdiv millisecond) * millisecond\<rparr>"

definition Insert :: "go_error option \<Rightarrow> tables \<Rightarrow> Query list \<Rightarrow> go_error option \<times> tables" where
  "Insert ferr t queries =
     (if queries = [] then (None, t)
      else (case ferr of
              Some err \<Rightarrow> (Some (''executing insert query: '' @ err), t)
            | None \<Rightarrow> (None, t\<lparr>t_queries := t_queries t @ map stored_query queries\<rparr>)))"

text \<open>\<open>DELETE FROM queries WHERE ts < ?\<close> with the cutoff printed in RFC 3339.\<close>

definition DeleteQueriesBefore ::
  "(time \<Rightarrow> string) \<Rightarrow> go_error option \<Rightarrow> tables \<Rightarrow> time \<Rightarrow> (go_error + int) \<times> tables" where
  "DeleteQueriesBefore ct ferr t cutoff =
     (case ferr of
        Some err \<Rightarrow> (Inl (''delete old queries: '' @ err), t)
      | None \<Rightarrow>
          (let cutoffStr = format_RFC3339 cutoff;
               keep = filter (\<lambda>q. \<not> ct (q_TS q) < cutoffStr) (t_queries t) in
           (Inr (int (length (t_queries t)) - int (length keep)), t\<lparr>t_queries := keep\<rparr>)))"

text \<open>
  The default write format of the driver is \<open>2006-01-02 15:04:05.999999999 -0700 MST\<close>: for a
  time in UTC, the second in the first layout followed by the fraction and the zone.
\<close>

definition driver_text :: "(time \<Rightarrow> string) \<Rightarrow> bool" where
  "driver_text ct \<longleftrightarrow> (\<forall>t. \<exists>rest. rest \<noteq> [] \<and> ct t = format_SQLite t @ rest)"

section \<open>Rules and dashboards\<close>

definition rule_key_of :: "RulesUsage \<Rightarrow> rule_key" where
  "rule_key_of r = (ru_Serie r, ru_Kind r, ru_GroupName r, ru_Name r, ru_Expression r, sort (ru_Labels r))"

text \<open>The in-memory de-duplication: the first rule of each key survives, with sorted labels.\<close>

fun dedup_rules :: "rule_key list \<Rightarrow> RulesUsage list \<Rightarrow> RulesUsage list" where
  "dedup_rules seen [] = []"
| "dedup_rules seen (r # rs) =
     (let k = rule_key_of r in
      if k \<in> set seen then dedup_rules seen rs
      else r\<lparr>ru_Labels := sort (ru_Labels r)\<rparr> # dedup_rules (k # seen) rs)"

definition upsert_rule :: "time \<Rightarrow> RulesUsage \<Rightarrow> tables \<Rightarrow> tables" where
  "upsert_rule now r t =
     (let k = rule_key_of r;
          row = (case map_of (t_rules t) k of
                   None \<Rightarrow> \<lparr>rr_created_at = now, rr_first_seen_at = now, rr_last_seen_at = now\<rparr>
                 | Some old \<Rightarrow> old\<lparr>rr_last_seen_at := now\<rparr>)
      in t\<lparr>t_rules := AList.update k row (t_rules t)\<rparr>)"

definition InsertRulesUsage ::
  "db_faults \<Rightarrow> time \<Rightarrow> tables \<Rightarrow> RulesUsage list \<Rightarrow> go_error option \<times> tables" where
  "InsertRulesUsage fl now t rulesUsage =
     (let normalized = dedup_rules [] rulesUsage in
      if normalized = [] then (None, t)
      else run_tx (''failed to begin transaction: '', ''failed to prepare statement: '',
                   ''failed to execute upsert: '', ''failed to commit transaction: '')
             fl (upsert_rule now) normalized t)"

text \<open>
  De-duplication by (id, serie): the last dashboard of each key survives. The map is ranged
  over to build the statements; here in the order of first insertion.
\<close>

definition dedup_dashboards :: "DashboardUsage list \<Rightarrow> (dash_key, DashboardUsage) go_map" where
  "dedup_dashboards ds = fold (\<lambda>d m. AList.update (du_Id d, du_Serie d) d m) ds []"

definition upsert_dashboard :: "time \<Rightarrow> DashboardUsage \<Rightarrow> tables \<Rightarrow> tables" where
  "upsert_dashboard now d t =
     (let k = (du_Id d, du_Serie d);
          row = (case map_of (t_dashboards t) k of
                   None \<Rightarrow> \<lparr>dr_name = du_Name d, dr_url = du_URL d, dr_created_at = now,
                            dr_first_seen_at = now, dr_last_seen_at = now\<rparr>
                 | Some old \<Rightarrow> old\<lparr>dr_last_seen_at := now, dr_name := du_Name d, dr_url := du_URL d\<rparr>)
      in t\<lparr>t_dashboards := AList.update k row (t_dashboards t)\<rparr>)"

definition InsertDashboardUsage ::
  "db_faults \<Rightarrow> time \<Rightarrow> tables \<Rightarrow> DashboardUsage list \<Rightarrow> go_error option \<times> tables" where
  "InsertDashboardUsage fl now t dashboardUsage =
     (let dedup = dedup_dashboards dashboardUsage in
      if dedup = [] then (None, t)
      else run_tx (''failed to begin transaction: '', ''failed to prepare statement: '',
                   ''failed to execute upsert: '', ''failed to commit transaction: '')
             fl (upsert_dashboard now) (map snd dedup) t)"

section \<open>The usage summary\<close>

definition in_presence :: "(time \<Rightarrow> string) \<Rightarrow> TimeRange \<Rightarrow> time \<Rightarrow> time \<Rightarrow> bool" where
  "in_presence ct tr first_seen last_seen \<longleftrightarrow>
     (case PrepareTimeRange tr ''sqlite'' of (from, to) \<Rightarrow> ct first_seen \<le> to \<and> ct last_seen \<ge> from)"

definition rule_count :: "(time \<Rightarrow> string) \<Rightarrow> tables \<Rightarrow> TimeRange \<Rightarrow> string \<Rightarrow> string \<Rightarrow> int" where
  "rule_count ct t tr kind name =
     int (length (filter (\<lambda>((serie, k, _), row). serie = name \<and> k = kind \<and>
            in_presence ct tr (rr_first_seen_at row) (rr_last_seen_at row)) (t_rules t)))"

definition dashboard_count :: "(time \<Rightarrow> string) \<Rightarrow> tables \<Rightarrow> TimeRange \<Rightarrow> string \<Rightarrow> int" where
  "dashboard_count ct t tr name =
     int (length (remdups (map (fst \<circ> fst) (filter (\<lambda>((ident, serie), row). serie = name \<and>
            in_presence ct tr (dr_first_seen_at row) (dr_last_seen_at row)) (t_dashboards t)))))"

text \<open>\<open>json_extract(labelMatchers, '$[0].__name__')\<close>: the metric name of the first selector.\<close>

definition first_metric_name :: "Query \<Rightarrow> string option" where
  "first_metric_name q = (case q_LabelMatchers q of [] \<Rightarrow> None | m # _ \<Rightarrow> map_of m ''__name__'')"

definition in_window :: "(time \<Rightarrow> string) \<Rightarrow> TimeRange \<Rightarrow> time \<Rightarrow> bool" where
  "in_window ct tr ts \<longleftrightarrow>
     (case PrepareTimeRange tr ''sqlite'' of (from, to) \<Rightarrow> from \<le> ct ts \<and> ct ts \<le> to)"

definition queries_of :: "(time \<Rightarrow> string) \<Rightarrow> tables \<Rightarrow> TimeRange \<Rightarrow> string \<Rightarrow> Query list" where
  "queries_of ct t tr name =
     filter (\<lambda>q. first_metric_name q = Some name \<and> in_window ct tr (q_TS q)) (t_queries t)"

text \<open>\<open>MAX(ts)\<close>: the time with the largest text.\<close>

fun max_text :: "(time \<Rightarrow> string) \<Rightarrow> time list \<Rightarrow> time option" where
  "max_text ct [] = None"
| "max_text ct (x # xs) =
     (case max_text ct xs of None \<Rightarrow> Some x | Some y \<Rightarrow> Some (if ct x < ct y then y else x))"

definition summary_of :: "(time \<Rightarrow> string) \<Rightarrow> tables \<Rightarrow> TimeRange \<Rightarrow> time \<Rightarrow> string \<Rightarrow> summary_row" where
  "summary_of ct t tr now name =
     \<lparr>su_alert_count = rule_count ct t tr RuleUsageKindAlert name,
      su_record_count = rule_count ct t tr RuleUsageKindRecord name,
      su_dashboard_count = dashboard_count ct t tr name,
      su_query_count = int (length (queries_of ct t tr name)),
      su_last_queried_at = max_text ct (map q_TS (queries_of ct t tr name)),
      su_updated_at = now\<rparr>"

definition RefreshMetricsUsageSummary ::
  "(time \<Rightarrow> string) \<Rightarrow> go_error option \<Rightarrow> time \<Rightarrow> tables \<Rightarrow> TimeRange \<Rightarrow> go_error option \<times> tables" where
  "RefreshMetricsUsageSummary ct ferr now t tr =
     (case ferr of
        Some err \<Rightarrow> (Some (''refresh summary: '' @ err), t)
      | None \<Rightarrow>
          (None, t\<lparr>t_summary := fold (\<lambda>(name, _) s. AList.update name (summary_of ct t tr now name) s)
                                  (t_catalog t) (t_summary t)\<rparr>))"

section \<open>The schema constraints are kept\<close>

text \<open>The write operations of the provider as steps on the tables, failures included.\<close>

inductive db_step :: "(time \<Rightarrow> string) \<Rightarrow> tables \<Rightarrow> tables \<Rightarrow> bool" for ct where
  step_catalog: "UpsertMetricsCatalog fl now t items = (err, t') \<Longrightarrow> db_step ct t t'"
| step_jobs: "UpsertMetricsJobIndex fl now t jobs = (err, t') \<Longrightarrow> db_step ct t t'"
| step_insert: "Insert ferr t queries = (err, t') \<Longrightarrow> db_step ct t t'"
| step_rules: "InsertRulesUsage fl now t rules = (err, t') \<Longrightarrow> db_step ct t t'"
| step_dashboards: "InsertDashboardUsage fl now t dashboards = (err, t') \<Longrightarrow> db_step ct t t'"
| step_refresh: "RefreshMetricsUsageSummary ct ferr now t tr = (err, t') \<Longrightarrow> db_step ct t t'"
| step_delete: "DeleteQueriesBefore ct ferr t cutoff = (res, t') \<Longrightarrow> db_step ct t t'"

inductive_cases db_stepE: "db_step ct t t'"

lemma run_tx_preserves:
  assumes "run_tx l fl stmt items t = (err, t')" "P t" "\<And>x s. P s \<Longrightarrow> P (stmt x s)"
  shows "P t'"
proof -
  have "P (fold stmt items t)" using assms(2,3) by (induction items arbitrary: t) auto
  with assms(1,2) run_tx_result show ?thesis by fastforce
qed

lemma tables_wf_queries [simp]: "tables_wf (t\<lparr>t_queries := qs\<rparr>) = tables_wf t"
  by (simp add: tables_wf_def)

lemma upsert_catalog_wf [inv_intros]: "tables_wf t \<Longrightarrow> tables_wf (upsert_catalog now it t)"
  by (auto simp: tables_wf_def upsert_catalog_def Let_def dom_update)

lemma upsert_job_wf [inv_intros]: "tables_wf t \<Longrightarrow> tables_wf (upsert_job now it t)"
  by (auto simp: tables_wf_def upsert_job_def)

lemma upsert_rule_wf [inv_intros]: "tables_wf t \<Longrightarrow> tables_wf (upsert_rule now r t)"
  by (auto simp: tables_wf_def upsert_rule_def Let_def)

lemma upsert_dashboard_wf [inv_intros]: "tables_wf t \<Longrightarrow> tables_wf (upsert_dashboard now d t)"
  by (auto simp: tables_wf_def upsert_dashboard_def Let_def)

lemma fold_update_keys:
  "fst ` set (fold (\<lambda>(k, _) s. AList.update k (f k) s) xs s) = fst ` set s \<union> fst ` set xs"
proof (induction xs arbitrary: s)
  case (Cons x xs)
  show ?case by (simp only: fold_simps comp_apply split_beta Cons.IH [unfolded split_beta] dom_update) simp
qed simp

lemma fold_update_wf: "map_wf s \<Longrightarrow> map_wf (fold (\<lambda>(k, _) s. AList.update k (f k) s) xs s)"
  by (induction xs arbitrary: s) auto

lemma fold_update_lookup:
  "map_of (fold (\<lambda>(k, _) s. AList.update k (f k) s) xs s) n =
     (if n \<in> fst ` set xs then Some (f n) else map_of s n)"
  by (induction xs arbitrary: s) auto

lemma refresh_wf:
  "tables_wf t \<Longrightarrow>
     tables_wf (t\<lparr>t_summary := fold (\<lambda>(name, _) s. AList.update name (f name) s) (t_catalog t) (t_summary t)\<rparr>)"
  by (simp add: tables_wf_def fold_update_wf fold_update_keys)

lemma db_step_wf: "db_step ct t t' \<Longrightarrow> tables_wf t \<Longrightarrow> tables_wf t'"
proof (erule db_stepE, goal_cases)
  case 1 then show ?case
    by (auto simp: UpsertMetricsCatalog_def split: if_splits intro: inv_intros elim!: run_tx_preserves [where P = tables_wf])
next
  case 2 then show ?case
    by (auto simp: UpsertMetricsJobIndex_def split: if_splits intro: inv_intros elim!: run_tx_preserves [where P = tables_wf])
next
  case 3 then show ?case
    by (auto simp: Insert_def split: if_splits option.splits)
next
  case 4 then show ?case
    by (auto simp: InsertRulesUsage_def Let_def split: if_splits intro: inv_intros elim!: run_tx_preserves [where P = tables_wf])
next
  case 5 then show ?case
    by (auto simp: InsertDashboardUsage_def Let_def split: if_splits intro: inv_intros elim!: run_tx_preserves [where P = tables_wf])
next
  case 6 then show ?case
    by (auto simp: RefreshMetricsUsageSummary_def refresh_wf split: option.splits)
next
  case 7 then show ?case
    by (auto simp: DeleteQueriesBefore_def Let_def split: option.splits)
qed

text \<open>
  C17. The schema constraints hold at all times: whatever sequence of writes the program sends,
  with failures at any statement, keys stay unique and the usage summary only has rows for
  metrics of the catalog.
\<close>

theorem reachable_tables_wf:
  "(db_step ct)\<^sup>*\<^sup>* empty_tables t \<Longrightarrow> tables_wf t"
proof (induction rule: rtranclp_induct)
  case base
  show ?case by (simp add: tables_wf_def empty_tables_def)
qed (rule db_step_wf)

theorem reachable_tables_wf_witness:
  "tables_wf (snd (UpsertMetricsCatalog no_faults 0 empty_tables
     [\<lparr>ci_Name = ''up'', ci_Type = ''gauge'', ci_Help = [], ci_Unit = []\<rparr>]))"
  by (rule reachable_tables_wf [where ct = format_SQLite], rule r_into_rtranclp,
      rule step_catalog, rule surjective_pairing)

lemma run_tx_atomic: "fst (run_tx l fl stmt items t) \<noteq> None \<Longrightarrow> snd (run_tx l fl stmt items t) = t"
  using run_tx_result by (metis prod.collapse)



section \<open>The catalog\<close>

text \<open>The row an item leaves, given the row that was there.\<close>

definition catalog_row_of :: "time \<Rightarrow> MetricCatalogItem \<Rightarrow> catalog_row option \<Rightarrow> catalog_row" where
  "catalog_row_of now it old =
     \<lparr>cr_type = ci_Type it, cr_help = ci_Help it, cr_unit = ci_Unit it,
      cr_first_seen_at = (case old of None \<Rightarrow> now | Some c \<Rightarrow> cr_first_seen_at c),
      cr_last_synced_at = now\<rparr>"

definition last_item :: "string \<Rightarrow> MetricCatalogItem list \<Rightarrow> MetricCatalogItem option" where
  "last_item n items = find (\<lambda>it. ci_Name it = n) (rev items)"

lemma catalog_row_update:
  "(c :: catalog_row)\<lparr>cr_type := a, cr_help := b, cr_unit := u, cr_last_synced_at := s\<rparr>
   = \<lparr>cr_type = a, cr_help = b, cr_unit = u, cr_first_seen_at = cr_first_seen_at c, cr_last_synced_at = s\<rparr>"
  by (cases c) simp

lemma upsert_catalog_lookup:
  "map_of (t_catalog (upsert_catalog now it t)) =
     (map_of (t_catalog t))(ci_Name it \<mapsto> catalog_row_of now it (map_of (t_catalog t) (ci_Name it)))"
  by (simp add: upsert_catalog_def catalog_row_of_def Let_def catalog_row_update split: option.split)

lemma catalog_row_of_again [simp]:
  "catalog_row_of now it (Some (catalog_row_of now it' old)) = catalog_row_of now it old"
  by (simp add: catalog_row_of_def split: option.split)

lemma fold_upsert_catalog:
  "map_of (t_catalog (fold (upsert_catalog now) items t)) n =
     (case last_item n items of
        None \<Rightarrow> map_of (t_catalog t) n
      | Some it \<Rightarrow> Some (catalog_row_of now it (map_of (t_catalog t) n)))"
proof (induction items rule: rev_induct)
  case (snoc it items)
  then show ?case
    by (auto simp: upsert_catalog_lookup last_item_def split: option.splits)
qed (simp add: last_item_def)

text \<open>
  The catalog after an upsert: a name among the items has the type, help and unit of the
  last item with that name and keeps the time it was first seen; every other name keeps its
  row; and repeating the same upsert changes nothing.
\<close>

lemma UpsertMetricsCatalog_spec:
  assumes "UpsertMetricsCatalog fl now t items = (None, t')"
  shows "map_of (t_catalog t') n =
           (case last_item n items of
              None \<Rightarrow> map_of (t_catalog t) n
            | Some it \<Rightarrow> Some (catalog_row_of now it (map_of (t_catalog t) n)))
       \<and> t_summary t' = t_summary t \<and> t_jobs t' = t_jobs t
       \<and> map_of (t_catalog (snd (UpsertMetricsCatalog no_faults now t' items))) n = map_of (t_catalog t') n"
proof -
  have t': "t' = fold (upsert_catalog now) items t"
    using assms by (auto simp: UpsertMetricsCatalog_def dest: run_tx_result split: if_splits)
  have other: "t_summary t' = t_summary t \<and> t_jobs t' = t_jobs t"
    unfolding t' by (induction items arbitrary: t) (auto simp: upsert_catalog_def Let_def)
  have "snd (UpsertMetricsCatalog no_faults now t' items) = fold (upsert_catalog now) items t'"
    by (simp add: UpsertMetricsCatalog_def)
  then show ?thesis
    using other by (auto simp: t' fold_upsert_catalog split: option.split)
qed

lemma UpsertMetricsCatalog_spec_witness:
  "map_of (t_catalog (snd (UpsertMetricsCatalog no_faults 5 empty_tables
     [\<lparr>ci_Name = ''up'', ci_Type = ''gauge'', ci_Help = [], ci_Unit = []\<rparr>]))) ''up''
   = Some \<lparr>cr_type = ''gauge'', cr_help = [], cr_unit = [], cr_first_seen_at = 5, cr_last_synced_at = 5\<rparr>"
  using UpsertMetricsCatalog_spec
    [of no_faults 5 empty_tables "[\<lparr>ci_Name = ''up'', ci_Type = ''gauge'', ci_Help = [], ci_Unit = []\<rparr>]"
      "snd (UpsertMetricsCatalog no_faults 5 empty_tables [\<lparr>ci_Name = ''up'', ci_Type = ''gauge'', ci_Help = [], ci_Unit = []\<rparr>])"
      "''up''"]
  by (simp add: UpsertMetricsCatalog_def last_item_def catalog_row_of_def empty_tables_def)

section \<open>The metadata a client may rely on\<close>

text \<open>
  What the ingester needs of \<open>GetSeriesMetadataByNames\<close>: an answer has exactly the requested
  names of the catalog, each once, with the row the store holds for it.
\<close>

definition catalog_view :: "tables \<Rightarrow> string \<Rightarrow> MetricMetadata option" where
  "catalog_view t n = map_option (\<lambda>c. metadata_row t (n, c)) (map_of (t_catalog t) n)"

lemma mm_Name_metadata_row [simp]: "mm_Name (metadata_row t (n, c)) = n"
  by (simp add: metadata_row_def split: option.split)

locale metadata_source =
  fixes good :: "'s \<Rightarrow> bool"
    and query :: "'s \<Rightarrow> string list \<Rightarrow> go_error + MetricMetadata list"
    and view :: "'s \<Rightarrow> string \<Rightarrow> MetricMetadata option"
  assumes view_name: "view s n = Some m \<Longrightarrow> mm_Name m = n"
    and query_distinct: "good s \<Longrightarrow> query s names = Inr ms \<Longrightarrow> distinct (map mm_Name ms)"
    and query_exact: "good s \<Longrightarrow> query s names = Inr ms \<Longrightarrow>
      m \<in> set ms \<longleftrightarrow> mm_Name m \<in> set names \<and> view s (mm_Name m) = Some m"
begin

text \<open>Looking a requested name up in an answer is looking it up in the store.\<close>

lemma answer_lookup:
  assumes "good s" "query s names = Inr ms"
  shows "map_of (map (\<lambda>m. (mm_Name m, m)) ms) n = (if n \<in> set names then view s n else None)"
proof -
  let ?l = "map (\<lambda>m. (mm_Name m, m)) ms"
  have d: "distinct (map fst ?l)" using query_distinct [OF assms] by (simp add: comp_def)
  have ex: "map_of ?l n = Some m \<longleftrightarrow> n \<in> set names \<and> view s n = Some m" for m
  proof -
    have "map_of ?l n = Some m \<longleftrightarrow> m \<in> set ms \<and> mm_Name m = n"
      unfolding map_of_eq_Some_iff [OF d] by auto
    also have "\<dots> \<longleftrightarrow> n \<in> set names \<and> view s n = Some m"
      using query_exact [OF assms, of m] view_name [of s n m] by auto
    finally show ?thesis .
  qed
  show ?thesis
  proof (cases "map_of ?l n")
    case None
    then show ?thesis using ex by (metis not_None_eq)
  next
    case (Some m)
    then show ?thesis using ex by simp
  qed
qed

lemma answer_names:
  "good s \<Longrightarrow> query s names = Inr ms \<Longrightarrow> mm_Name ` set ms = {n \<in> set names. view s n \<noteq> None}"
  using query_exact view_name by (fastforce simp: image_iff)

end

interpretation sqlite: metadata_source tables_wf "\<lambda>t names. GetSeriesMetadataByNames qerr t names []" catalog_view
  for qerr
proof
  fix t names ms
  assume wf: "tables_wf t" and q: "GetSeriesMetadataByNames qerr t names [] = Inr ms"
  then have ms: "ms = map (metadata_row t) (filter (\<lambda>(n, c). n \<in> set names) (t_catalog t))"
    by (auto simp: GetSeriesMetadataByNames_def split: if_splits option.splits)
  have wfc: "map_wf (t_catalog t)" using wf by (simp add: tables_wf_def)
  have names: "map mm_Name ms = map fst (filter (\<lambda>(n, c). n \<in> set names) (t_catalog t))"
    by (auto simp: ms)
  have "distinct (map fst (filter (\<lambda>(n, c). n \<in> set names) (t_catalog t)))"
    using wfc by (simp add: map_wf_def distinct_map_filter)
  then show "distinct (map mm_Name ms)" unfolding names .
  fix m
  show "m \<in> set ms \<longleftrightarrow> mm_Name m \<in> set names \<and> catalog_view t (mm_Name m) = Some m"
    by (auto 4 4 simp: ms catalog_view_def map_wf_lookup [OF wfc, symmetric] image_iff)
qed (auto simp: catalog_view_def)

section \<open>What the summary shows\<close>

text \<open>The evidence of use a window holds for a metric.\<close>

definition rule_uses :: "(time \<Rightarrow> string) \<Rightarrow> tables \<Rightarrow> TimeRange \<Rightarrow> string \<Rightarrow> bool" where
  "rule_uses ct t tr n \<longleftrightarrow>
     (\<exists>((serie, kind, _), row) \<in> set (t_rules t). serie = n \<and> kind \<in> {RuleUsageKindAlert, RuleUsageKindRecord} \<and>
        in_presence ct tr (rr_first_seen_at row) (rr_last_seen_at row))"

definition dashboard_uses :: "(time \<Rightarrow> string) \<Rightarrow> tables \<Rightarrow> TimeRange \<Rightarrow> string \<Rightarrow> bool" where
  "dashboard_uses ct t tr n \<longleftrightarrow>
     (\<exists>((_, serie), row) \<in> set (t_dashboards t). serie = n \<and>
        in_presence ct tr (dr_first_seen_at row) (dr_last_seen_at row))"

definition query_uses :: "(time \<Rightarrow> string) \<Rightarrow> tables \<Rightarrow> TimeRange \<Rightarrow> string \<Rightarrow> bool" where
  "query_uses ct t tr n \<longleftrightarrow>
     (\<exists>q \<in> set (t_queries t). first_metric_name q = Some n \<and> in_window ct tr (q_TS q))"

definition uses_metric :: "(time \<Rightarrow> string) \<Rightarrow> tables \<Rightarrow> TimeRange \<Rightarrow> string \<Rightarrow> bool" where
  "uses_metric ct t tr n \<longleftrightarrow> rule_uses ct t tr n \<or> dashboard_uses ct t tr n \<or> query_uses ct t tr n"

lemma rule_count_zero:
  "rule_count ct t tr kind n = 0 \<longleftrightarrow>
     (\<forall>((serie, k, _), row) \<in> set (t_rules t). \<not> (serie = n \<and> k = kind \<and>
        in_presence ct tr (rr_first_seen_at row) (rr_last_seen_at row)))"
  by (auto simp: rule_count_def filter_empty_conv)

lemma rule_uses_iff:
  "\<not> rule_uses ct t tr n \<longleftrightarrow>
     rule_count ct t tr RuleUsageKindAlert n = 0 \<and> rule_count ct t tr RuleUsageKindRecord n = 0"
  unfolding rule_count_zero rule_uses_def by fastforce

lemma dashboard_uses_iff: "\<not> dashboard_uses ct t tr n \<longleftrightarrow> dashboard_count ct t tr n = 0"
  by (auto simp: dashboard_uses_def dashboard_count_def filter_empty_conv)

lemma query_uses_iff: "\<not> query_uses ct t tr n \<longleftrightarrow> queries_of ct t tr n = []"
  by (auto simp: query_uses_def queries_of_def filter_empty_conv)

lemma refresh_view:
  assumes "RefreshMetricsUsageSummary ct ferr now t tr = (None, t')" "map_of (t_catalog t) n = Some c"
  shows "catalog_view t' n = Some
     \<lparr>mm_Name = n, mm_Type = cr_type c, mm_Help = cr_help c, mm_Unit = cr_unit c,
      mm_AlertCount = rule_count ct t tr RuleUsageKindAlert n,
      mm_RecordCount = rule_count ct t tr RuleUsageKindRecord n,
      mm_DashboardCount = dashboard_count ct t tr n,
      mm_QueryCount = int (length (queries_of ct t tr n)),
      mm_LastQueriedAt = (case max_text ct (map q_TS (queries_of ct t tr n)) of
                            None \<Rightarrow> [] | Some l \<Rightarrow> format_RFC3339 l)\<rparr>"
proof -
  have n: "n \<in> fst ` set (t_catalog t)" using assms(2) by (metis map_of_eq_None_iff option.distinct(1))
  have t': "t' = t\<lparr>t_summary := fold (\<lambda>(name, _) s. AList.update name (summary_of ct t tr now name) s)
      (t_catalog t) (t_summary t)\<rparr>"
    using assms(1) by (auto simp: RefreshMetricsUsageSummary_def split: option.splits)
  have "map_of (t_summary t') n = Some (summary_of ct t tr now n)"
    using n by (simp add: t' fold_update_lookup)
  moreover have "t_catalog t' = t_catalog t" by (simp add: t')
  ultimately show ?thesis
    using assms(2) by (simp add: catalog_view_def metadata_row_def summary_of_def)
qed

lemma refresh_keeps_catalog:
  "RefreshMetricsUsageSummary ct ferr now t tr = (err, t') \<Longrightarrow> t_catalog t' = t_catalog t"
  by (auto simp: RefreshMetricsUsageSummary_def split: option.splits)

section \<open>Times as texts\<close>

lemma driver_textD: "driver_text ct \<Longrightarrow> \<exists>rest. rest \<noteq> [] \<and> ct t = format_SQLite t @ rest"
  by (simp add: driver_text_def)

text \<open>The window of a refresh or a report is half open: its last second is not included.\<close>

lemma in_window_seconds:
  assumes "driver_text ct"
  shows "in_window ct tr ts \<longleftrightarrow>
     format_SQLite (tr_From tr) \<le> format_SQLite ts \<and> format_SQLite ts < format_SQLite (tr_To tr)"
proof -
  obtain rest where "rest \<noteq> []" "ct ts = format_SQLite ts @ rest" using driver_textD [OF assms] by blast
  then show ?thesis
    by (simp add: in_window_def PrepareTimeRange_def TimeRange_Format_def le_second_text second_text_le)
qed

lemma in_presence_seconds:
  assumes "driver_text ct"
  shows "in_presence ct tr a b \<longleftrightarrow>
     format_SQLite a < format_SQLite (tr_To tr) \<and> format_SQLite (tr_From tr) \<le> format_SQLite b"
proof -
  obtain ra rb where "ra \<noteq> []" "ct a = format_SQLite a @ ra" "ct b = format_SQLite b @ rb"
    using driver_textD [OF assms] by meson
  then show ?thesis
    by (simp add: in_presence_def PrepareTimeRange_def TimeRange_Format_def le_second_text second_text_le)
qed

text \<open>The same in times, for years of four digits: whole seconds, the last one excluded.\<close>

lemma in_window_times:
  assumes "driver_text ct" "four_digit_years ts" "four_digit_years (tr_From tr)" "four_digit_years (tr_To tr)"
  shows "in_window ct tr ts \<longleftrightarrow> tr_From tr div second \<le> ts div second \<and> ts div second < tr_To tr div second"
  using in_window_seconds [OF assms(1)] assms(2-) by (simp add: format_SQLite_less format_SQLite_le)

lemma in_presence_times:
  assumes "driver_text ct" "four_digit_years a" "four_digit_years b" "four_digit_years (tr_From tr)" "four_digit_years (tr_To tr)"
  shows "in_presence ct tr a b \<longleftrightarrow> a div second < tr_To tr div second \<and> tr_From tr div second \<le> b div second"
  using in_presence_seconds [OF assms(1)] assms(2-) by (simp add: format_SQLite_less format_SQLite_le)

text \<open>
  Retention deletes by calendar day on SQLite: the column holds \<open>date clock\<close> with a space
  and the cutoff is printed with a \<open>T\<close>, so exactly the queries up to the end of the cutoff's day
  are deleted, also those after the cutoff; the count returned is the number removed.
\<close>

lemma DeleteQueriesBefore_by_day:
  assumes "driver_text ct" "DeleteQueriesBefore ct ferr t cutoff = (Inr n, t')"
    "four_digit_years cutoff" "\<forall>q \<in> set (t_queries t). four_digit_years (q_TS q)"
  shows "t_queries t' = filter (\<lambda>q. cutoff div day < q_TS q div day) (t_queries t)
       \<and> n = int (length (filter (\<lambda>q. q_TS q div day \<le> cutoff div day) (t_queries t)))
       \<and> t' = t\<lparr>t_queries := t_queries t'\<rparr>"
proof -
  have cmp: "ct (q_TS q) < format_RFC3339 cutoff \<longleftrightarrow> q_TS q div day \<le> cutoff div day" if "q \<in> set (t_queries t)" for q
    using driver_textD [OF assms(1), of "q_TS q"] less_RFC3339_text date_text_le_iff assms(3,4) that by auto
  then have f: "filter (\<lambda>q. ct (q_TS q) < format_RFC3339 cutoff) (t_queries t)
      = filter (\<lambda>q. q_TS q div day \<le> cutoff div day) (t_queries t)"
    and f': "filter (\<lambda>q. \<not> ct (q_TS q) < format_RFC3339 cutoff) (t_queries t)
      = filter (\<lambda>q. \<not> q_TS q div day \<le> cutoff div day) (t_queries t)" by (intro filter_cong; auto)+
  have len: "int (length xs) - int (length (filter (\<lambda>q. \<not> P q) xs)) = int (length (filter P xs))" for xs :: "Query list" and P
    using sum_length_filter_compl [of P xs] by linarith
  show ?thesis
    using assms(2) len by (auto simp: DeleteQueriesBefore_def Let_def f f' not_le split: option.splits)
qed

text \<open>A query executed at a given time; every other field is its zero value.\<close>

definition query_at :: "time \<Rightarrow> Query" where
  "query_at ts = \<lparr>q_TS = ts, q_QueryParam = ''up'', q_TimeParam = ts, q_Duration = 0, q_StatusCode = 200,
     q_BodySize = 0, q_LabelMatchers = [[(''__name__'', ''up'')]], q_Fingerprint = [], q_Type = QueryTypeInstant,
     q_Step = 0, q_Start = zero_time, q_End = zero_time, q_TotalQueryableSamples = 0, q_PeakSamples = 0,
     q_HTTPHeaders = []\<rparr>"

lemma q_TS_query_at [simp]: "q_TS (query_at ts) = ts"
  by (simp add: query_at_def)

definition utc_text :: "time \<Rightarrow> string" where
  "utc_text t = format_SQLite t @ '' +0000 UTC''"

lemma driver_text_utc: "driver_text utc_text"
  by (auto simp: driver_text_def utc_text_def)

lemma DeleteQueriesBefore_by_day_witness:
  "snd (DeleteQueriesBefore utc_text None (empty_tables\<lparr>t_queries := [query_at (23 * hour)]\<rparr>) (10 * hour))
   = empty_tables"
proof -
  let ?t = "empty_tables\<lparr>t_queries := [query_at (23 * hour)]\<rparr>"
  obtain n t' where r: "DeleteQueriesBefore utc_text None ?t (10 * hour) = (Inr n, t')"
    by (simp add: DeleteQueriesBefore_def Let_def)
  have y: "four_digit_years (10 * hour)" "\<forall>q \<in> set (t_queries ?t). four_digit_years (q_TS q)"
    by (simp_all add: four_digit_years_iff day_def duration_defs)
  note del = DeleteQueriesBefore_by_day [OF driver_text_utc r y]
  have "t_queries t' = []" using del by (simp add: day_def duration_defs)
  moreover have "t' = ?t\<lparr>t_queries := t_queries t'\<rparr>" using del by blast
  ultimately obtain qs where "t' = ?t\<lparr>t_queries := qs\<rparr>" "qs = []" by blast
  then have "t' = empty_tables" by (simp add: empty_tables_def)
  then show ?thesis by (simp add: r)
qed

end
