(* ===== verification/Usage_Lookup.thy ===== *)
theory Usage_Lookup
  imports Metric_Cache Sqlite_Store
begin

text \<open>
  The usage lookup of the OTLP ingester (\<open>internal/ingester/otlp/ingester.go\<close>, lines 538 to
  911): names are streamed in chunks through the Redis cache and the database, verdicts on the
  variants of histograms and summaries are collected per base name, and at the end the bases
  are reconciled. The cache and the database query are arguments: a pair of operations on the
  cache's state, absent when no cache is configured, and a function from names to rows.

  The result is characterised exactly (\<open>lookupUnused_spec\<close>): which names end up in the unused
  set, as a function of the verdict on each single name, for every order in which the runtime
  ranges over the maps and for every chunk size.
\<close>

section \<open>State\<close>

record histogramVariantState =
  h_seenBucket :: bool
  h_seenCount :: bool
  h_seenSum :: bool
  h_unusedBucket :: bool
  h_unusedCount :: bool
  h_unusedSum :: bool

record summaryVariantState =
  s_seenBase :: bool
  s_unusedBase :: bool
  s_seenCount :: bool
  s_unusedCount :: bool
  s_seenSum :: bool
  s_unusedSum :: bool

text \<open>The Prometheus counters the lookup increments.\<close>

record lookup_counters =
  lc_hits_used :: nat
  lc_hits_unused :: nat
  lc_misses :: nat
  lc_errors_get :: nat
  lc_errors_set :: nat
  lc_lookup_errors :: nat

definition zero_counters :: lookup_counters where
  "zero_counters = \<lparr>lc_hits_used = 0, lc_hits_unused = 0, lc_misses = 0, lc_errors_get = 0,
     lc_errors_set = 0, lc_lookup_errors = 0\<rparr>"

type_synonym histogramStates = "(string, histogramVariantState) go_map"
type_synonym summaryStates = "(string, summaryVariantState) go_map"

record 'c lookup_state =
  ls_hist :: histogramStates
  ls_sum :: summaryStates
  ls_unused :: "string set"
  ls_cache :: 'c
  ls_counters :: lookup_counters

record 'c cache_ops =
  op_GetStates :: "'c \<Rightarrow> string list \<Rightarrow> (go_error + (string, MetricUsageState) go_map) \<times> 'c"
  op_SetStates :: "'c \<Rightarrow> (string, MetricUsageState) go_map \<Rightarrow> go_error option \<times> 'c"

text \<open>
  What one lookup works with: the cache (if any), the database query, the bases of the request
  in the order the runtime ranges over them, and the chunk size.
\<close>

record 'c lookup_env =
  le_cache :: "'c cache_ops option"
  le_query :: "string list \<Rightarrow> go_error + MetricMetadata list"
  le_hist :: "string list"
  le_sum :: "string list"
  le_chunk :: nat

section \<open>Variants\<close>

fun isHistogramVariant :: "string \<Rightarrow> string list \<Rightarrow> string option" where
  "isHistogramVariant name [] = None"
| "isHistogramVariant name (baseName # rest) =
     (if name = baseName @ ''_bucket'' \<or> name = baseName @ ''_count'' \<or> name = baseName @ ''_sum''
      then Some baseName else isHistogramVariant name rest)"

fun isSummaryVariant :: "string \<Rightarrow> string list \<Rightarrow> string option" where
  "isSummaryVariant name [] = None"
| "isSummaryVariant name (baseName # rest) =
     (if name = baseName @ ''_count'' \<or> name = baseName @ ''_sum''
      then Some baseName else isSummaryVariant name rest)"

definition isSummaryBase :: "string \<Rightarrow> string list \<Rightarrow> bool" where
  "isSummaryBase name summaryBases \<longleftrightarrow> name \<in> set summaryBases"

definition metricMetadataUnused :: "MetricMetadata \<Rightarrow> bool" where
  "metricMetadataUnused mm \<longleftrightarrow>
     mm_AlertCount mm = 0 \<and> mm_RecordCount mm = 0 \<and> mm_DashboardCount mm = 0 \<and> mm_QueryCount mm = 0"

definition initHistogramStates :: "string list \<Rightarrow> histogramStates" where
  "initHistogramStates histogramBases =
     map (\<lambda>b. (b, \<lparr>h_seenBucket = False, h_seenCount = False, h_seenSum = False,
                   h_unusedBucket = False, h_unusedCount = False, h_unusedSum = False\<rparr>)) histogramBases"

definition initSummaryStates :: "string list \<Rightarrow> summaryStates" where
  "initSummaryStates summaryBases =
     map (\<lambda>b. (b, \<lparr>s_seenBase = False, s_unusedBase = False, s_seenCount = False,
                   s_unusedCount = False, s_seenSum = False, s_unusedSum = False\<rparr>)) summaryBases"

section \<open>Recording a verdict\<close>

text \<open>The \<open>switch\<close> over the variants; a base without a state is left alone.\<close>

definition mark_histogram :: "string \<Rightarrow> string \<Rightarrow> bool \<Rightarrow> histogramStates \<Rightarrow> histogramStates" where
  "mark_histogram baseName name isUnused states =
     (case map_of states baseName of
        None \<Rightarrow> states
      | Some state \<Rightarrow>
          if name = baseName @ ''_bucket''
          then AList.update baseName (state\<lparr>h_seenBucket := True, h_unusedBucket := isUnused\<rparr>) states
          else if name = baseName @ ''_count''
          then AList.update baseName (state\<lparr>h_seenCount := True, h_unusedCount := isUnused\<rparr>) states
          else if name = baseName @ ''_sum''
          then AList.update baseName (state\<lparr>h_seenSum := True, h_unusedSum := isUnused\<rparr>) states
          else states)"

definition mark_summary :: "string \<Rightarrow> string \<Rightarrow> bool \<Rightarrow> summaryStates \<Rightarrow> summaryStates" where
  "mark_summary baseName name isUnused states =
     (case map_of states baseName of
        None \<Rightarrow> states
      | Some state \<Rightarrow>
          if name = baseName @ ''_count''
          then AList.update baseName (state\<lparr>s_seenCount := True, s_unusedCount := isUnused\<rparr>) states
          else if name = baseName @ ''_sum''
          then AList.update baseName (state\<lparr>s_seenSum := True, s_unusedSum := isUnused\<rparr>) states
          else states)"

definition mark_summary_base :: "string \<Rightarrow> bool \<Rightarrow> summaryStates \<Rightarrow> summaryStates" where
  "mark_summary_base name isUnused states =
     (case map_of states name of
        None \<Rightarrow> states
      | Some state \<Rightarrow> AList.update name (state\<lparr>s_seenBase := True, s_unusedBase := isUnused\<rparr>) states)"

definition updateHistogramState :: "string \<Rightarrow> string list \<Rightarrow> histogramStates \<Rightarrow> bool \<Rightarrow> histogramStates" where
  "updateHistogramState name histogramBases histogramStates isUnused =
     (case isHistogramVariant name histogramBases of
        None \<Rightarrow> histogramStates
      | Some baseName \<Rightarrow> mark_histogram baseName name isUnused histogramStates)"

definition updateSummaryState :: "string \<Rightarrow> string list \<Rightarrow> summaryStates \<Rightarrow> bool \<Rightarrow> summaryStates" where
  "updateSummaryState name summaryBases summaryStates isUnused =
     (if name \<in> set summaryBases then mark_summary_base name isUnused summaryStates
      else (case isSummaryVariant name summaryBases of
              None \<Rightarrow> summaryStates
            | Some baseName \<Rightarrow> mark_summary baseName name isUnused summaryStates))"

section \<open>Cache hits\<close>

definition used_hit :: "'c lookup_env \<Rightarrow> string \<Rightarrow> 'c lookup_state \<Rightarrow> 'c lookup_state" where
  "used_hit e name st =
     st\<lparr>ls_hist := updateHistogramState name (le_hist e) (ls_hist st) False,
        ls_sum := updateSummaryState name (le_sum e) (ls_sum st) False\<rparr>"

definition unused_hit :: "'c lookup_env \<Rightarrow> string \<Rightarrow> 'c lookup_state \<Rightarrow> 'c lookup_state" where
  "unused_hit e name st =
     (if isHistogramVariant name (le_hist e) \<noteq> None
      then st\<lparr>ls_hist := updateHistogramState name (le_hist e) (ls_hist st) True\<rparr>
      else if isSummaryVariant name (le_sum e) \<noteq> None \<or> isSummaryBase name (le_sum e)
      then st\<lparr>ls_sum := updateSummaryState name (le_sum e) (ls_sum st) True\<rparr>
      else st\<lparr>ls_unused := insert name (ls_unused st)\<rparr>)"

definition processCacheHits ::
  "'c lookup_env \<Rightarrow> string list \<Rightarrow> string list \<Rightarrow> 'c lookup_state \<Rightarrow> 'c lookup_state" where
  "processCacheHits e usedFromCache unusedFromCache st =
     fold (unused_hit e) unusedFromCache (fold (used_hit e) usedFromCache st)"

text \<open>A name missing from the answer reads as the zero value, \<open>StateUnknown\<close>.\<close>

definition state_in :: "(string, MetricUsageState) go_map \<Rightarrow> string \<Rightarrow> MetricUsageState" where
  "state_in cacheStates name = (case map_of cacheStates name of None \<Rightarrow> StateUnknown | Some s \<Rightarrow> s)"

definition partitionCacheResults ::
  "string list \<Rightarrow> (string, MetricUsageState) go_map \<Rightarrow> string list \<times> string list \<times> string list" where
  "partitionCacheResults batch cacheStates =
     (filter (\<lambda>n. state_in cacheStates n = StateUsed) batch,
      filter (\<lambda>n. state_in cacheStates n = StateUnused) batch,
      filter (\<lambda>n. state_in cacheStates n = StateUnknown) batch)"

definition count_hits :: "nat \<Rightarrow> nat \<Rightarrow> nat \<Rightarrow> lookup_counters \<Rightarrow> lookup_counters" where
  "count_hits u n m lc =
     lc\<lparr>lc_hits_used := lc_hits_used lc + u, lc_hits_unused := lc_hits_unused lc + n,
        lc_misses := lc_misses lc + m\<rparr>"

definition lookupCache ::
  "'c lookup_env \<Rightarrow> string list \<Rightarrow> 'c lookup_state
   \<Rightarrow> (string list \<times> string list \<times> string list) \<times> 'c lookup_state" where
  "lookupCache e batch st =
     (case le_cache e of
        None \<Rightarrow> (([], [], batch), st)
      | Some ops \<Rightarrow>
          (case op_GetStates ops (ls_cache st) batch of
             (Inl err, c') \<Rightarrow>
               (([], [], batch),
                st\<lparr>ls_cache := c',
                   ls_counters := (ls_counters st)\<lparr>lc_errors_get := lc_errors_get (ls_counters st) + 1\<rparr>\<rparr>)
           | (Inr cacheStates, c') \<Rightarrow>
               (let (used, unused, misses) = partitionCacheResults batch cacheStates in
                ((used, unused, misses),
                 st\<lparr>ls_cache := c',
                    ls_counters := count_hits (length used) (length unused) (length misses) (ls_counters st)\<rparr>))))"

section \<open>Database misses\<close>

text \<open>
  One row of the answer. \<open>histogramStates[baseName]\<close> is read without a check: the states have
  an entry for every base (\<open>lookup_inv\<close>), so that it is never nil.
\<close>

definition metadata_hit :: "'c lookup_env \<Rightarrow> MetricMetadata \<Rightarrow> 'c lookup_state \<Rightarrow> 'c lookup_state" where
  "metadata_hit e mm st =
     (let isUnused = metricMetadataUnused mm; name = mm_Name mm in
      case isHistogramVariant name (le_hist e) of
        Some baseName \<Rightarrow> st\<lparr>ls_hist := mark_histogram baseName name isUnused (ls_hist st)\<rparr>
      | None \<Rightarrow>
          if name \<in> set (le_sum e) then st\<lparr>ls_sum := mark_summary_base name isUnused (ls_sum st)\<rparr>
          else (case isSummaryVariant name (le_sum e) of
                  Some baseName \<Rightarrow> st\<lparr>ls_sum := mark_summary baseName name isUnused (ls_sum st)\<rparr>
                | None \<Rightarrow> if isUnused then st\<lparr>ls_unused := insert name (ls_unused st)\<rparr> else st))"

definition write_back :: "MetricMetadata list \<Rightarrow> (string, MetricUsageState) go_map" where
  "write_back metas =
     fold (\<lambda>mm m. AList.update (mm_Name mm) (if metricMetadataUnused mm then StateUnused else StateUsed) m) metas []"

definition processMetadata ::
  "'c lookup_env \<Rightarrow> MetricMetadata list \<Rightarrow> 'c lookup_state \<Rightarrow> (string, MetricUsageState) go_map \<times> 'c lookup_state" where
  "processMetadata e metas st = (write_back metas, fold (metadata_hit e) metas st)"

definition writeBackToCache ::
  "'c lookup_env \<Rightarrow> (string, MetricUsageState) go_map \<Rightarrow> 'c lookup_state \<Rightarrow> 'c lookup_state" where
  "writeBackToCache e cacheWriteBack st =
     (case le_cache e of
        None \<Rightarrow> st
      | Some ops \<Rightarrow>
          if cacheWriteBack = [] then st
          else (case op_SetStates ops (ls_cache st) cacheWriteBack of
                  (None, c') \<Rightarrow> st\<lparr>ls_cache := c'\<rparr>
                | (Some err, c') \<Rightarrow>
                    st\<lparr>ls_cache := c',
                       ls_counters := (ls_counters st)\<lparr>lc_errors_set := lc_errors_set (ls_counters st) + 1\<rparr>\<rparr>))"

definition processDBMisses :: "'c lookup_env \<Rightarrow> string list \<Rightarrow> 'c lookup_state \<Rightarrow> bool \<times> 'c lookup_state" where
  "processDBMisses e misses st =
     (case le_query e misses of
        Inl err \<Rightarrow>
          (False, st\<lparr>ls_counters := (ls_counters st)\<lparr>lc_lookup_errors := lc_lookup_errors (ls_counters st) + 1\<rparr>\<rparr>)
      | Inr metas \<Rightarrow>
          (let (cacheWriteBack, st') = processMetadata e metas st in
           (True, writeBackToCache e cacheWriteBack st')))"

section \<open>Reconciling the bases\<close>

definition reconcile_histogram :: "string \<times> histogramVariantState \<Rightarrow> string set \<Rightarrow> string set" where
  "reconcile_histogram = (\<lambda>(baseName, state) unused.
     if \<not> h_seenBucket state \<or> \<not> h_seenCount state \<or> \<not> h_seenSum state then unused - {baseName}
     else if h_unusedBucket state \<and> h_unusedCount state \<and> h_unusedSum state then insert baseName unused
     else unused - {baseName})"

definition reconcileHistogramBases :: "histogramStates \<Rightarrow> string set \<Rightarrow> string set" where
  "reconcileHistogramBases histogramStates unused = fold reconcile_histogram histogramStates unused"

definition reconcile_summary :: "string \<times> summaryVariantState \<Rightarrow> string set \<Rightarrow> string set" where
  "reconcile_summary = (\<lambda>(baseName, state) unused.
     if s_seenBase state \<and> \<not> s_unusedBase state then unused - {baseName}
     else if \<not> s_seenCount state \<or> \<not> s_seenSum state then unused - {baseName}
     else if s_unusedBase state \<and> s_unusedCount state \<and> s_unusedSum state then insert baseName unused
     else unused - {baseName})"

definition reconcileSummaryBases :: "summaryStates \<Rightarrow> string set \<Rightarrow> string set" where
  "reconcileSummaryBases summaryStates unused = fold reconcile_summary summaryStates unused"

section \<open>The streaming lookup\<close>

definition flush :: "'c lookup_env \<Rightarrow> string list \<Rightarrow> 'c lookup_state \<Rightarrow> bool \<times> 'c lookup_state" where
  "flush e batch st =
     (if batch = [] then (True, st)
      else (case lookupCache e batch st of
              ((usedFromCache, unusedFromCache, misses), st1) \<Rightarrow>
                (let st2 = processCacheHits e usedFromCache unusedFromCache st1 in
                 if misses \<noteq> [] then processDBMisses e misses st2 else (True, st2))))"

fun stream :: "'c lookup_env \<Rightarrow> string list \<Rightarrow> string list \<Rightarrow> 'c lookup_state \<Rightarrow> bool \<times> 'c lookup_state" where
  "stream e batch [] st = flush e batch st"
| "stream e batch (n # names) st =
     (let batch' = batch @ [n] in
      if length batch' = le_chunk e
      then (case flush e batch' st of
              (False, st') \<Rightarrow> (False, st')
            | (True, st') \<Rightarrow> stream e [] names st')
      else stream e batch' names st)"

definition init_lookup :: "'c lookup_env \<Rightarrow> 'c \<Rightarrow> lookup_counters \<Rightarrow> 'c lookup_state" where
  "init_lookup e c lc =
     \<lparr>ls_hist = initHistogramStates (le_hist e), ls_sum = initSummaryStates (le_sum e),
      ls_unused = {}, ls_cache = c, ls_counters = lc\<rparr>"

text \<open>\<open>None\<close> is the failed lookup (\<open>return nil, false\<close>).\<close>

definition lookupUnused ::
  "'c lookup_env \<Rightarrow> string list \<Rightarrow> 'c \<Rightarrow> lookup_counters \<Rightarrow> string set option \<times> 'c \<times> lookup_counters" where
  "lookupUnused e names c lc =
     (case stream e [] names (init_lookup e c lc) of
        (False, st) \<Rightarrow> (None, ls_cache st, ls_counters st)
      | (True, st) \<Rightarrow>
          (Some (reconcileSummaryBases (ls_sum st) (reconcileHistogramBases (ls_hist st) (ls_unused st))),
           ls_cache st, ls_counters st))"

section \<open>Variant names\<close>

text \<open>No name is a variant of two kinds, and a variant determines its base.\<close>

lemma suffix_neq [simp]:
  "a @ ''_bucket'' \<noteq> b @ ''_count''" "a @ ''_bucket'' \<noteq> b @ ''_sum''" "a @ ''_count'' \<noteq> b @ ''_sum''"
  "a @ ''_count'' \<noteq> b @ ''_bucket''" "a @ ''_sum'' \<noteq> b @ ''_bucket''" "a @ ''_sum'' \<noteq> b @ ''_count''"
  by (auto dest!: arg_cong [where f = rev])

lemma isHistogramVariant_iff:
  "isHistogramVariant n bases = Some b \<longleftrightarrow>
     b \<in> set bases \<and> (n = b @ ''_bucket'' \<or> n = b @ ''_count'' \<or> n = b @ ''_sum'')"
  by (induction n bases rule: isHistogramVariant.induct) auto

lemma isSummaryVariant_iff:
  "isSummaryVariant n bases = Some b \<longleftrightarrow> b \<in> set bases \<and> (n = b @ ''_count'' \<or> n = b @ ''_sum'')"
  by (induction n bases rule: isSummaryVariant.induct) auto

lemma isHistogramVariant_None:
  "isHistogramVariant n bases = None \<longleftrightarrow>
     (\<forall>b \<in> set bases. n \<noteq> b @ ''_bucket'' \<and> n \<noteq> b @ ''_count'' \<and> n \<noteq> b @ ''_sum'')"
  by (induction n bases rule: isHistogramVariant.induct) auto

lemma isSummaryVariant_None:
  "isSummaryVariant n bases = None \<longleftrightarrow> (\<forall>b \<in> set bases. n \<noteq> b @ ''_count'' \<and> n \<noteq> b @ ''_sum'')"
  by (induction n bases rule: isSummaryVariant.induct) auto

text \<open>The order in which the bases are ranged over does not matter.\<close>

lemma isHistogramVariant_order: "set xs = set ys \<Longrightarrow> isHistogramVariant n xs = isHistogramVariant n ys"
  by (rule option_eqI) (simp add: isHistogramVariant_iff)

lemma isSummaryVariant_order: "set xs = set ys \<Longrightarrow> isSummaryVariant n xs = isSummaryVariant n ys"
  by (rule option_eqI) (simp add: isSummaryVariant_iff)

section \<open>The invariant of the lookup\<close>

text \<open>
  \<open>v\<close> maps each name with a verdict so far to it: \<open>Some True\<close> for unused. The state of every
  base is a function of the verdicts on its variants.
\<close>

definition hist_state_of :: "(string \<Rightarrow> bool option) \<Rightarrow> string \<Rightarrow> histogramVariantState" where
  "hist_state_of v b =
     \<lparr>h_seenBucket = v (b @ ''_bucket'') \<noteq> None, h_seenCount = v (b @ ''_count'') \<noteq> None,
      h_seenSum = v (b @ ''_sum'') \<noteq> None, h_unusedBucket = v (b @ ''_bucket'') = Some True,
      h_unusedCount = v (b @ ''_count'') = Some True, h_unusedSum = v (b @ ''_sum'') = Some True\<rparr>"

definition hist_inv :: "string list \<Rightarrow> (string \<Rightarrow> bool option) \<Rightarrow> histogramStates \<Rightarrow> bool" where
  "hist_inv hb v hs \<longleftrightarrow> map_wf hs \<and>
     (\<forall>b. map_of hs b = (if b \<in> set hb then Some (hist_state_of v b) else None))"

text \<open>A name counts for a summary unless it is taken for a histogram variant or another base.\<close>

definition base_unused :: "string list \<Rightarrow> (string \<Rightarrow> bool option) \<Rightarrow> string \<Rightarrow> bool" where
  "base_unused hb v n \<longleftrightarrow> v n = Some True \<and> isHistogramVariant n hb = None"

definition part_unused :: "string list \<Rightarrow> string list \<Rightarrow> (string \<Rightarrow> bool option) \<Rightarrow> string \<Rightarrow> bool" where
  "part_unused hb sb v n \<longleftrightarrow> base_unused hb v n \<and> n \<notin> set sb"

definition sum_state_ok ::
  "string list \<Rightarrow> string list \<Rightarrow> (string \<Rightarrow> bool option) \<Rightarrow> string \<Rightarrow> summaryVariantState \<Rightarrow> bool" where
  "sum_state_ok hb sb v b s \<longleftrightarrow>
     s_unusedBase s = base_unused hb v b \<and>
     s_unusedCount s = part_unused hb sb v (b @ ''_count'') \<and> (s_unusedCount s \<longrightarrow> s_seenCount s) \<and>
     s_unusedSum s = part_unused hb sb v (b @ ''_sum'') \<and> (s_unusedSum s \<longrightarrow> s_seenSum s)"

definition sum_inv :: "string list \<Rightarrow> string list \<Rightarrow> (string \<Rightarrow> bool option) \<Rightarrow> summaryStates \<Rightarrow> bool" where
  "sum_inv hb sb v ss \<longleftrightarrow> map_wf ss \<and>
     (\<forall>b. if b \<in> set sb then (\<exists>s. map_of ss b = Some s \<and> sum_state_ok hb sb v b s) else map_of ss b = None)"

definition plain_unused :: "string list \<Rightarrow> string list \<Rightarrow> (string \<Rightarrow> bool option) \<Rightarrow> string set" where
  "plain_unused hb sb v =
     {n. v n = Some True \<and> isHistogramVariant n hb = None \<and> n \<notin> set sb \<and> isSummaryVariant n sb = None}"

definition lookup_inv :: "'c lookup_env \<Rightarrow> (string \<Rightarrow> bool option) \<Rightarrow> 'c lookup_state \<Rightarrow> bool" where
  "lookup_inv e v st \<longleftrightarrow>
     hist_inv (le_hist e) v (ls_hist st) \<and> sum_inv (le_hist e) (le_sum e) v (ls_sum st) \<and>
     ls_unused st = plain_unused (le_hist e) (le_sum e) v"

lemma mark_histogram_wf: "map_wf hs \<Longrightarrow> map_wf (mark_histogram b n x hs)"
  by (simp add: mark_histogram_def split: option.split)

lemma mark_summary_wf: "map_wf ss \<Longrightarrow> map_wf (mark_summary b n x ss)"
  by (simp add: mark_summary_def split: option.split)

lemma mark_summary_base_wf: "map_wf ss \<Longrightarrow> map_wf (mark_summary_base n x ss)"
  by (simp add: mark_summary_base_def split: option.split)

lemma hist_step:
  assumes "hist_inv hb v hs"
  shows "hist_inv hb (v(n \<mapsto> x)) (updateHistogramState n hb hs x)"
proof (cases "isHistogramVariant n hb")
  case None
  then have "\<And>b. b \<in> set hb \<Longrightarrow> hist_state_of (v(n \<mapsto> x)) b = hist_state_of v b"
    by (auto simp: isHistogramVariant_None hist_state_of_def)
  with assms None show ?thesis by (simp add: hist_inv_def updateHistogramState_def)
next
  case (Some b)
  then have b: "b \<in> set hb" and n: "n = b @ ''_bucket'' \<or> n = b @ ''_count'' \<or> n = b @ ''_sum''"
    by (simp_all add: isHistogramVariant_iff)
  have other: "hist_state_of (v(n \<mapsto> x)) c = hist_state_of v c" if "c \<noteq> b" for c
    using n that by (auto simp: hist_state_of_def)
  have "map_of (mark_histogram b n x hs) = (map_of hs)(b \<mapsto> hist_state_of (v(n \<mapsto> x)) b)"
    using assms b n by (auto simp: mark_histogram_def hist_inv_def hist_state_of_def)
  with assms Some b other show ?thesis
    by (auto simp: hist_inv_def updateHistogramState_def mark_histogram_wf)
qed

text \<open>Verdicts on names that do not concern a base leave what is known of it unchanged.\<close>

lemma base_unused_upd [simp]:
  "base_unused hb (v(n \<mapsto> x)) m = (if m = n then x \<and> isHistogramVariant n hb = None else base_unused hb v m)"
  by (auto simp: base_unused_def)

lemma part_unused_upd [simp]:
  "part_unused hb sb (v(n \<mapsto> x)) m =
     (if m = n then x \<and> isHistogramVariant n hb = None \<and> n \<notin> set sb else part_unused hb sb v m)"
  by (auto simp: part_unused_def)

lemma no_verdict [simp]: "v n = None \<Longrightarrow> \<not> base_unused hb v n" "v n = None \<Longrightarrow> \<not> part_unused hb sb v n"
  by (simp_all add: base_unused_def part_unused_def)

lemma sum_inv_lookup: "sum_inv hb sb v ss \<Longrightarrow> b \<in> set sb \<Longrightarrow> \<exists>s. map_of ss b = Some s \<and> sum_state_ok hb sb v b s"
  unfolding sum_inv_def by (metis (full_types))

lemma sum_inv_update:
  assumes inv: "sum_inv hb sb v ss" and b: "b \<in> set sb" and s: "sum_state_ok hb sb w b s"
    and other: "\<And>c t. c \<in> set sb \<Longrightarrow> c \<noteq> b \<Longrightarrow> sum_state_ok hb sb v c t \<Longrightarrow> sum_state_ok hb sb w c t"
  shows "sum_inv hb sb w (AList.update b s ss)"
  using assms unfolding sum_inv_def by (auto split: if_splits) metis

lemma sum_inv_same:
  assumes "sum_inv hb sb v ss"
    and "\<And>c t. c \<in> set sb \<Longrightarrow> sum_state_ok hb sb v c t \<Longrightarrow> sum_state_ok hb sb w c t"
  shows "sum_inv hb sb w ss"
  unfolding sum_inv_def
proof (intro conjI allI)
  show "map_wf ss" using assms(1) by (simp add: sum_inv_def)
  fix b
  have "b \<notin> set sb \<Longrightarrow> map_of ss b = None" using assms(1) by (simp add: sum_inv_def split: if_splits)
  then show "if b \<in> set sb then \<exists>s. map_of ss b = Some s \<and> sum_state_ok hb sb w b s else map_of ss b = None"
    using sum_inv_lookup [OF assms(1), of b] assms(2) [of b] by auto
qed

text \<open>A verdict is recorded in the summary states, unless the name is a histogram variant.\<close>

lemma sum_step:
  assumes inv: "sum_inv hb sb v ss" and new: "v n = None" and ok: "x \<Longrightarrow> isHistogramVariant n hb = None"
  shows "sum_inv hb sb (v(n \<mapsto> x)) (updateSummaryState n sb ss x)"
proof (cases "n \<in> set sb")
  case True
  then obtain s where s: "map_of ss n = Some s" "sum_state_ok hb sb v n s" using sum_inv_lookup [OF inv] by blast
  have "sum_inv hb sb (v(n \<mapsto> x)) (AList.update n (s\<lparr>s_seenBase := True, s_unusedBase := x\<rparr>) ss)"
    by (rule sum_inv_update [OF inv True]) (use s new ok True in \<open>auto simp: sum_state_ok_def\<close>)
  with True s show ?thesis by (simp add: updateSummaryState_def mark_summary_base_def)
next
  case False
  show ?thesis
  proof (cases "isSummaryVariant n sb")
    case None
    have "sum_inv hb sb (v(n \<mapsto> x)) ss"
      by (rule sum_inv_same [OF inv]) (use None False in \<open>auto simp: sum_state_ok_def isSummaryVariant_None\<close>)
    with None False show ?thesis by (simp add: updateSummaryState_def)
  next
    case (Some b)
    then have b: "b \<in> set sb" "n = b @ ''_count'' \<or> n = b @ ''_sum''" by (simp_all add: isSummaryVariant_iff)
    obtain s where s: "map_of ss b = Some s" "sum_state_ok hb sb v b s" using sum_inv_lookup [OF inv b(1)] by blast
    from b(2) show ?thesis
    proof
      assume n: "n = b @ ''_count''"
      have "sum_inv hb sb (v(n \<mapsto> x)) (AList.update b (s\<lparr>s_seenCount := True, s_unusedCount := x\<rparr>) ss)"
      proof (rule sum_inv_update [OF inv b(1)])
        show "sum_state_ok hb sb (v(n \<mapsto> x)) b (s\<lparr>s_seenCount := True, s_unusedCount := x\<rparr>)"
          using s(2) ok False b(1) by (auto simp: sum_state_ok_def n)
        show "sum_state_ok hb sb (v(n \<mapsto> x)) c t" if "c \<in> set sb" "c \<noteq> b" "sum_state_ok hb sb v c t" for c t
          using that False by (auto simp: sum_state_ok_def n)
      qed
      with False Some s n show ?thesis by (simp add: updateSummaryState_def mark_summary_def)
    next
      assume n: "n = b @ ''_sum''"
      have "sum_inv hb sb (v(n \<mapsto> x)) (AList.update b (s\<lparr>s_seenSum := True, s_unusedSum := x\<rparr>) ss)"
      proof (rule sum_inv_update [OF inv b(1)])
        show "sum_state_ok hb sb (v(n \<mapsto> x)) b (s\<lparr>s_seenSum := True, s_unusedSum := x\<rparr>)"
          using s(2) ok False b(1) by (auto simp: sum_state_ok_def n)
        show "sum_state_ok hb sb (v(n \<mapsto> x)) c t" if "c \<in> set sb" "c \<noteq> b" "sum_state_ok hb sb v c t" for c t
          using that False by (auto simp: sum_state_ok_def n)
      qed
      with False Some s n show ?thesis by (simp add: updateSummaryState_def mark_summary_def)
    qed
  qed
qed

lemma sum_step_hist:
  assumes "sum_inv hb sb v ss" "v n = None" "isHistogramVariant n hb \<noteq> None"
  shows "sum_inv hb sb (v(n \<mapsto> x)) ss"
  by (rule sum_inv_same [OF assms(1)]) (use assms(2,3) in \<open>auto simp: sum_state_ok_def\<close>)

lemma plain_step:
  "v n = None \<Longrightarrow> plain_unused hb sb (v(n \<mapsto> x)) =
     (if x \<and> isHistogramVariant n hb = None \<and> n \<notin> set sb \<and> isSummaryVariant n sb = None
      then insert n (plain_unused hb sb v) else plain_unused hb sb v)"
  by (auto simp: plain_unused_def)

section \<open>Each step records one verdict\<close>

lemma updateSummary_unconcerned:
  "n \<notin> set sb \<Longrightarrow> isSummaryVariant n sb = None \<Longrightarrow> updateSummaryState n sb ss x = ss"
  by (simp add: updateSummaryState_def)

lemma updateHistogram_unconcerned: "isHistogramVariant n hb = None \<Longrightarrow> updateHistogramState n hb hs x = hs"
  by (simp add: updateHistogramState_def)

lemma used_hit_inv:
  assumes "lookup_inv e v st" "v n = None"
  shows "lookup_inv e (v(n \<mapsto> False)) (used_hit e n st)"
  using assms hist_step sum_step
  by (simp add: lookup_inv_def used_hit_def plain_step)

lemma unused_hit_inv:
  assumes "lookup_inv e v st" "v n = None"
  shows "lookup_inv e (v(n \<mapsto> True)) (unused_hit e n st)"
  using assms hist_step [of "le_hist e" v "ls_hist st" n True] sum_step [of "le_hist e" "le_sum e" v "ls_sum st" n True]
    sum_step_hist [of "le_hist e" "le_sum e" v "ls_sum st" n True]
  by (auto simp: lookup_inv_def unused_hit_def isSummaryBase_def plain_step
      updateHistogram_unconcerned updateSummary_unconcerned)

lemma metadata_hit_eq:
  "metadata_hit e mm st =
     st\<lparr>ls_hist := updateHistogramState (mm_Name mm) (le_hist e) (ls_hist st) (metricMetadataUnused mm),
        ls_sum := (if isHistogramVariant (mm_Name mm) (le_hist e) = None
                   then updateSummaryState (mm_Name mm) (le_sum e) (ls_sum st) (metricMetadataUnused mm)
                   else ls_sum st),
        ls_unused := (if metricMetadataUnused mm \<and> isHistogramVariant (mm_Name mm) (le_hist e) = None \<and>
                         mm_Name mm \<notin> set (le_sum e) \<and> isSummaryVariant (mm_Name mm) (le_sum e) = None
                      then insert (mm_Name mm) (ls_unused st) else ls_unused st)\<rparr>"
  by (simp add: metadata_hit_def Let_def updateHistogramState_def updateSummaryState_def split: option.split)

lemma metadata_hit_inv:
  assumes "lookup_inv e v st" "v (mm_Name mm) = None"
  shows "lookup_inv e (v(mm_Name mm \<mapsto> metricMetadataUnused mm)) (metadata_hit e mm st)"
  using assms hist_step sum_step sum_step_hist
  by (simp add: lookup_inv_def metadata_hit_eq plain_step)

section \<open>Sequences of verdicts\<close>

lemma fold_verdicts:
  assumes step: "\<And>v st x. keeps v st \<Longrightarrow> v (key x) = None \<Longrightarrow> keeps (v(key x \<mapsto> val x)) (f x st)"
    and "distinct (map key xs)" "\<And>x. x \<in> set xs \<Longrightarrow> v (key x) = None" "keeps v st"
  shows "keeps (v ++ map_of (map (\<lambda>x. (key x, val x)) xs)) (fold f xs st)"
  using assms(2-)
proof (induction xs arbitrary: v st)
  case (Cons x xs)
  have k1: "keeps (v(key x \<mapsto> val x)) (f x st)" using Cons.prems by (simp add: step)
  have k2: "(v(key x \<mapsto> val x)) (key y) = None" if "y \<in> set xs" for y
    using Cons.prems(1,2) that by (auto simp: image_iff dest: sym)
  have "distinct (map key xs)" using Cons.prems(1) by simp
  then have k: "keeps (v(key x \<mapsto> val x) ++ map_of (map (\<lambda>x. (key x, val x)) xs)) (fold f xs (f x st))"
    using k2 k1 by (rule Cons.IH)
  have fresh: "map_of (map (\<lambda>x. (key x, val x)) xs) (key x) = None"
    using Cons.prems(1) by (simp add: map_of_eq_None_iff image_image)
  have eq: "v(key x \<mapsto> val x) ++ map_of (map (\<lambda>x. (key x, val x)) xs)
      = v ++ map_of (map (\<lambda>x. (key x, val x)) (x # xs))"
    by (rule ext) (simp add: map_add_def fresh split: option.split)
  show ?case using k unfolding eq by (simp only: fold_simps)
qed simp

lemma map_of_const: "map_of (map (\<lambda>n. (n, c)) xs) n = (if n \<in> set xs then Some c else None)"
  by (induction xs) auto

lemma hits_keep_cache [simp]:
  "ls_cache (used_hit e n st) = ls_cache st" "ls_cache (unused_hit e n st) = ls_cache st"
  "ls_cache (metadata_hit e mm st) = ls_cache st"
  by (simp_all add: used_hit_def unused_hit_def metadata_hit_eq)

lemma fold_keeps_cache:
  "(\<And>x st. ls_cache (f x st) = ls_cache st) \<Longrightarrow> ls_cache (fold f xs st) = ls_cache st"
  by (induction xs arbitrary: st) auto

lemma processCacheHits_inv:
  assumes "lookup_inv e v st" "distinct (us @ ns)" "\<And>n. n \<in> set (us @ ns) \<Longrightarrow> v n = None"
  shows "lookup_inv e (\<lambda>n. if n \<in> set us then Some False else if n \<in> set ns then Some True else v n)
           (processCacheHits e us ns st)"
proof -
  have 1: "lookup_inv e (v ++ map_of (map (\<lambda>n. (n, False)) us)) (fold (used_hit e) us st)"
    by (rule fold_verdicts [where keeps = "lookup_inv e" and key = "\<lambda>n. n"]) (use assms in \<open>auto intro: used_hit_inv\<close>)
  have "lookup_inv e (v ++ map_of (map (\<lambda>n. (n, False)) us) ++ map_of (map (\<lambda>n. (n, True)) ns))
      (fold (unused_hit e) ns (fold (used_hit e) us st))"
    by (rule fold_verdicts [where keeps = "lookup_inv e" and key = "\<lambda>n. n", OF _ _ _ 1])
      (use assms(2,3) in \<open>auto intro: unused_hit_inv simp: map_add_None map_of_eq_None_iff image_iff\<close>)
  moreover have "v ++ map_of (map (\<lambda>n. (n, False)) us) ++ map_of (map (\<lambda>n. (n, True)) ns)
      = (\<lambda>n. if n \<in> set us then Some False else if n \<in> set ns then Some True else v n)"
    using assms(2) by (auto simp: fun_eq_iff map_add_def map_of_const)
  ultimately show ?thesis by (simp add: processCacheHits_def)
qed

lemma metadata_inv:
  assumes "lookup_inv e v st" "distinct (map mm_Name ms)" "\<And>m. m \<in> set ms \<Longrightarrow> v (mm_Name m) = None"
  shows "lookup_inv e (v ++ map_of (map (\<lambda>m. (mm_Name m, metricMetadataUnused m)) ms)) (fold (metadata_hit e) ms st)"
  by (rule fold_verdicts [where keeps = "lookup_inv e" and key = mm_Name]) (use assms in \<open>auto intro: metadata_hit_inv\<close>)

lemma partition_sets:
  assumes "partitionCacheResults batch cs = (us, ns, ms)" "distinct batch"
  shows "distinct (us @ ns) \<and> distinct ms
       \<and> set us = {n \<in> set batch. state_in cs n = StateUsed}
       \<and> set ns = {n \<in> set batch. state_in cs n = StateUnused}
       \<and> set ms = {n \<in> set batch. state_in cs n = StateUnknown}"
  using assms by (auto simp: partitionCacheResults_def)

lemma write_back_set: "(n, s) \<in> set (write_back ms) \<Longrightarrow>
    \<exists>m \<in> set ms. mm_Name m = n \<and> s = (if metricMetadataUnused m then StateUnused else StateUsed)"
proof -
  have "(n, s) \<in> set (fold (\<lambda>mm m. AList.update (mm_Name mm) (if metricMetadataUnused mm then StateUnused else StateUsed) m) ms acc)
     \<Longrightarrow> (n, s) \<in> set acc \<or> (\<exists>m \<in> set ms. mm_Name m = n \<and> s = (if metricMetadataUnused m then StateUnused else StateUsed))" for acc
  proof (induction ms arbitrary: acc)
    case (Cons m ms)
    from Cons.prems Cons.IH show ?case
      by (fastforce dest: update_in_set)
  qed simp
  then show "(n, s) \<in> set (write_back ms) \<Longrightarrow> ?thesis" unfolding write_back_def by fastforce
qed

section \<open>Reconciliation\<close>

lemma map_of_keyed: "map_of (map (\<lambda>b. (b, f b)) xs) n = (if n \<in> set xs then Some (f n) else None)"
  by (induction xs) auto

lemma reconcile_histogram_mem:
  "n \<in> reconcile_histogram (b, s) un \<longleftrightarrow>
     (if n = b then h_seenBucket s \<and> h_seenCount s \<and> h_seenSum s \<and> h_unusedBucket s \<and> h_unusedCount s \<and> h_unusedSum s
      else n \<in> un)"
  by (auto simp: reconcile_histogram_def)

lemma reconcile_summary_mem:
  "n \<in> reconcile_summary (b, s) un \<longleftrightarrow>
     (if n = b then s_seenCount s \<and> s_seenSum s \<and> s_unusedBase s \<and> s_unusedCount s \<and> s_unusedSum s
      else n \<in> un)"
  by (auto simp: reconcile_summary_def)

text \<open>Ranging over a map with distinct keys decides each key once, in whatever order.\<close>

lemma fold_decides:
  assumes step: "\<And>b s un n. n \<in> f (b, s) un \<longleftrightarrow> (if n = b then P s else n \<in> un)"
    and "map_wf m"
  shows "n \<in> fold f m un \<longleftrightarrow> (case map_of m n of Some s \<Rightarrow> P s | None \<Rightarrow> n \<in> un)"
  using assms(2)
proof (induction m arbitrary: un)
  case (Cons p m)
  obtain b s where p: "p = (b, s)" by fastforce
  have "b \<notin> fst ` set m" "map_wf m" using Cons.prems by (auto simp: map_wf_def p)
  then have "map_of m b = None" by (simp add: map_of_eq_None_iff)
  with Cons.IH [OF \<open>map_wf m\<close>] show ?case by (auto simp: p step split: option.split)
qed simp

text \<open>
  The set of unused names as a function of the verdicts: a summary base needs an unused base,
  count and sum; a histogram base an unused bucket, count and sum; any other name, unless it
  is a variant of one of the bases, an unused verdict of its own.
\<close>

definition unused_names :: "string list \<Rightarrow> string list \<Rightarrow> (string \<Rightarrow> bool option) \<Rightarrow> string set" where
  "unused_names hb sb v =
     {n. if n \<in> set sb then base_unused hb v n \<and> part_unused hb sb v (n @ ''_count'') \<and> part_unused hb sb v (n @ ''_sum'')
         else if n \<in> set hb then v (n @ ''_bucket'') = Some True \<and> v (n @ ''_count'') = Some True \<and> v (n @ ''_sum'') = Some True
         else v n = Some True \<and> isHistogramVariant n hb = None \<and> isSummaryVariant n sb = None}"

lemma reconcile_inv:
  assumes "lookup_inv e v st"
  shows "reconcileSummaryBases (ls_sum st) (reconcileHistogramBases (ls_hist st) (ls_unused st))
       = unused_names (le_hist e) (le_sum e) v"
proof (rule set_eqI)
  fix n
  let ?h = "ls_hist st" and ?s = "ls_sum st"
  have inv: "hist_inv (le_hist e) v ?h" "sum_inv (le_hist e) (le_sum e) v ?s"
    "ls_unused st = plain_unused (le_hist e) (le_sum e) v" and wf: "map_wf ?h" "map_wf ?s"
    using assms by (simp_all add: lookup_inv_def hist_inv_def sum_inv_def)
  have h: "n \<in> reconcileHistogramBases ?h (ls_unused st) \<longleftrightarrow>
      (if n \<in> set (le_hist e) then v (n @ ''_bucket'') = Some True \<and> v (n @ ''_count'') = Some True \<and> v (n @ ''_sum'') = Some True
       else n \<in> plain_unused (le_hist e) (le_sum e) v)"
    using inv(1,3) unfolding reconcileHistogramBases_def fold_decides [OF reconcile_histogram_mem wf(1)]
    by (auto simp: hist_inv_def hist_state_of_def)
  show "n \<in> reconcileSummaryBases ?s (reconcileHistogramBases ?h (ls_unused st)) \<longleftrightarrow>
      n \<in> unused_names (le_hist e) (le_sum e) v"
  proof (cases "n \<in> set (le_sum e)")
    case True
    then obtain s where "map_of ?s n = Some s" "sum_state_ok (le_hist e) (le_sum e) v n s"
      using sum_inv_lookup [OF inv(2)] by blast
    with True show ?thesis
      unfolding reconcileSummaryBases_def fold_decides [OF reconcile_summary_mem wf(2)]
      by (auto simp: unused_names_def sum_state_ok_def)
  next
    case False
    then have "map_of ?s n = None" using inv(2) by (simp add: sum_inv_def split: if_splits)
    with False h show ?thesis
      unfolding reconcileSummaryBases_def fold_decides [OF reconcile_summary_mem wf(2)]
      by (auto simp: unused_names_def plain_unused_def)
  qed
qed

lemma init_inv:
  "distinct (le_hist e) \<Longrightarrow> distinct (le_sum e) \<Longrightarrow> lookup_inv e Map.empty (init_lookup e c lc)"
  by (auto simp: lookup_inv_def init_lookup_def hist_inv_def sum_inv_def initHistogramStates_def
      initSummaryStates_def map_wf_def map_of_map_restrict map_of_eq_None_iff hist_state_of_def sum_state_ok_def
      base_unused_def part_unused_def plain_unused_def comp_def map_of_keyed)

section \<open>Lookup over a right cache and a right database\<close>

text \<open>The verdict a store gives on a name, and the cache entries that agree with it.\<close>

definition verdict :: "(string \<Rightarrow> MetricMetadata option) \<Rightarrow> string \<Rightarrow> bool option" where
  "verdict view n = map_option metricMetadataUnused (view n)"

definition usage_truth :: "(string \<Rightarrow> MetricMetadata option) \<Rightarrow> string \<Rightarrow> MetricUsageState \<Rightarrow> bool" where
  "usage_truth view n s \<longleftrightarrow>
     (s = StateUsed \<and> verdict view n = Some False) \<or> (s = StateUnused \<and> verdict view n = Some True)"

locale usage_lookup = metadata_source good query view
  for good :: "'s \<Rightarrow> bool"
    and query :: "'s \<Rightarrow> string list \<Rightarrow> go_error + MetricMetadata list"
    and view :: "'s \<Rightarrow> string \<Rightarrow> MetricMetadata option" +
  fixes get_states :: "'c \<Rightarrow> string list \<Rightarrow> (go_error + (string, MetricUsageState) go_map) \<times> 'c"
    and set_states :: "'c \<Rightarrow> (string, MetricUsageState) go_map \<Rightarrow> go_error option \<times> 'c"
    and cgood :: "'s \<Rightarrow> 'c \<Rightarrow> bool"
  assumes cache: "usage_cache get_states set_states (cgood s) (usage_truth (view s))"
begin

text \<open>The environment of a lookup: this store, and either no cache or this one in a good state.\<close>

definition runs_on :: "'s \<Rightarrow> 'c lookup_env \<Rightarrow> 'c \<Rightarrow> bool" where
  "runs_on s e c \<longleftrightarrow> good s \<and> le_query e = query s \<and>
     (le_cache e = None \<or>
      le_cache e = Some \<lparr>op_GetStates = get_states, op_SetStates = set_states\<rparr> \<and> cgood s c)"

lemma state_in_truth:
  assumes "cgood s c" "get_states c batch = (Inr cs, c')" "state_in cs n \<noteq> StateUnknown"
  shows "usage_truth (view s) n (state_in cs n)"
proof -
  obtain x where x: "map_of cs n = Some x" "state_in cs n = x"
    using assms(3) by (auto simp: state_in_def split: option.splits)
  show ?thesis
    using usage_cache.get_truth [OF cache assms(1), of batch cs n x] assms(2,3) x by simp
qed

lemma lookupCache_inv:
  assumes run: "runs_on s e (ls_cache st)" and inv: "lookup_inv e v st" and d: "distinct batch"
    and l: "lookupCache e batch st = ((us, ns, ms), st')"
  shows "runs_on s e (ls_cache st') \<and> lookup_inv e v st' \<and> distinct (us @ ns) \<and> distinct ms
       \<and> set batch = set us \<union> set ns \<union> set ms \<and> set ms \<inter> (set us \<union> set ns) = {}
       \<and> (\<forall>n \<in> set us. verdict (view s) n = Some False) \<and> (\<forall>n \<in> set ns. verdict (view s) n = Some True)"
proof (cases "le_cache e")
  case None
  with assms show ?thesis by (simp add: lookupCache_def)
next
  case (Some ops)
  with run have ops: "ops = \<lparr>op_GetStates = get_states, op_SetStates = set_states\<rparr>" and g: "cgood s (ls_cache st)"
    by (simp_all add: runs_on_def)
  obtain r c' where r: "get_states (ls_cache st) batch = (r, c')" by fastforce
  have g': "cgood s c'"
    using usage_cache.get_good [OF cache g, of batch] r by simp
  show ?thesis
  proof (cases r)
    case (Inl err)
    have "us = [] \<and> ns = [] \<and> ms = batch"
      and "ls_cache st' = c' \<and> ls_hist st' = ls_hist st \<and> ls_sum st' = ls_sum st \<and> ls_unused st' = ls_unused st"
      using Some ops r Inl l by (auto simp: lookupCache_def)
    with Some ops g' run inv d show ?thesis by (simp add: runs_on_def lookup_inv_def)
  next
    case (Inr cs)
    have part: "partitionCacheResults batch cs = (us, ns, ms)"
      and st': "ls_cache st' = c'" "ls_hist st' = ls_hist st" "ls_sum st' = ls_sum st" "ls_unused st' = ls_unused st"
      using Some ops r Inr l by (auto simp: lookupCache_def split: prod.splits)
    note sets = partition_sets [OF part d]
    have right: "state_in cs n \<noteq> StateUnknown \<Longrightarrow> usage_truth (view s) n (state_in cs n)" for n
      by (rule state_in_truth [OF g r [unfolded Inr]])
    have "verdict (view s) n = Some False" if "n \<in> set us" for n
      using right [of n] that sets by (simp add: usage_truth_def)
    moreover have "verdict (view s) n = Some True" if "n \<in> set ns" for n
      using right [of n] that sets by (simp add: usage_truth_def)
    moreover have "state_in cs n = StateUsed \<or> state_in cs n = StateUnused \<or> state_in cs n = StateUnknown" for n
      by (cases "state_in cs n") simp_all
    then have "set batch = set us \<union> set ns \<union> set ms"
      using sets by auto
    moreover have "set ms \<inter> (set us \<union> set ns) = {}"
      using sets by auto
    moreover have "runs_on s e (ls_cache st')" "lookup_inv e v st'"
      using run inv g' Some ops st' by (simp_all add: runs_on_def lookup_inv_def)
    moreover have "distinct (us @ ns)" "distinct ms" using sets by blast+
    ultimately show ?thesis by blast
  qed
qed

lemma writeBack_keeps:
  assumes "runs_on s e (ls_cache st)" "lookup_inv e v st"
    and "\<And>n x. (n, x) \<in> set ws \<Longrightarrow> usage_truth (view s) n x"
  shows "runs_on s e (ls_cache (writeBackToCache e ws st)) \<and> lookup_inv e v (writeBackToCache e ws st)"
proof (cases "le_cache e = None \<or> ws = []")
  case True
  with assms show ?thesis by (auto simp: writeBackToCache_def split: option.split)
next
  case False
  with assms(1) have ops: "le_cache e = Some \<lparr>op_GetStates = get_states, op_SetStates = set_states\<rparr>"
    and g: "cgood s (ls_cache st)" by (auto simp: runs_on_def)
  obtain r c' where r: "set_states (ls_cache st) ws = (r, c')" by fastforce
  have "cgood s c'"
    using usage_cache.set_good [OF cache g, of ws] assms(3) r by simp
  with False ops r assms(1,2) show ?thesis
    by (auto simp: writeBackToCache_def runs_on_def lookup_inv_def split: option.split)
qed

lemma processDBMisses_inv:
  assumes run: "runs_on s e (ls_cache st)" and inv: "lookup_inv e v st"
    and new: "\<And>n. n \<in> set ms \<Longrightarrow> v n = None"
    and p: "processDBMisses e ms st = (True, st')"
  shows "runs_on s e (ls_cache st') \<and> lookup_inv e (\<lambda>n. if n \<in> set ms then verdict (view s) n else v n) st'"
proof -
  have s: "good s" "le_query e = query s" using run by (simp_all add: runs_on_def)
  obtain metas where q: "query s ms = Inr metas" and st': "st' = writeBackToCache e (write_back metas) (fold (metadata_hit e) metas st)"
    using p s(2) by (auto simp: processDBMisses_def processMetadata_def split: sum.splits)
  have rows: "m \<in> set metas \<longleftrightarrow> mm_Name m \<in> set ms \<and> view s (mm_Name m) = Some m" for m
    by (rule query_exact [OF s(1) q])
  have "lookup_inv e (v ++ map_of (map (\<lambda>m. (mm_Name m, metricMetadataUnused m)) metas)) (fold (metadata_hit e) metas st)"
    by (rule metadata_inv [OF inv query_distinct [OF s(1) q]]) (simp add: new rows)
  moreover have "v ++ map_of (map (\<lambda>m. (mm_Name m, metricMetadataUnused m)) metas)
      = (\<lambda>n. if n \<in> set ms then verdict (view s) n else v n)"
  proof
    fix n
    have "map_of (map (\<lambda>m. (mm_Name m, metricMetadataUnused m)) metas) n
        = map_option metricMetadataUnused (map_of (map (\<lambda>m. (mm_Name m, m)) metas) n)"
      by (induction metas) auto
    then show "(v ++ map_of (map (\<lambda>m. (mm_Name m, metricMetadataUnused m)) metas)) n
        = (if n \<in> set ms then verdict (view s) n else v n)"
      using new [of n] by (simp add: map_add_def answer_lookup [OF s(1) q] verdict_def split: option.split)
  qed
  moreover have "usage_truth (view s) n x" if "(n, x) \<in> set (write_back metas)" for n x
    using write_back_set [OF that] rows by (auto simp: usage_truth_def verdict_def split: if_splits)
  moreover have "runs_on s e (ls_cache (fold (metadata_hit e) metas st))"
    using run by (simp add: fold_keeps_cache)
  ultimately show ?thesis using writeBack_keeps st' by simp
qed

lemma flush_inv:
  assumes run: "runs_on s e (ls_cache st)" and inv: "lookup_inv e v st" and d: "distinct batch"
    and new: "\<And>n. n \<in> set batch \<Longrightarrow> v n = None" and f: "flush e batch st = (True, st')"
  shows "runs_on s e (ls_cache st') \<and>
         lookup_inv e (\<lambda>n. if n \<in> set batch then verdict (view s) n else v n) st'"
proof (cases "batch = []")
  case True
  with assms show ?thesis by (simp add: flush_def)
next
  case False
  obtain us ns ms st1 where l: "lookupCache e batch st = ((us, ns, ms), st1)" by (metis prod_cases3 prod.exhaust)
  note c = lookupCache_inv [OF run inv d l]
  define st2 where "st2 = processCacheHits e us ns st1"
  define w where "w = (\<lambda>n. if n \<in> set us then Some False else if n \<in> set ns then Some True else v n)"
  have st2: "runs_on s e (ls_cache st2)" "lookup_inv e w st2"
    using c processCacheHits_inv [of e v st1 us ns] new
    by (auto simp: st2_def w_def processCacheHits_def fold_keeps_cache)
  have w: "(\<lambda>n. if n \<in> set ms then verdict (view s) n else w n)
      = (\<lambda>n. if n \<in> set batch then verdict (view s) n else v n)"
    using c by (auto simp: w_def fun_eq_iff)
  show ?thesis
  proof (cases "ms = []")
    case True
    with False f l have "st' = st2" by (simp add: flush_def st2_def Let_def)
    moreover have "w = (\<lambda>n. if n \<in> set batch then verdict (view s) n else v n)"
      using w True by simp
    ultimately show ?thesis using st2 by simp
  next
    case nonempty: False
    with False f l have p: "processDBMisses e ms st2 = (True, st')" by (simp add: flush_def st2_def Let_def)
    have "w n = None" if "n \<in> set ms" for n using that c new [of n] by (auto simp: w_def)
    then show ?thesis using processDBMisses_inv [OF st2 _ p] w by simp
  qed
qed

lemma stream_inv:
  assumes "runs_on s e (ls_cache st)" "lookup_inv e v st" "distinct (batch @ names)"
    and "\<And>n. n \<in> set (batch @ names) \<Longrightarrow> v n = None" "stream e batch names st = (True, st')"
  shows "runs_on s e (ls_cache st') \<and>
         lookup_inv e (\<lambda>n. if n \<in> set (batch @ names) then verdict (view s) n else v n) st'"
  using assms
proof (induction e batch names st arbitrary: v rule: stream.induct)
  case (1 e batch st)
  then show ?case using flush_inv by simp
next
  case (2 e batch n names st)
  let ?b = "batch @ [n]"
  show ?case
  proof (cases "length ?b = le_chunk e")
    case False
    with "2.IH"(2) [OF refl False "2.prems"(1,2)] "2.prems"(3-) show ?thesis by simp
  next
    case True
    then obtain st1 where f: "flush e ?b st = (True, st1)" and s: "stream e [] names st1 = (True, st')"
      using "2.prems"(5) by (auto simp: Let_def split: prod.splits bool.splits)
    define w where "w = (\<lambda>m. if m \<in> set ?b then verdict (view s) m else v m)"
    have "runs_on s e (ls_cache st1) \<and> lookup_inv e w st1"
      unfolding w_def by (rule flush_inv [OF "2.prems"(1,2) _ _ f]) (use "2.prems"(3,4) in auto)
    then have st1: "runs_on s e (ls_cache st1)" "lookup_inv e w st1" by simp_all
    have "runs_on s e (ls_cache st') \<and>
        lookup_inv e (\<lambda>m. if m \<in> set ([] @ names) then verdict (view s) m else w m) st'"
      by (rule "2.IH"(1) [OF refl True f [symmetric] _ st1]) (use "2.prems"(3,4) s in \<open>auto simp: w_def\<close>)
    moreover have "(\<lambda>m. if m \<in> set ([] @ names) then verdict (view s) m else w m)
        = (\<lambda>m. if m \<in> set (batch @ n # names) then verdict (view s) m else v m)"
      by (auto simp: w_def fun_eq_iff)
    ultimately show ?thesis by simp
  qed
qed

text \<open>The result of a lookup that succeeds, and the state it leaves the cache in.\<close>

lemma lookup_result:
  assumes "runs_on s e c" "distinct (le_hist e)" "distinct (le_sum e)" "distinct names"
    and "lookupUnused e names c lc = (Some unused, c', lc')"
  shows "unused = unused_names (le_hist e) (le_sum e) (\<lambda>n. if n \<in> set names then verdict (view s) n else None)
       \<and> runs_on s e c'"
proof -
  obtain st where st: "stream e [] names (init_lookup e c lc) = (True, st)"
    and u: "unused = reconcileSummaryBases (ls_sum st) (reconcileHistogramBases (ls_hist st) (ls_unused st))"
      "c' = ls_cache st"
    using assms(5) by (auto simp: lookupUnused_def split: prod.splits bool.splits)
  have "ls_cache (init_lookup e c lc) = c" by (simp add: init_lookup_def)
  with stream_inv [OF _ init_inv [OF assms(2,3)] _ _ st] assms(1,4)
  have "runs_on s e (ls_cache st)"
    "lookup_inv e (\<lambda>n. if n \<in> set names then verdict (view s) n else None) st" by auto
  with u show ?thesis using reconcile_inv by auto
qed

end

text \<open>A lookup fails only when a query of the database fails.\<close>

lemma flush_total:
  assumes "\<And>ns. \<not> isl (le_query e ns)"
  shows "fst (flush e batch st)"
  using assms by (auto simp: flush_def processDBMisses_def processMetadata_def Let_def
      split: prod.split sum.split) (metis isl_def)

lemma stream_total: "(\<And>ns. \<not> isl (le_query e ns)) \<Longrightarrow> fst (stream e batch names st)"
proof (induction e batch names st rule: stream.induct)
  case (1 e batch st)
  then show ?case by (simp add: flush_total)
next
  case (2 e batch n names st)
  have "fst (flush e (batch @ [n]) st)" by (rule flush_total [OF "2.prems"])
  then obtain st' where "flush e (batch @ [n]) st = (True, st')" by (cases "flush e (batch @ [n]) st") auto
  with "2.IH" "2.prems" show ?case by (auto simp: Let_def)
qed

text \<open>Without a cache, a database that always fails makes every lookup of some name fail.\<close>

lemma flush_fails:
  assumes "le_cache e = None" "\<And>ns. ns \<noteq> [] \<Longrightarrow> isl (le_query e ns)" "batch \<noteq> []"
  shows "\<not> fst (flush e batch st)"
proof -
  obtain err where "le_query e batch = Inl err" using assms(2) [OF assms(3)] by (auto simp: isl_def)
  with assms(1,3) show ?thesis
    by (simp add: flush_def lookupCache_def processCacheHits_def processDBMisses_def)
qed

lemma stream_fails:
  assumes "le_cache e = None" "\<And>ns. ns \<noteq> [] \<Longrightarrow> isl (le_query e ns)" "batch @ names \<noteq> []"
  shows "\<not> fst (stream e batch names st)"
  using assms
proof (induction e batch names st rule: stream.induct)
  case (1 e batch st)
  then show ?case by (simp add: flush_fails)
next
  case (2 e batch n names st)
  have "\<not> fst (flush e (batch @ [n]) st)" by (rule flush_fails [OF "2.prems"(1,2)]) simp_all
  then obtain st' where "flush e (batch @ [n]) st = (False, st')" by (cases "flush e (batch @ [n]) st") auto
  with "2.IH"(2) "2.prems"(1,2) show ?case by (auto simp: Let_def)
qed

lemma lookupUnused_total:
  "(\<And>ns. \<not> isl (le_query e ns)) \<Longrightarrow> \<exists>unused c' lc'. lookupUnused e names c lc = (Some unused, c', lc')"
  using stream_total [of e "[]" names "init_lookup e c lc"]
  by (auto simp: lookupUnused_def split: prod.split bool.split)

section \<open>The lookup of the program\<close>

text \<open>The SQLite store and the Redis cache provide what the lookup relies on.\<close>

interpretation ingester: usage_lookup tables_wf "\<lambda>t names. GetSeriesMetadataByNames qerr t names []" catalog_view
  "GetStates exec c" "SetStates exec c" "\<lambda>t. redis_good exec c (I t) (usage_truth (catalog_view t))"
  for qerr exec c I
  by unfold_locales

definition redis_ops :: "'r redis \<Rightarrow> redisMetricUsageCache \<Rightarrow> 'r cache_ops" where
  "redis_ops exec c = \<lparr>op_GetStates = GetStates exec c, op_SetStates = SetStates exec c\<rparr>"

text \<open>A lookup over given tables, with or without a Redis cache whose entries agree with them.\<close>

definition sound_cache :: "'r lookup_env \<Rightarrow> tables \<Rightarrow> 'r \<Rightarrow> bool" where
  "sound_cache e t r \<longleftrightarrow> le_cache e = None \<or>
     (\<exists>exec c I. le_cache e = Some (redis_ops exec c) \<and> redis_good exec c I (usage_truth (catalog_view t)) r)"

lemma sound_runs_on:
  assumes "tables_wf t" "le_query e = (\<lambda>ns. GetSeriesMetadataByNames qerr t ns [])" "sound_cache e t r"
  shows "\<exists>exec c I. ingester.runs_on qerr exec c I t e r"
proof (cases "le_cache e")
  case None
  with assms show ?thesis by (simp add: ingester.runs_on_def)
next
  case (Some ops)
  then obtain exec c I where "le_cache e = Some (redis_ops exec c)"
    "redis_good exec c I (usage_truth (catalog_view t)) r"
    using assms(3) by (auto simp: sound_cache_def)
  then have "ingester.runs_on qerr exec c (\<lambda>_. I) t e r"
    using assms(1,2) by (simp add: ingester.runs_on_def redis_ops_def)
  then show ?thesis by (intro exI)
qed

lemma lookup_over_tables:
  assumes "tables_wf t" "le_query e = (\<lambda>ns. GetSeriesMetadataByNames qerr t ns [])" "sound_cache e t r"
    and "distinct (le_hist e)" "distinct (le_sum e)" "distinct names"
    and "lookupUnused e names r lc = (Some unused, r', lc')"
  shows "unused = unused_names (le_hist e) (le_sum e)
           (\<lambda>n. if n \<in> set names then verdict (catalog_view t) n else None)"
  using sound_runs_on [OF assms(1-3)] ingester.lookup_result [OF _ assms(4-7)] by blast

lemma query_total: "\<not> isl (GetSeriesMetadataByNames None t ns job)"
  by (simp add: GetSeriesMetadataByNames_def)

text \<open>
  C3. The lookup computes the unused set exactly. For every order of the names, every chunk
  size, and with a cache whose entries agree with the database or without one, a healthy
  database gives a result, and it is the set determined by the usage rows of the single names:
  reconciled for the bases of histograms and summaries, and never a variant of one of them.
\<close>

theorem lookupUnused_exact:
  assumes "tables_wf t" "le_query e = (\<lambda>ns. GetSeriesMetadataByNames None t ns [])" "sound_cache e t r"
    and "distinct (le_hist e)" "distinct (le_sum e)" "distinct names"
  shows "fst (lookupUnused e names r lc) = Some (unused_names (le_hist e) (le_sum e)
           (\<lambda>n. if n \<in> set names then verdict (catalog_view t) n else None))"
proof -
  obtain unused r' lc' where l: "lookupUnused e names r lc = (Some unused, r', lc')"
    using lookupUnused_total [of e names r lc] assms(2) query_total by auto
  from lookup_over_tables [OF assms l] l show ?thesis by simp
qed

text \<open>
  The cache is transparent: a lookup through a Redis cache whose entries agree with the
  database, failing calls included, gives the same set as a lookup without a cache.
\<close>

lemma lookupUnused_cache_transparent:
  assumes "tables_wf t" "redis_good exec c I (usage_truth (catalog_view t)) r"
    and "distinct hb" "distinct sb" "distinct names"
  shows "fst (lookupUnused \<lparr>le_cache = Some (redis_ops exec c), le_query = (\<lambda>ns. GetSeriesMetadataByNames None t ns []),
                 le_hist = hb, le_sum = sb, le_chunk = k\<rparr> names r lc)
       = fst (lookupUnused \<lparr>le_cache = None, le_query = (\<lambda>ns. GetSeriesMetadataByNames None t ns []),
                 le_hist = hb, le_sum = sb, le_chunk = k'\<rparr> names r lc')"
    (is "fst (lookupUnused ?e names r lc) = fst (lookupUnused ?e' names r lc')")
proof -
  obtain u1 r1 lc1 where 1: "lookupUnused ?e names r lc = (Some u1, r1, lc1)"
    using lookupUnused_total [of ?e names r lc] query_total by auto
  obtain u2 r2 lc2 where 2: "lookupUnused ?e' names r lc' = (Some u2, r2, lc2)"
    using lookupUnused_total [of ?e' names r lc'] query_total by auto
  have "sound_cache ?e t r" "sound_cache ?e' t r"
    using assms(2) by (auto simp: sound_cache_def)
  then have "u1 = u2"
    using lookup_over_tables [OF assms(1) _ _ _ _ assms(5) 1] lookup_over_tables [OF assms(1) _ _ _ _ assms(5) 2] assms(3,4)
    by simp
  with 1 2 show ?thesis by simp
qed

lemma kv_keeps: "redis_keeps kv_exec (\<lambda>m. \<forall>k v. m k = Some v \<longrightarrow> Q k v) Q"
  by (auto simp: redis_keeps_def split: option.splits)

text \<open>A store that knows one metric nothing has used yet, and an empty cache in front of it.\<close>

definition sample_tables :: tables where
  "sample_tables = snd (UpsertMetricsCatalog no_faults 0 empty_tables
     [\<lparr>ci_Name = ''up'', ci_Type = ''gauge'', ci_Help = [], ci_Unit = []\<rparr>])"

lemma sample_tables_wf: "tables_wf sample_tables"
  by (simp add: sample_tables_def UpsertMetricsCatalog_def tables_wf_def empty_tables_def upsert_catalog_def map_wf_def)

lemma sample_verdict: "verdict (catalog_view sample_tables) n = (if n = ''up'' then Some True else None)"
  by (simp add: sample_tables_def UpsertMetricsCatalog_def upsert_catalog_def empty_tables_def verdict_def
      catalog_view_def metadata_row_def metricMetadataUnused_def)

lemma sample_redis_good:
  "redis_good kv_exec sample_cache (\<lambda>m. \<forall>k v. m k = Some v \<longrightarrow> usage_entry truth k v) truth Map.empty"
  by (simp add: redis_good_def sample_cache_wf kv_keeps)

theorem lookupUnused_exact_witness:
  "fst (lookupUnused \<lparr>le_cache = Some (redis_ops kv_exec sample_cache),
          le_query = (\<lambda>ns. GetSeriesMetadataByNames None sample_tables ns []),
          le_hist = [''lat''], le_sum = [], le_chunk = 2\<rparr>
        [''up'', ''gone'', ''lat''] Map.empty zero_counters) = Some {''up''}"
  (is "fst (lookupUnused ?e _ _ _) = _")
proof -
  have s: "sound_cache ?e sample_tables Map.empty"
    using sample_redis_good unfolding sound_cache_def by fastforce
  show ?thesis
    by (subst lookupUnused_exact [OF sample_tables_wf _ s])
      (auto simp: unused_names_def sample_verdict)
qed

lemma lookupUnused_cache_transparent_witness:
  "fst (lookupUnused \<lparr>le_cache = Some (redis_ops kv_exec sample_cache),
          le_query = (\<lambda>ns. GetSeriesMetadataByNames None sample_tables ns []),
          le_hist = [], le_sum = [], le_chunk = 500\<rparr> [''up'', ''gone''] Map.empty zero_counters)
   = fst (lookupUnused \<lparr>le_cache = None,
          le_query = (\<lambda>ns. GetSeriesMetadataByNames None sample_tables ns []),
          le_hist = [], le_sum = [], le_chunk = 1\<rparr> [''up'', ''gone''] (Map.empty :: string \<Rightarrow> int option) zero_counters)"
  using lookupUnused_cache_transparent [OF sample_tables_wf
      sample_redis_good [of "usage_truth (catalog_view sample_tables)"], of "[]" "[]" "[''up'', ''gone'']" 500 zero_counters 1 zero_counters]
  by simp

end
