(* ===== verification/Catalog_Seen.thy ===== *)
theory Catalog_Seen
  imports Metric_Cache
begin

text \<open>
  The Redis cache of recently flushed catalog names
  (\<open>internal/ingester/otlp/catalog_seen_cache.go\<close>): one key per name with a time to live.
  The server is the argument \<open>exec\<close>, as for the usage cache.
\<close>

record redisCatalogSeenCache =
  sc_maxBatchSize :: nat

text \<open>The argument \<open>clientErr\<close> is what the client library reports when it connects.\<close>

definition newRedisCatalogSeenCache ::
  "go_error option \<Rightarrow> string \<Rightarrow> int \<Rightarrow> go_error + redisCatalogSeenCache" where
  "newRedisCatalogSeenCache clientErr addr batchSize =
     (if addr = [] then Inl ''redis addr is required''
      else (case clientErr of
              Some err \<Rightarrow> Inl (''failed to create redis client for catalog seen cache: '' @ err)
            | None \<Rightarrow> Inr \<lparr>sc_maxBatchSize = (if batchSize \<le> 0 then 100 else nat batchSize)\<rparr>))"

lemma newRedisCatalogSeenCache_wf:
  "newRedisCatalogSeenCache clientErr addr batchSize = Inr c \<Longrightarrow> 0 < sc_maxBatchSize c"
  by (auto simp: newRedisCatalogSeenCache_def split: if_splits option.splits)

definition seen_key :: "string \<Rightarrow> string" where
  "seen_key name = ''catalog_seen:'' @ name"

lemma seen_key_inj [simp]: "seen_key a = seen_key b \<longleftrightarrow> a = b"
  by (simp add: seen_key_def)

lemma seen_key_cache_key [simp]: "seen_key a \<noteq> cache_key b"
  by (simp add: seen_key_def cache_key_def)

text \<open>A reply that is not an integer counts as not seen.\<close>

definition seen_reply :: "redis_result \<Rightarrow> bool" where
  "seen_reply res = (case AsInt64 res of Inl err \<Rightarrow> False | Inr n \<Rightarrow> n > 0)"

definition has_batch ::
  "'r redis \<Rightarrow> string list \<Rightarrow> (string, bool) go_map \<times> 'r \<Rightarrow> (string, bool) go_map \<times> 'r" where
  "has_batch exec batch = (\<lambda>(out, r).
     let (results, r') = DoMulti exec r (map (\<lambda>name. EXISTS (seen_key name)) batch) in
     (fold (\<lambda>(name, res) m. AList.update name (seen_reply res) m) (zip batch results) out, r'))"

text \<open>The error result is always nil.\<close>

definition HasMany :: "'r redis \<Rightarrow> redisCatalogSeenCache \<Rightarrow> 'r \<Rightarrow> string list \<Rightarrow> (string, bool) go_map \<times> 'r" where
  "HasMany exec c r names =
     (if names = [] then ([], r) else fold (has_batch exec) (batches (sc_maxBatchSize c) names) ([], r))"

definition redisTTLSeconds :: "duration \<Rightarrow> int" where
  "redisTTLSeconds ttl =
     (if ttl \<le> 0 then 3600
      else (let s = ttl sdiv second; s' = (if ttl smod second \<noteq> 0 then s + 1 else s)
            in if s' < 1 then 1 else s'))"

definition MarkMany ::
  "'r redis \<Rightarrow> redisCatalogSeenCache \<Rightarrow> 'r \<Rightarrow> string list \<Rightarrow> duration \<Rightarrow> go_error option \<times> 'r" where
  "MarkMany exec c r names ttl =
     (if names = [] then (None, r)
      else (let ttlSeconds = redisTTLSeconds ttl in
            fold (\<lambda>batch. set_batch exec (map (\<lambda>name. SETEX (seen_key name) 1 ttlSeconds) batch))
              (batches (sc_maxBatchSize c) names) (None, r)))"

section \<open>Expiry\<close>

text \<open>
  The expiry of a seen mark is the configured time rounded up to whole seconds: a name is
  suppressed at least as long as configured and less than a second longer.
\<close>

lemma redisTTLSeconds_ceiling:
  assumes "0 < ttl"
  shows "1 \<le> redisTTLSeconds ttl \<and> ttl \<le> redisTTLSeconds ttl * second \<and> redisTTLSeconds ttl * second < ttl + second"
proof -
  have sec: "0 < second" by (simp add: duration_defs)
  have dm: "ttl smod second = ttl mod second" using assms sec by (simp add: signed_modulo_int_def)
  have sd: "ttl sdiv second = ttl div second" using assms sec by (simp add: sdiv_pos)
  define q where "q = ttl div second"
  define m where "m = ttl mod second"
  have "ttl = q * second + m" by (simp add: q_def m_def)
  moreover have m: "0 \<le> m" "m < second" using sec by (simp_all add: m_def)
  moreover have q: "0 \<le> q" using assms sec by (simp add: q_def pos_imp_zdiv_nonneg_iff)
  moreover have "0 < q" if "m = 0"
    using calculation(1) q assms that by (cases "q = 0") simp_all
  moreover have "redisTTLSeconds ttl = (if m = 0 then if q < 1 then 1 else q else q + 1)"
    using assms q by (simp add: redisTTLSeconds_def Let_def dm sd q_def m_def)
  ultimately show ?thesis by (simp add: distrib_right)
qed

lemma redisTTLSeconds_ceiling_witness:
  "1 \<le> redisTTLSeconds (1500 * millisecond) \<and> 1500 * millisecond \<le> redisTTLSeconds (1500 * millisecond) * second
   \<and> redisTTLSeconds (1500 * millisecond) * second < 1500 * millisecond + second"
  by (rule redisTTLSeconds_ceiling) (simp add: duration_defs)

section \<open>Batches do not matter\<close>

lemma has_batches: "fold (has_batch exec) bs (out, r) = has_batch exec (concat bs) (out, r)"
proof (induction bs arbitrary: out r)
  case Nil
  then show ?case by (simp add: has_batch_def)
next
  case (Cons b bs)
  obtain xs r1 where 1: "DoMulti exec r (map (\<lambda>name. EXISTS (seen_key name)) b) = (xs, r1)" by fastforce
  obtain ys r2 where 2: "DoMulti exec r1 (map (\<lambda>name. EXISTS (seen_key name)) (concat bs)) = (ys, r2)" by fastforce
  have len: "length xs = length b"
    using DoMulti_length [of exec r "map (\<lambda>name. EXISTS (seen_key name)) b"] 1 by simp
  show ?case
    using Cons.IH 1 2 len by (simp add: has_batch_def DoMulti_append)
qed

lemma HasMany_unbatched: "0 < sc_maxBatchSize c \<Longrightarrow> HasMany exec c r names = has_batch exec names ([], r)"
  by (simp add: HasMany_def has_batches concat_batches) (simp add: has_batch_def)

lemma MarkMany_unbatched:
  assumes "0 < sc_maxBatchSize c"
  shows "MarkMany exec c r names ttl =
     set_batch exec (map (\<lambda>name. SETEX (seen_key name) 1 (redisTTLSeconds ttl)) names) (None, r)"
proof -
  let ?cmd = "\<lambda>name. SETEX (seen_key name) 1 (redisTTLSeconds ttl)"
  have "fold (\<lambda>batch. set_batch exec (map ?cmd batch)) bs (e, r) = fold (set_batch exec) (map (map ?cmd) bs) (e, r)" for bs e r
    by (induction bs arbitrary: e r) (auto split: prod.splits, metis surj_pair)
  then show ?thesis
    using assms by (simp add: MarkMany_def Let_def set_batches concat_batches flip: map_concat)
      (auto simp: set_batch_def first_error_def)
qed

section \<open>The contract of a seen cache\<close>

text \<open>
  \<open>CatalogSeenCache\<close> as the catalog buffer relies on it. \<open>flushed n\<close> says that \<open>n\<close> is in the
  catalog. A good cache only reports names that are; marking such names keeps it good.
\<close>

locale seen_cache =
  fixes has_many :: "'c \<Rightarrow> string list \<Rightarrow> (string, bool) go_map \<times> 'c"
    and mark_many :: "'c \<Rightarrow> string list \<Rightarrow> duration \<Rightarrow> go_error option \<times> 'c"
    and good :: "(string \<Rightarrow> bool) \<Rightarrow> 'c \<Rightarrow> bool"
  assumes has_sound: "good flushed c \<Longrightarrow> map_of (fst (has_many c ns)) n = Some True \<Longrightarrow> flushed n"
    and has_good: "good flushed c \<Longrightarrow> good flushed (snd (has_many c ns))"
    and mark_good: "good flushed c \<Longrightarrow> (\<And>n. n \<in> set ns \<Longrightarrow> flushed n) \<Longrightarrow> good flushed (snd (mark_many c ns ttl))"
    and good_mono: "good flushed c \<Longrightarrow> (\<And>n. flushed n \<Longrightarrow> flushed' n) \<Longrightarrow> good flushed' c"

text \<open>
  What is relied on of the server: \<open>EXISTS\<close> only reports keys that were set. \<open>I Q\<close> is the
  invariant "every stored key satisfies \<open>Q\<close>".
\<close>

definition redis_exists :: "'r redis \<Rightarrow> ((string \<Rightarrow> bool) \<Rightarrow> 'r \<Rightarrow> bool) \<Rightarrow> bool" where
  "redis_exists exec I \<longleftrightarrow>
     (\<forall>Q r k. I Q r \<longrightarrow> I Q (snd (exec r (GET k))) \<and> I Q (snd (exec r (EXISTS k)))) \<and>
     (\<forall>Q r k v t. I Q r \<longrightarrow> Q k \<longrightarrow> I Q (snd (exec r (SETEX k v t)))) \<and>
     (\<forall>Q r k v. I Q r \<longrightarrow> AsInt64 (fst (exec r (EXISTS k))) = Inr v \<longrightarrow> v > 0 \<longrightarrow> Q k) \<and>
     (\<forall>Q Q' r. I Q r \<longrightarrow> (\<forall>k. Q k \<longrightarrow> Q' k) \<longrightarrow> I Q' r)"

definition seen_entry :: "(string \<Rightarrow> bool) \<Rightarrow> string \<Rightarrow> bool" where
  "seen_entry flushed k \<longleftrightarrow> (\<forall>n. k = seen_key n \<longrightarrow> flushed n)"

definition redis_seen_good ::
  "'r redis \<Rightarrow> redisCatalogSeenCache \<Rightarrow> ((string \<Rightarrow> bool) \<Rightarrow> 'r \<Rightarrow> bool) \<Rightarrow> (string \<Rightarrow> bool) \<Rightarrow> 'r \<Rightarrow> bool" where
  "redis_seen_good exec c I flushed r \<longleftrightarrow>
     0 < sc_maxBatchSize c \<and> redis_exists exec I \<and> I (seen_entry flushed) r"

lemma exists_step:
  assumes "redis_exists exec I" "I Q r" "\<And>k v t. cmd = SETEX k v t \<Longrightarrow> Q k"
  shows "I Q (snd (exec r cmd))"
  using assms by (cases cmd) (simp_all add: redis_exists_def)

lemma exists_DoMulti:
  assumes "redis_exists exec I" "I Q r" "\<And>k v t. SETEX k v t \<in> set cmds \<Longrightarrow> Q k"
  shows "I Q (snd (DoMulti exec r cmds))"
  using assms(2,3)
proof (induction cmds arbitrary: r)
  case (Cons cmd cmds)
  have "I Q (snd (exec r cmd))"
    by (rule exists_step [OF assms(1) Cons.prems(1)]) (auto intro: Cons.prems(2))
  then have "I Q (snd (DoMulti exec (snd (exec r cmd)) cmds))"
    by (rule Cons.IH) (auto intro: Cons.prems(2))
  then show ?case by (simp add: snd_DoMulti_Cons del: DoMulti.simps)
qed simp

lemma exists_positive:
  "redis_exists exec I \<Longrightarrow> I Q r \<Longrightarrow> AsInt64 (fst (exec r (EXISTS k))) = Inr v \<Longrightarrow> v > 0 \<Longrightarrow> Q k"
  unfolding redis_exists_def by meson

lemma exists_reads:
  assumes "redis_exists exec I" "I Q r"
    and "(n, res) \<in> set (zip names (fst (DoMulti exec r (map (\<lambda>n. EXISTS (seen_key n)) names))))" "seen_reply res"
  shows "Q (seen_key n)"
  using assms(2-)
proof (induction names arbitrary: r)
  case (Cons m names)
  have "I Q (snd (exec r (EXISTS (seen_key m))))"
    by (rule exists_step [OF assms(1) Cons.prems(1)]) simp
  moreover have "Q (seen_key m)" if "seen_reply (fst (exec r (EXISTS (seen_key m))))"
    using that exists_positive [OF assms(1) Cons.prems(1)] by (auto simp: seen_reply_def split: sum.splits)
  ultimately show ?case
    using Cons.IH Cons.prems by (auto simp: fst_DoMulti_Cons simp del: DoMulti.simps)
qed simp

interpretation redis_seen: seen_cache "HasMany exec c" "MarkMany exec c" "redis_seen_good exec c I"
  for exec c I
proof
  fix flushed r ns n
  assume g: "redis_seen_good exec c I flushed r" and n: "map_of (fst (HasMany exec c r ns)) n = Some True"
  let ?z = "zip ns (fst (DoMulti exec r (map (\<lambda>n. EXISTS (seen_key n)) ns)))"
  have "fst (HasMany exec c r ns) = fold (\<lambda>(name, res) m. AList.update name (seen_reply res) m) ?z []"
    using g by (simp add: HasMany_unbatched redis_seen_good_def has_batch_def split: prod.split)
  then obtain res where "(n, res) \<in> set ?z" "seen_reply res"
    using n fold_update_range [of seen_reply ?z "[]" n True] by auto
  then have "seen_entry flushed (seen_key n)"
    using g exists_reads [of exec I "seen_entry flushed" r n res ns] by (simp add: redis_seen_good_def)
  then show "flushed n" by (simp add: seen_entry_def)
next
  fix flushed r ns
  assume g: "redis_seen_good exec c I flushed r"
  have "I (seen_entry flushed) (snd (DoMulti exec r (map (\<lambda>n. EXISTS (seen_key n)) ns)))"
    by (rule exists_DoMulti [where I = I]) (use g in \<open>auto simp: redis_seen_good_def\<close>)
  with g show "redis_seen_good exec c I flushed (snd (HasMany exec c r ns))"
    by (auto simp: redis_seen_good_def HasMany_unbatched has_batch_def split: prod.splits)
next
  fix flushed r ns ttl
  assume g: "redis_seen_good exec c I flushed r" and f: "\<And>n. n \<in> set ns \<Longrightarrow> flushed n"
  have "I (seen_entry flushed) (snd (DoMulti exec r (map (\<lambda>n. SETEX (seen_key n) 1 (redisTTLSeconds ttl)) ns)))"
    by (rule exists_DoMulti [where I = I]) (use g f in \<open>auto simp: redis_seen_good_def seen_entry_def\<close>)
  with g show "redis_seen_good exec c I flushed (snd (MarkMany exec c r ns ttl))"
    by (auto simp: redis_seen_good_def MarkMany_unbatched set_batch_def split: prod.splits)
next
  fix flushed flushed' :: "string \<Rightarrow> bool" and r
  assume g: "redis_seen_good exec c I flushed r" and "\<And>n. flushed n \<Longrightarrow> flushed' n"
  then have "\<forall>k. seen_entry flushed k \<longrightarrow> seen_entry flushed' k" by (simp add: seen_entry_def)
  with g have "I (seen_entry flushed') r" unfolding redis_seen_good_def redis_exists_def by meson
  with g show "redis_seen_good exec c I flushed' r" by (simp add: redis_seen_good_def)
qed

text \<open>The writes of the usage cache go to other keys and do not disturb the seen marks.\<close>

lemma SetStates_keeps_seen:
  assumes "cache_wf c" "redis_seen_good exec sc I flushed r"
  shows "redis_seen_good exec sc I flushed (snd (SetStates exec c r states))"
proof -
  have "I (seen_entry flushed) (snd (DoMulti exec r (List.map_filter (set_cmd c) states)))"
  proof (rule exists_DoMulti [where I = I])
    show "seen_entry flushed k" if "SETEX k v t \<in> set (List.map_filter (set_cmd c) states)" for k v t
      using set_cmds_written [OF that] seen_key_cache_key by (auto simp: seen_entry_def dest: sym)
  qed (use assms in \<open>auto simp: redis_seen_good_def\<close>)
  with assms show ?thesis
    by (auto simp: redis_seen_good_def SetStates_unbatched set_batch_def split: prod.splits)
qed

end
