(* ===== verification/Catalog_Buffer.thy ===== *)
theory Catalog_Buffer
  imports Otlp_Data Catalog_Seen Sqlite_Store
begin

text \<open>
  The buffer of catalog entries seen in OTLP traffic
  (\<open>internal/ingester/otlp/catalog_buffer.go\<close>) and its flush to the database
  (\<open>flushCatalog\<close> of \<open>ingester.go\<close>). Each operation holds the mutex for its whole body, so it
  is one atomic step; the handlers and the flusher interleave between operations, which
  \<open>buf_step\<close> makes explicit.
\<close>

section \<open>The buffer\<close>

text \<open>
  \<open>cb_dropped\<close> are the names logged as dropped because the buffer was full (the counter
  \<open>catalogBufferDroppedTotal\<close> is its length), \<open>cb_size\<close> is the gauge \<open>catalogBufferSize\<close>.
  Whether a distributed seen cache is configured is \<open>cb_hasSeenCache\<close>; \<open>cb_seen\<close> is \<open>None\<close>,
  the nil map, when it is.
\<close>

record catalogBuffer =
  cb_pending :: "(string, MetricCatalogItem) go_map"
  cb_seen :: "(string, time) go_map option"
  cb_maxSize :: nat
  cb_seenTTL :: duration
  cb_hasSeenCache :: bool
  cb_dropped :: "string list"
  cb_size :: nat

definition newCatalogBuffer :: "nat \<Rightarrow> duration \<Rightarrow> bool \<Rightarrow> catalogBuffer" where
  "newCatalogBuffer maxSize seenTTL hasSeenCache =
     \<lparr>cb_pending = [], cb_seen = (if hasSeenCache then None else Some []), cb_maxSize = maxSize,
      cb_seenTTL = seenTTL, cb_hasSeenCache = hasSeenCache, cb_dropped = [], cb_size = 0\<rparr>"

definition suppressed :: "time \<Rightarrow> catalogBuffer \<Rightarrow> metric \<Rightarrow> bool" where
  "suppressed now b m \<longleftrightarrow>
     (let name = metric_name m in
      name = [] \<or> map_of (cb_pending b) name \<noteq> None \<or>
      (case cb_seen b of
         None \<Rightarrow> False
       | Some seen \<Rightarrow>
           (case map_of seen name of
              None \<Rightarrow> False
            | Some flushedAt \<Rightarrow> time_sub now flushedAt < cb_seenTTL b)))"

definition candidatesForBuffer :: "time \<Rightarrow> catalogBuffer \<Rightarrow> metric list \<Rightarrow> metric list" where
  "candidatesForBuffer now b metrics = filter (\<lambda>m. \<not> suppressed now b m) metrics"

text \<open>One item against the pending map: skipped, dropped for lack of room, or queued.\<close>

definition add_item :: "MetricCatalogItem \<Rightarrow> catalogBuffer \<Rightarrow> catalogBuffer" where
  "add_item item b =
     (if map_of (cb_pending b) (ci_Name item) \<noteq> None then b
      else if length (cb_pending b) \<ge> cb_maxSize b then b\<lparr>cb_dropped := cb_dropped b @ [ci_Name item]\<rparr>
      else b\<lparr>cb_pending := AList.update (ci_Name item) item (cb_pending b)\<rparr>)"

definition set_size :: "catalogBuffer \<Rightarrow> catalogBuffer" where
  "set_size b = b\<lparr>cb_size := length (cb_pending b)\<rparr>"

definition add_candidate_item ::
  "(string, bool) go_map \<Rightarrow> MetricCatalogItem \<Rightarrow> catalogBuffer \<Rightarrow> catalogBuffer" where
  "add_candidate_item remotelySeenNames item b =
     (if map_of remotelySeenNames (ci_Name item) = Some True then b
      else let b' = add_item item b in
           if cb_pending b' = cb_pending b then b' else set_size b')"

definition addBatch :: "metric list \<Rightarrow> (string, bool) go_map \<Rightarrow> catalogBuffer \<Rightarrow> catalogBuffer" where
  "addBatch candidates remotelySeenNames b =
     fold (\<lambda>m. fold (add_candidate_item remotelySeenNames) (prometheusCatalogItems m)) candidates b"

definition drain :: "catalogBuffer \<Rightarrow> MetricCatalogItem list \<times> catalogBuffer" where
  "drain b =
     (if cb_pending b = [] then ([], b)
      else (map snd (cb_pending b), b\<lparr>cb_pending := [], cb_size := 0\<rparr>))"

definition requeue_item :: "MetricCatalogItem \<Rightarrow> catalogBuffer \<Rightarrow> catalogBuffer" where
  "requeue_item item b = (if ci_Name item = [] then b else add_item item b)"

definition requeue :: "MetricCatalogItem list \<Rightarrow> catalogBuffer \<Rightarrow> catalogBuffer" where
  "requeue items b = (if items = [] then b else set_size (fold requeue_item items b))"

definition markFlushed :: "MetricCatalogItem list \<Rightarrow> time \<Rightarrow> catalogBuffer \<Rightarrow> catalogBuffer" where
  "markFlushed items flushedAt b =
     (case cb_seen b of
        None \<Rightarrow> b
      | Some seen \<Rightarrow>
          if items = [] then b
          else b\<lparr>cb_seen := Some (fold (\<lambda>item s. if ci_Name item = [] then s
                                               else AList.update (ci_Name item) flushedAt s) items seen)\<rparr>)"

section \<open>The flush\<close>

text \<open>
  \<open>flushCatalog\<close> with no other operation in between: \<open>upsert\<close> is the database write, \<open>mark\<close> the
  seen cache's \<open>MarkMany\<close> (its error is only logged). The counters of flushed metrics and of
  failed flushes are part of the result.
\<close>

record flush_counters =
  fl_errors :: nat
  fl_metrics :: nat

definition flushCatalog ::
  "('t \<Rightarrow> MetricCatalogItem list \<Rightarrow> go_error option \<times> 't) \<Rightarrow> ('r \<Rightarrow> string list \<Rightarrow> go_error option \<times> 'r) \<Rightarrow> time
   \<Rightarrow> catalogBuffer \<times> 't \<times> 'r \<times> flush_counters \<Rightarrow> catalogBuffer \<times> 't \<times> 'r \<times> flush_counters" where
  "flushCatalog upsert mark now = (\<lambda>(b, t, r, fc).
     (case drain b of
        (items, b1) \<Rightarrow>
          if items = [] then (b1, t, r, fc)
          else (case upsert t items of
                  (Some err, t1) \<Rightarrow> (requeue items b1, t1, r, fc\<lparr>fl_errors := fl_errors fc + 1\<rparr>)
                | (None, t1) \<Rightarrow>
                    (markFlushed items now b1, t1,
                     (if cb_hasSeenCache b1 then snd (mark r (map ci_Name items)) else r),
                     fc\<lparr>fl_metrics := fl_metrics fc + length items\<rparr>))))"

definition FlushCatalog where
  "FlushCatalog upsert mark now bopt t r fc =
     (case bopt of
        None \<Rightarrow> (None, t, r, fc)
      | Some b \<Rightarrow> (case flushCatalog upsert mark now (b, t, r, fc) of (b', rest) \<Rightarrow> (Some b', rest)))"

section \<open>The invariant\<close>

definition buf_wf :: "catalogBuffer \<Rightarrow> bool" where
  "buf_wf b \<longleftrightarrow> map_wf (cb_pending b) \<and> length (cb_pending b) \<le> cb_maxSize b \<and>
     (\<forall>(n, it) \<in> set (cb_pending b). ci_Name it = n \<and> n \<noteq> []) \<and> cb_size b = length (cb_pending b) \<and>
     (cb_seen b = None \<longleftrightarrow> cb_hasSeenCache b)"

definition pending_names :: "catalogBuffer \<Rightarrow> string set" where
  "pending_names b = fst ` set (cb_pending b)"

text \<open>The invariant without the gauge, which lags inside an operation.\<close>

definition buf_wf0 :: "catalogBuffer \<Rightarrow> bool" where
  "buf_wf0 b \<longleftrightarrow> map_wf (cb_pending b) \<and> length (cb_pending b) \<le> cb_maxSize b \<and>
     (\<forall>(n, it) \<in> set (cb_pending b). ci_Name it = n \<and> n \<noteq> []) \<and> (cb_seen b = None \<longleftrightarrow> cb_hasSeenCache b)"

lemma buf_wf_split: "buf_wf b \<longleftrightarrow> buf_wf0 b \<and> cb_size b = length (cb_pending b)"
  by (auto simp: buf_wf_def buf_wf0_def)

lemma newCatalogBuffer_wf: "buf_wf (newCatalogBuffer maxSize seenTTL hasSeenCache)"
  by (simp add: buf_wf_def newCatalogBuffer_def)

lemma add_item_wf0: "buf_wf0 b \<Longrightarrow> ci_Name item \<noteq> [] \<Longrightarrow> buf_wf0 (add_item item b)"
  by (auto simp: add_item_def buf_wf0_def length_update map_of_eq_None_iff dest: update_in_set)

lemma add_item_names:
  "insert (ci_Name item) (pending_names b \<union> set (cb_dropped b)) = pending_names (add_item item b) \<union> set (cb_dropped (add_item item b))"
  by (auto simp: add_item_def pending_names_def dom_update map_of_eq_None_iff)

lemma add_item_names_kept:
  "pending_names b \<union> set (cb_dropped b) \<subseteq> pending_names (add_item item b) \<union> set (cb_dropped (add_item item b))"
  "ci_Name item \<in> pending_names (add_item item b) \<union> set (cb_dropped (add_item item b))"
  using add_item_names [of item b] by (metis subset_insertI, metis insertI1)

lemma add_candidate_item_wf:
  "buf_wf b \<Longrightarrow> ci_Name item \<noteq> [] \<Longrightarrow> buf_wf (add_candidate_item seen item b)"
  using add_item_wf0 [of b item]
  by (auto simp: add_candidate_item_def Let_def buf_wf_split set_size_def buf_wf0_def add_item_def)

lemma fold_inv: "(\<And>x s. x \<in> set xs \<Longrightarrow> P s \<Longrightarrow> P (f x s)) \<Longrightarrow> P s \<Longrightarrow> P (fold f xs s)"
  by (induction xs arbitrary: s) auto

lemma addBatch_wf [inv_intros]: "buf_wf b \<Longrightarrow> buf_wf (addBatch ms seen b)"
  unfolding addBatch_def
  by (intro fold_inv [where P = buf_wf] add_candidate_item_wf) (auto dest: catalog_items_names_nonempty)

lemma drain_wf [inv_intros]: "buf_wf b \<Longrightarrow> buf_wf (snd (drain b))"
  by (auto simp: drain_def buf_wf_def)

lemma requeue_wf [inv_intros]: "buf_wf b \<Longrightarrow> buf_wf (requeue items b)"
proof -
  assume b: "buf_wf b"
  then have "buf_wf0 (fold requeue_item items b)"
    by (intro fold_inv [where P = buf_wf0]) (auto simp: requeue_item_def add_item_wf0 buf_wf_split)
  with b show ?thesis by (auto simp: requeue_def set_size_def buf_wf_split buf_wf0_def)
qed

lemma markFlushed_wf [inv_intros]: "buf_wf b \<Longrightarrow> buf_wf (markFlushed items now b)"
  by (auto simp: markFlushed_def buf_wf_def split: option.split)

section \<open>A failed flush loses nothing\<close>

lemma requeue_prefix:
  assumes "map_wf (ps @ qs)" "length (ps @ qs) \<le> cb_maxSize b" "\<forall>(n, it) \<in> set qs. ci_Name it = n \<and> n \<noteq> []"
    and "cb_pending b = ps"
  shows "fold requeue_item (map snd qs) b = b\<lparr>cb_pending := ps @ qs\<rparr>"
  using assms
proof (induction qs arbitrary: ps b)
  case (Cons q qs)
  obtain n it where q: "q = (n, it)" by fastforce
  with Cons.prems have it: "ci_Name it = n" "n \<noteq> []" and new: "n \<notin> fst ` set ps"
    by (auto simp: map_wf_def)
  have "requeue_item it b = b\<lparr>cb_pending := ps @ [(n, it)]\<rparr>"
    using Cons.prems it new
    by (simp add: requeue_item_def add_item_def q update_fresh map_of_eq_None_iff)
  moreover have "fold requeue_item (map snd qs) (b\<lparr>cb_pending := ps @ [(n, it)]\<rparr>)
      = b\<lparr>cb_pending := ps @ [(n, it)]\<rparr>\<lparr>cb_pending := (ps @ [(n, it)]) @ qs\<rparr>"
    using Cons.prems by (intro Cons.IH) (auto simp: q)
  ultimately show ?case by (simp add: q)
qed simp

lemma requeue_drain:
  assumes "buf_wf b" "drain b = (items, b1)"
  shows "requeue items b1 = b"
proof (cases "cb_pending b = []")
  case True
  with assms show ?thesis by (simp add: drain_def requeue_def)
next
  case False
  with assms(2) have items: "items = map snd (cb_pending b)" and b1: "b1 = b\<lparr>cb_pending := [], cb_size := 0\<rparr>"
    by (simp_all add: drain_def)
  have "fold requeue_item (map snd (cb_pending b)) b1 = b1\<lparr>cb_pending := [] @ cb_pending b\<rparr>"
    by (rule requeue_prefix) (use assms(1) b1 in \<open>auto simp: buf_wf_def\<close>)
  with False assms(1) show ?thesis by (simp add: items requeue_def set_size_def b1 buf_wf_def)
qed

text \<open>
  A flush neither loses nor duplicates entries: when the write fails, the buffer is
  exactly what it was before, down to the gauge and the dropped counter, and the tables are
  unchanged; when it succeeds, the buffer is empty and every entry that was pending is in the
  catalog with its type.
\<close>

lemma flushCatalog_no_loss:
  assumes "buf_wf b"
    and "flushCatalog (UpsertMetricsCatalog fl now) mark now (b, t, r, fc) = (b', t', r', fc')"
  shows "(fl_errors fc' \<noteq> fl_errors fc \<longrightarrow> b' = b \<and> t' = t \<and> r' = r)
       \<and> (fl_errors fc' = fl_errors fc \<longrightarrow> cb_pending b' = [] \<and>
            (\<forall>(n, it) \<in> set (cb_pending b). map_option cr_type (map_of (t_catalog t') n) = Some (ci_Type it)))"
proof -
  obtain items b1 where d: "drain b = (items, b1)" by fastforce
  have b1: "cb_pending b1 = []" "items = map snd (cb_pending b)"
    using d by (auto simp: drain_def split: if_splits)
  obtain err t1 where u: "UpsertMetricsCatalog fl now t items = (err, t1)" by fastforce
  show ?thesis
  proof (cases "items = []")
    case True
    with assms(2) d b1 show ?thesis by (auto simp: flushCatalog_def)
  next
    case nonempty: False
    show ?thesis
    proof (cases err)
      case (Some e)
      have "t1 = t" using u Some nonempty by (auto simp: UpsertMetricsCatalog_def dest: run_tx_result)
      with assms(2) d u Some nonempty requeue_drain [OF assms(1) d] show ?thesis
        by (auto simp: flushCatalog_def)
    next
      case None
      have t1: "t1 = fold (upsert_catalog now) items t"
        using u None nonempty by (auto simp: UpsertMetricsCatalog_def dest: run_tx_result)
      have names: "distinct (map ci_Name items)"
      proof -
        have "map ci_Name items = map fst (cb_pending b)"
          using assms(1) by (auto simp: b1 buf_wf_def)
        with assms(1) show ?thesis by (simp add: buf_wf_def map_wf_def)
      qed
      have "map_option cr_type (map_of (t_catalog t1) n) = Some (ci_Type it)" if p: "(n, it) \<in> set (cb_pending b)" for n it
      proof -
        have it: "it \<in> set items" "ci_Name it = n" using p assms(1) by (force simp: b1 buf_wf_def)+
        obtain it' where l: "last_item n items = Some it'"
          using it by (cases "last_item n items") (auto simp: last_item_def find_None_iff)
        then have "it' \<in> set items" "ci_Name it' = n" by (auto simp: last_item_def dest: find_SomeD)
        with it names have "it' = it" by (auto simp: distinct_map dest: inj_onD)
        with l show ?thesis by (simp add: t1 fold_upsert_catalog catalog_row_of_def)
      qed
      moreover have "cb_pending (markFlushed items now b1) = []"
        using b1 by (simp add: markFlushed_def split: option.split)
      ultimately show ?thesis
        using assms(2) d u None nonempty by (auto simp: flushCatalog_def)
    qed
  qed
qed

definition up_item :: MetricCatalogItem where
  "up_item = \<lparr>ci_Name = ''up'', ci_Type = ''gauge'', ci_Help = [], ci_Unit = []\<rparr>"

lemma flushCatalog_no_loss_witness:
  "fst (flushCatalog (UpsertMetricsCatalog \<lparr>f_begin = Some ''locked'', f_prepare = None, f_exec = (\<lambda>_. None), f_commit = None\<rparr> 0)
      (\<lambda>r ns. (None, r)) 0 (add_candidate_item [] up_item (newCatalogBuffer 5 hour False), empty_tables, (), \<lparr>fl_errors = 0, fl_metrics = 0\<rparr>))
   = add_candidate_item [] up_item (newCatalogBuffer 5 hour False)"
  (is "fst ?r = ?b")
proof -
  have wf: "buf_wf ?b" by (rule add_candidate_item_wf [OF newCatalogBuffer_wf]) (simp add: up_item_def)
  obtain b' t' r' fc' where r: "?r = (b', t', r', fc')" by (rule prod_cases4)
  have "fl_errors (snd (snd (snd ?r))) = 1"
    by (simp add: flushCatalog_def drain_def add_candidate_item_def add_item_def newCatalogBuffer_def set_size_def
        up_item_def UpsertMetricsCatalog_def run_tx_def)
  then have "fl_errors fc' = 1" by (simp only: r snd_conv)
  with flushCatalog_no_loss [OF wf r] show ?thesis by (simp only: r fst_conv) simp
qed

section \<open>Handlers and flusher interleaved\<close>

text \<open>
  A request handler asks the seen cache about the names of its candidates (whatever candidates
  it found, possibly stale by now) and later adds them with the answer it got. The flusher, or
  the flush at shutdown, drains; later the write succeeds or fails; after a success the names
  are marked in the seen cache. \<open>y_offered\<close> collects the names that handlers added.
\<close>

record 'r catalog_sys =
  y_buf :: catalogBuffer
  y_handlers :: "(metric list \<times> (string, bool) go_map) list"
  y_inflight :: "MetricCatalogItem list list"
  y_tomark :: "string list list"
  y_tables :: tables
  y_cache :: 'r
  y_offered :: "string set"

inductive buf_step ::
  "('r \<Rightarrow> string list \<Rightarrow> (string, bool) go_map \<times> 'r) \<Rightarrow> ('r \<Rightarrow> string list \<Rightarrow> duration \<Rightarrow> go_error option \<times> 'r)
   \<Rightarrow> 'r catalog_sys \<Rightarrow> 'r catalog_sys \<Rightarrow> bool" for has mark where
  ask_cache:
    "cb_hasSeenCache (y_buf y) \<Longrightarrow> has (y_cache y) (prometheusCatalogNames ms) = (seen, c') \<Longrightarrow>
     buf_step has mark y (y\<lparr>y_handlers := (ms, seen) # y_handlers y, y_cache := c'\<rparr>)"
| no_cache:
    "buf_step has mark y (y\<lparr>y_handlers := (ms, []) # y_handlers y\<rparr>)"
| add:
    "(ms, seen) \<in> set (y_handlers y) \<Longrightarrow>
     buf_step has mark y (y\<lparr>y_buf := addBatch ms seen (y_buf y), y_handlers := remove1 (ms, seen) (y_handlers y),
                           y_offered := y_offered y \<union> set (prometheusCatalogNames ms)\<rparr>)"
| take:
    "drain (y_buf y) = (items, b') \<Longrightarrow>
     buf_step has mark y (y\<lparr>y_buf := b', y_inflight := items # y_inflight y\<rparr>)"
| written:
    "items \<in> set (y_inflight y) \<Longrightarrow> UpsertMetricsCatalog fl now (y_tables y) items = (None, t') \<Longrightarrow>
     buf_step has mark y (y\<lparr>y_buf := markFlushed items now (y_buf y), y_inflight := remove1 items (y_inflight y),
                           y_tables := t', y_tomark := map ci_Name items # y_tomark y\<rparr>)"
| failed:
    "items \<in> set (y_inflight y) \<Longrightarrow> UpsertMetricsCatalog fl now (y_tables y) items = (Some err, t') \<Longrightarrow>
     buf_step has mark y (y\<lparr>y_buf := requeue items (y_buf y), y_inflight := remove1 items (y_inflight y), y_tables := t'\<rparr>)"
| mark_seen:
    "names \<in> set (y_tomark y) \<Longrightarrow> cb_hasSeenCache (y_buf y) \<Longrightarrow>
     buf_step has mark y (y\<lparr>y_tomark := remove1 names (y_tomark y), y_cache := snd (mark (y_cache y) names (cb_seenTTL (y_buf y)))\<rparr>)"

definition catalog_names :: "tables \<Rightarrow> string set" where
  "catalog_names t = fst ` set (t_catalog t)"

definition inflight_names :: "MetricCatalogItem list list \<Rightarrow> string set" where
  "inflight_names xs = ci_Name ` \<Union> (set ` set xs)"

lemma inflight_names_simps [simp]:
  "inflight_names [] = {}" "inflight_names (items # xs) = ci_Name ` set items \<union> inflight_names xs"
  by (simp_all add: inflight_names_def image_Un)

definition accounted :: "'r catalog_sys \<Rightarrow> string set" where
  "accounted y = pending_names (y_buf y) \<union> set (cb_dropped (y_buf y)) \<union>
     inflight_names (y_inflight y) \<union> catalog_names (y_tables y)"

definition sys_inv :: "((string \<Rightarrow> bool) \<Rightarrow> 'r \<Rightarrow> bool) \<Rightarrow> 'r catalog_sys \<Rightarrow> bool" where
  "sys_inv good y \<longleftrightarrow> buf_wf (y_buf y) \<and>
     (\<forall>items \<in> set (y_inflight y). \<forall>it \<in> set items. ci_Name it \<noteq> []) \<and>
     (\<forall>h \<in> set (y_handlers y). \<forall>n. map_of (snd h) n = Some True \<longrightarrow> n \<in> catalog_names (y_tables y)) \<and>
     (\<forall>names \<in> set (y_tomark y). set names \<subseteq> catalog_names (y_tables y)) \<and>
     good (\<lambda>n. n \<in> catalog_names (y_tables y)) (y_cache y) \<and> y_offered y \<subseteq> accounted y"

lemma catalog_names_upsert:
  "UpsertMetricsCatalog fl now t items = (None, t') \<Longrightarrow> catalog_names t' = catalog_names t \<union> ci_Name ` set items"
proof -
  assume "UpsertMetricsCatalog fl now t items = (None, t')"
  then have t': "t' = fold (upsert_catalog now) items t"
    by (auto simp: UpsertMetricsCatalog_def dest: run_tx_result split: if_splits)
  show ?thesis unfolding t'
  proof (induction items arbitrary: t)
    case (Cons it items)
    have "catalog_names (upsert_catalog now it t) = insert (ci_Name it) (catalog_names t)"
      by (simp add: catalog_names_def upsert_catalog_def Let_def dom_update)
    then show ?case by (simp add: Cons.IH)
  qed simp
qed

lemma upsert_failed: "UpsertMetricsCatalog fl now t items = (Some err, t') \<Longrightarrow> t' = t"
  by (auto simp: UpsertMetricsCatalog_def dest: run_tx_result split: if_splits)

lemma add_candidate_names:
  "pending_names b \<union> set (cb_dropped b) \<subseteq> pending_names (add_candidate_item seen it b) \<union> set (cb_dropped (add_candidate_item seen it b))
   \<and> (map_of seen (ci_Name it) = Some True \<or>
      ci_Name it \<in> pending_names (add_candidate_item seen it b) \<union> set (cb_dropped (add_candidate_item seen it b)))"
proof (cases "map_of seen (ci_Name it) = Some True")
  case True
  then show ?thesis by (simp add: add_candidate_item_def)
next
  case False
  then have "pending_names (add_candidate_item seen it b) = pending_names (add_item it b)"
    "cb_dropped (add_candidate_item seen it b) = cb_dropped (add_item it b)"
    by (simp_all add: add_candidate_item_def Let_def set_size_def pending_names_def)
  then show ?thesis using add_item_names_kept(1) [of b it] add_item_names_kept(2) [of it b] by simp
qed

lemma fold_add_names:
  "pending_names b \<union> set (cb_dropped b) \<subseteq> pending_names (fold (add_candidate_item seen) its b) \<union> set (cb_dropped (fold (add_candidate_item seen) its b))
   \<and> (\<forall>it \<in> set its. map_of seen (ci_Name it) = Some True \<or>
      ci_Name it \<in> pending_names (fold (add_candidate_item seen) its b) \<union> set (cb_dropped (fold (add_candidate_item seen) its b)))"
proof (induction its arbitrary: b)
  case (Cons it its)
  from Cons.IH [of "add_candidate_item seen it b"] add_candidate_names [of b seen it]
  show ?case by auto
qed simp

lemma addBatch_fold: "addBatch ms seen b = fold (add_candidate_item seen) (concat (map prometheusCatalogItems ms)) b"
  by (induction ms arbitrary: b) (simp_all add: addBatch_def)

lemma prometheusCatalogNames_concat: "prometheusCatalogNames ms = map ci_Name (concat (map prometheusCatalogItems ms))"
  by (simp add: prometheusCatalogNames_def map_concat comp_def)

lemma set_remove1_cover: "set xs \<subseteq> insert x (set (remove1 x xs))"
  by (induction xs) auto

lemma inflight_split:
  "inflight_names xs \<subseteq> ci_Name ` set items \<union> inflight_names (remove1 items xs)"
  using set_remove1_cover [of xs items] unfolding inflight_names_def by blast

lemma drain_names:
  assumes "buf_wf b" "drain b = (items, b')"
  shows "pending_names b = pending_names b' \<union> ci_Name ` set items \<and> cb_dropped b' = cb_dropped b
       \<and> (\<forall>it \<in> set items. ci_Name it \<noteq> [])"
proof -
  have "map ci_Name (map snd (cb_pending b)) = map fst (cb_pending b)"
    using assms(1) by (auto simp: buf_wf_def)
  then have eq: "ci_Name ` set (map snd (cb_pending b)) = fst ` set (cb_pending b)"
    by (metis list.set_map)
  have "\<forall>it \<in> set (map snd (cb_pending b)). ci_Name it \<noteq> []"
    using assms(1) by (auto simp: buf_wf_def)
  with assms(2) eq show ?thesis
    by (cases "cb_pending b = []") (simp_all add: drain_def pending_names_def, auto)
qed

lemma requeue_names:
  "pending_names b \<union> set (cb_dropped b) \<union> {n \<in> ci_Name ` set items. n \<noteq> []}
   \<subseteq> pending_names (requeue items b) \<union> set (cb_dropped (requeue items b))"
proof -
  have step: "pending_names b \<union> set (cb_dropped b) \<union> {n \<in> {ci_Name it}. n \<noteq> []}
      \<subseteq> pending_names (requeue_item it b) \<union> set (cb_dropped (requeue_item it b))" for it b
    using add_item_names_kept(1) [of b it] add_item_names_kept(2) [of it b] by (auto simp: requeue_item_def)
  have "pending_names b \<union> set (cb_dropped b) \<union> {n \<in> ci_Name ` set items. n \<noteq> []}
      \<subseteq> pending_names (fold requeue_item items b) \<union> set (cb_dropped (fold requeue_item items b))"
  proof (induction items arbitrary: b)
    case (Cons it items)
    from Cons.IH [of "requeue_item it b"] step [of b it] show ?case by auto
  qed simp
  then show ?thesis by (auto simp: requeue_def set_size_def pending_names_def)
qed

context seen_cache
begin

lemma good_catalog:
  "good (\<lambda>n. n \<in> A) c \<Longrightarrow> A \<subseteq> B \<Longrightarrow> good (\<lambda>n. n \<in> B) c"
  by (rule good_mono [where flushed = "\<lambda>n. n \<in> A"]) auto

lemma buf_step_inv:
  assumes "buf_step has_many mark_many y y'" "sys_inv good y"
  shows "sys_inv good y'"
  using assms
proof (induction rule: buf_step.induct)
  case (ask_cache y ms seen c')
  then have g: "good (\<lambda>n. n \<in> catalog_names (y_tables y)) (y_cache y)" by (simp add: sys_inv_def)
  have "map_of seen n = Some True \<Longrightarrow> n \<in> catalog_names (y_tables y)" for n
    using has_sound [OF g, of "prometheusCatalogNames ms" n] ask_cache(2) by simp
  with ask_cache has_good [OF g, of "prometheusCatalogNames ms"] show ?case
    by (auto simp: sys_inv_def accounted_def)
next
  case (no_cache y ms)
  then show ?case by (auto simp: sys_inv_def accounted_def)
next
  case (add ms seen y)
  let ?b = "addBatch ms seen (y_buf y)"
  have seen: "map_of seen n = Some True \<Longrightarrow> n \<in> catalog_names (y_tables y)" for n
    using add by (fastforce simp: sys_inv_def)
  note names = fold_add_names [of "y_buf y" seen "concat (map prometheusCatalogItems ms)", folded addBatch_fold]
  have "pending_names (y_buf y) \<union> set (cb_dropped (y_buf y)) \<subseteq> pending_names ?b \<union> set (cb_dropped ?b)"
    using names by blast
  moreover have "set (prometheusCatalogNames ms) \<subseteq> pending_names ?b \<union> set (cb_dropped ?b) \<union> catalog_names (y_tables y)"
    using names seen unfolding prometheusCatalogNames_concat set_map by blast
  moreover have "buf_wf ?b" using add by (simp add: sys_inv_def addBatch_wf)
  moreover have "set (remove1 (ms, seen) (y_handlers y)) \<subseteq> set (y_handlers y)" by (rule set_remove1_subset)
  ultimately show ?case using add(2) unfolding sys_inv_def accounted_def by auto
next
  case (take y items b')
  have "buf_wf b'" using take drain_wf [of "y_buf y"] by (simp add: sys_inv_def)
  moreover have "pending_names (y_buf y) = pending_names b' \<union> ci_Name ` set items" "cb_dropped b' = cb_dropped (y_buf y)"
    "\<forall>it \<in> set items. ci_Name it \<noteq> []"
    using drain_names [of "y_buf y" items b'] take by (simp_all add: sys_inv_def)
  ultimately show ?case using take(2) unfolding sys_inv_def accounted_def by (auto simp: image_Un)
next
  case (written items y fl now t')
  let ?b = "markFlushed items now (y_buf y)"
  have cat: "catalog_names t' = catalog_names (y_tables y) \<union> ci_Name ` set items"
    by (rule catalog_names_upsert [OF written(2)])
  have "buf_wf ?b" using written by (simp add: sys_inv_def markFlushed_wf)
  moreover have "pending_names ?b = pending_names (y_buf y)" "cb_dropped ?b = cb_dropped (y_buf y)"
    by (simp_all add: markFlushed_def pending_names_def split: option.split)
  moreover have "good (\<lambda>n. n \<in> catalog_names t') (y_cache y)"
    by (rule good_catalog [of "catalog_names (y_tables y)"]) (use written(3) cat in \<open>auto simp: sys_inv_def\<close>)
  moreover note inflight_split [of "y_inflight y" items]
  moreover have "set (remove1 items (y_inflight y)) \<subseteq> set (y_inflight y)" by (rule set_remove1_subset)
  ultimately show ?case using written(3) cat unfolding sys_inv_def accounted_def by auto
next
  case (failed items y fl now err t')
  let ?b = "requeue items (y_buf y)"
  have t': "t' = y_tables y" by (rule upsert_failed [OF failed(2)])
  have ne: "\<forall>it \<in> set items. ci_Name it \<noteq> []" using failed by (auto simp: sys_inv_def)
  have "buf_wf ?b" using failed by (simp add: sys_inv_def requeue_wf)
  moreover have "pending_names (y_buf y) \<union> set (cb_dropped (y_buf y)) \<union> ci_Name ` set items
      \<subseteq> pending_names ?b \<union> set (cb_dropped ?b)"
    using requeue_names [of "y_buf y" items] ne by auto
  with inflight_split [of "y_inflight y" items]
  have "pending_names (y_buf y) \<union> set (cb_dropped (y_buf y)) \<union> inflight_names (y_inflight y)
      \<subseteq> pending_names ?b \<union> set (cb_dropped ?b) \<union> inflight_names (remove1 items (y_inflight y))" by blast
  then have "accounted y \<subseteq> accounted (y\<lparr>y_buf := ?b, y_inflight := remove1 items (y_inflight y), y_tables := t'\<rparr>)"
    unfolding accounted_def t' by auto
  moreover have "set (remove1 items (y_inflight y)) \<subseteq> set (y_inflight y)" by (rule set_remove1_subset)
  ultimately show ?case using failed(3) t' unfolding sys_inv_def by auto
next
  case (mark_seen names y)
  have "set (remove1 names (y_tomark y)) \<subseteq> set (y_tomark y)" by (rule set_remove1_subset)
  moreover have "good (\<lambda>n. n \<in> catalog_names (y_tables y))
      (snd (mark_many (y_cache y) names (cb_seenTTL (y_buf y))))"
    using mark_seen by (intro mark_good) (auto simp: sys_inv_def)
  ultimately show ?case using mark_seen(3) unfolding sys_inv_def accounted_def by auto
qed

lemma buf_reachable_inv:
  "(buf_step has_many mark_many)\<^sup>*\<^sup>* y y' \<Longrightarrow> sys_inv good y \<Longrightarrow> sys_inv good y'"
  by (induction rule: rtranclp_induct) (auto intro: buf_step_inv)

end

text \<open>The system at start: an empty buffer, nothing in progress, no key in the seen cache.\<close>

definition init_sys :: "nat \<Rightarrow> duration \<Rightarrow> bool \<Rightarrow> tables \<Rightarrow> 'r \<Rightarrow> 'r catalog_sys" where
  "init_sys maxSize seenTTL hasSeenCache t r =
     \<lparr>y_buf = newCatalogBuffer maxSize seenTTL hasSeenCache, y_handlers = [], y_inflight = [], y_tomark = [],
      y_tables = t, y_cache = r, y_offered = {}\<rparr>"

lemma init_sys_inv: "good (\<lambda>n. n \<in> catalog_names t) r \<Longrightarrow> sys_inv good (init_sys maxSize seenTTL hasSeenCache t r)"
  by (simp add: sys_inv_def init_sys_def newCatalogBuffer_wf)

text \<open>
  No metric is lost between the traffic and the catalog: however request handlers, the
  flusher and the seen cache interleave and whichever writes fail, every name that a handler
  added is pending, being written, in the catalog, or was counted as dropped because the buffer
  was full; and the buffer never exceeds its bound.
\<close>

lemma catalog_accounts_for_names:
  assumes "redis_seen_good exec c I (\<lambda>n. n \<in> catalog_names t) r"
    and "(buf_step (HasMany exec c) (MarkMany exec c))\<^sup>*\<^sup>* (init_sys maxSize seenTTL hasSeenCache t r) y"
  shows "y_offered y \<subseteq> pending_names (y_buf y) \<union> set (cb_dropped (y_buf y)) \<union>
           inflight_names (y_inflight y) \<union> catalog_names (y_tables y)
       \<and> length (cb_pending (y_buf y)) \<le> cb_maxSize (y_buf y)"
proof -
  have "sys_inv (redis_seen_good exec c I) y"
    by (rule redis_seen.buf_reachable_inv [OF assms(2)], rule init_sys_inv, rule assms(1))
  then show ?thesis by (simp add: sys_inv_def accounted_def buf_wf_def)
qed

lemma kv_exists: "redis_exists kv_exec (\<lambda>Q m. \<forall>k. m k \<noteq> None \<longrightarrow> Q k)"
  by (auto simp: redis_exists_def split: if_splits)

definition gauge_metric :: metric where
  "gauge_metric = \<lparr>m_Name = ''up'', m_Description = [], m_Unit = [], m_Data = Gauge [''1'']\<rparr>"

lemma catalog_accounts_for_names_witness:
  "{''up''} \<subseteq> pending_names (addBatch [gauge_metric] [] (newCatalogBuffer 1 hour True))"
proof -
  let ?c = "\<lparr>sc_maxBatchSize = 100\<rparr>"
  let ?s = "buf_step (HasMany kv_exec ?c) (MarkMany kv_exec ?c)"
  let ?y0 = "init_sys 1 hour True empty_tables (Map.empty :: string \<Rightarrow> int option)"
  let ?y1 = "?y0\<lparr>y_handlers := ([gauge_metric], []) # y_handlers ?y0\<rparr>"
  let ?y2 = "?y1\<lparr>y_buf := addBatch [gauge_metric] [] (y_buf ?y1), y_handlers := remove1 ([gauge_metric], []) (y_handlers ?y1),
     y_offered := y_offered ?y1 \<union> set (prometheusCatalogNames [gauge_metric])\<rparr>"
  have "?s ?y0 ?y1" by (rule no_cache)
  moreover have "?s ?y1 ?y2" by (rule add) simp
  ultimately have r: "?s\<^sup>*\<^sup>* ?y0 ?y2" by (rule converse_rtranclp_into_rtranclp [OF _ r_into_rtranclp])
  have g: "redis_seen_good kv_exec ?c (\<lambda>Q m. \<forall>k. m k \<noteq> None \<longrightarrow> Q k) (\<lambda>n. n \<in> catalog_names empty_tables) Map.empty"
    using kv_exists by (simp add: redis_seen_good_def)
  have names: "prometheusCatalogNames [gauge_metric] = [''up'']"
    by (simp add: prometheusCatalogNames_def prometheusCatalogItems_def prometheusMetricName_def gauge_metric_def Let_def
        isHistogram_def isExponentialHistogram_def isSummary_def)
  have "cb_dropped (addBatch [gauge_metric] [] (newCatalogBuffer 1 hour True)) = []"
    by (simp add: addBatch_def prometheusCatalogItems_def prometheusMetricName_def gauge_metric_def Let_def
        isHistogram_def isExponentialHistogram_def isSummary_def add_candidate_item_def add_item_def newCatalogBuffer_def set_size_def)
  with catalog_accounts_for_names [OF g r] show ?thesis
    by (simp add: names init_sys_def catalog_names_def empty_tables_def)
qed

end
