(* ===== verification/Otlp_Ingester.thy ===== *)
theory Otlp_Ingester
  imports Otlp_Filter Usage_Lookup Catalog_Buffer Config
begin

text \<open>
  The OTLP ingester (\<open>internal/ingester/otlp/ingester.go\<close>): its construction from the
  configuration, the job rules, the dry-run count and the filter, the time budget of a request
  and the whole \<open>Export\<close> handler, with the counters it updates and the requests it sends
  downstream. Redis, the database query, the clock and the downstream service are arguments.
\<close>

section \<open>Construction\<close>

record OtlpIngester =
  oi_config :: "ProxyConfig option"
  oi_exportTimeout :: duration
  oi_lookupChunkSize :: nat
  oi_allowedJobs :: "string set"
  oi_deniedJobs :: "string set"
  oi_metricCache :: "redisMetricUsageCache option"
  oi_seenCache :: "redisCatalogSeenCache option"
  oi_catalogFlushIv :: duration
  oi_catalogSeenTTL :: duration

definition defaultCatalogBufferSize :: int where "defaultCatalogBufferSize = 10000"
definition defaultCatalogFlushInterval :: duration where "defaultCatalogFlushInterval = 30 * second"
definition defaultCatalogSeenTTL :: duration where "defaultCatalogSeenTTL = hour"
definition defaultGracefulShutdownTimeout :: duration where "defaultGracefulShutdownTimeout = 30 * second"

definition buildJobSets :: "ProxyConfig \<Rightarrow> string set \<times> string set" where
  "buildJobSets cfg =
     (let toSet = (\<lambda>xs. set (filter (\<lambda>s. s \<noteq> []) xs)) in
      (toSet (ing_AllowedJobs (cfg_Ingester cfg)), toSet (ing_DeniedJobs (cfg_Ingester cfg))))"

text \<open>
  \<open>usageErr\<close> and \<open>seenErr\<close> are what the Redis client reports for each of the two connections.
  A failing connection is logged and the ingester runs without that cache.
\<close>

definition new_seen_cache :: "go_error option \<Rightarrow> IngesterConfig \<Rightarrow> redisCatalogSeenCache option" where
  "new_seen_cache seenErr ing =
     (if cs_Enabled (ing_CatalogSync ing) \<and> rd_Enabled (ing_Redis ing)
      then (case newRedisCatalogSeenCache seenErr (rd_Addr (ing_Redis ing)) (rd_BatchSize (ing_Redis ing)) of
              Inl err \<Rightarrow> None | Inr rc \<Rightarrow> Some rc)
      else None)"

text \<open>The flush interval, the time names stay suppressed, and the buffer.\<close>

definition new_catalog ::
  "go_error option \<Rightarrow> IngesterConfig \<Rightarrow> duration \<times> duration \<times> catalogBuffer option" where
  "new_catalog seenErr ing =
     (let cs = ing_CatalogSync ing;
          bufSize = (if cs_BufferSize cs \<le> 0 then defaultCatalogBufferSize else cs_BufferSize cs);
          flushIv = (if cs_FlushInterval cs \<le> 0 then defaultCatalogFlushInterval else cs_FlushInterval cs);
          seenTTL = (if cs_SeenTTL cs \<le> 0 then defaultCatalogSeenTTL else cs_SeenTTL cs)
      in if cs_Enabled cs
         then (flushIv, seenTTL, Some (newCatalogBuffer (nat bufSize) seenTTL (new_seen_cache seenErr ing \<noteq> None)))
         else (0, 0, None))"

definition NewOtlpIngester ::
  "go_error option \<Rightarrow> go_error option \<Rightarrow> ProxyConfig option \<Rightarrow> bool
   \<Rightarrow> go_error + OtlpIngester \<times> catalogBuffer option" where
  "NewOtlpIngester usageErr seenErr config dbProvider =
     (case config of
        None \<Rightarrow> Inl ''config cannot be nil''
      | Some cfg \<Rightarrow>
          if \<not> dbProvider then Inl ''db provider cannot be nil''
          else
            (let ing = cfg_Ingester cfg; redis = ing_Redis ing;
                 chunk = (if LookupChunkSize (ing_OTLP ing) > 0 then LookupChunkSize (ing_OTLP ing) else 500)
             in Inr (\<lparr>oi_config = Some cfg, oi_exportTimeout = 5 * second, oi_lookupChunkSize = nat chunk,
                      oi_allowedJobs = fst (buildJobSets cfg), oi_deniedJobs = snd (buildJobSets cfg),
                      oi_metricCache = (if rd_Enabled redis then fst (NewRedisMetricUsageCache usageErr redis) else None),
                      oi_seenCache = new_seen_cache seenErr ing,
                      oi_catalogFlushIv = fst (new_catalog seenErr ing),
                      oi_catalogSeenTTL = fst (snd (new_catalog seenErr ing))\<rparr>,
                     snd (snd (new_catalog seenErr ing)))))"

text \<open>What the constructor guarantees to the rest of the ingester.\<close>

definition ingester_wf :: "OtlpIngester \<Rightarrow> catalogBuffer option \<Rightarrow> bool" where
  "ingester_wf oi bopt \<longleftrightarrow> 0 < oi_lookupChunkSize oi \<and> 0 < oi_exportTimeout oi \<and>
     [] \<notin> oi_allowedJobs oi \<and> [] \<notin> oi_deniedJobs oi \<and>
     (\<forall>c. oi_metricCache oi = Some c \<longrightarrow> cache_wf c) \<and>
     (\<forall>c. oi_seenCache oi = Some c \<longrightarrow> 0 < sc_maxBatchSize c) \<and>
     (\<forall>b. bopt = Some b \<longrightarrow> buf_wf b \<and> 0 < cb_maxSize b \<and> 0 < cb_seenTTL b \<and>
        (cb_hasSeenCache b \<longleftrightarrow> oi_seenCache oi \<noteq> None) \<and> 0 < oi_catalogFlushIv oi)"

lemma NewOtlpIngester_wf:
  assumes "NewOtlpIngester usageErr seenErr config dbProvider = Inr (oi, bopt)"
  shows "ingester_wf oi bopt"
proof -
  obtain cfg where cfg: "config = Some cfg" "dbProvider"
    using assms by (auto simp: NewOtlpIngester_def split: option.splits if_splits)
  let ?ing = "cfg_Ingester cfg"
  have bopt: "bopt = snd (snd (new_catalog seenErr ?ing))" "oi_catalogFlushIv oi = fst (new_catalog seenErr ?ing)"
    and seen: "oi_seenCache oi = new_seen_cache seenErr ?ing"
    and cache: "oi_metricCache oi =
      (if rd_Enabled (ing_Redis ?ing) then fst (NewRedisMetricUsageCache usageErr (ing_Redis ?ing)) else None)"
    and oi: "0 < oi_lookupChunkSize oi" "0 < oi_exportTimeout oi" "[] \<notin> oi_allowedJobs oi" "[] \<notin> oi_deniedJobs oi"
    using assms cfg by (auto simp: NewOtlpIngester_def buildJobSets_def Let_def duration_defs)
  have "cache_wf c" if "oi_metricCache oi = Some c" for c
    using that NewRedisMetricUsageCache_wf [of usageErr "ing_Redis ?ing" c] cache
    by (metis option.distinct(1) prod.collapse)
  moreover have "0 < sc_maxBatchSize c" if "oi_seenCache oi = Some c" for c
    using that newRedisCatalogSeenCache_wf unfolding seen new_seen_cache_def by (auto split: if_splits sum.splits)
  moreover have "buf_wf b \<and> 0 < cb_maxSize b \<and> 0 < cb_seenTTL b \<and> (cb_hasSeenCache b \<longleftrightarrow> oi_seenCache oi \<noteq> None) \<and>
      0 < oi_catalogFlushIv oi" if "bopt = Some b" for b
    using that unfolding bopt seen new_catalog_def Let_def
    by (auto simp: newCatalogBuffer_def buf_wf_def defaultCatalogBufferSize_def
        defaultCatalogFlushInterval_def defaultCatalogSeenTTL_def duration_defs split: if_splits)
  ultimately show ?thesis using oi by (simp add: ingester_wf_def)
qed

section \<open>Job rules\<close>

text \<open>The second component counts an increment of \<open>receiverMissingJobTotal\<close>.\<close>

definition resolveJob :: "resource option \<Rightarrow> string \<times> nat" where
  "resolveJob res =
     (case res of
        None \<Rightarrow> ([], 1)
      | Some r \<Rightarrow>
          (let job = AttrView_Get (res_Attributes r) ''job'';
               job = (if job = [] then AttrView_Get (res_Attributes r) ''service.name'' else job)
           in (job, if job = [] then 1 else 0)))"

definition isUnusedDropActive :: "string \<Rightarrow> string set \<Rightarrow> string set \<Rightarrow> bool" where
  "isUnusedDropActive job allowed denied =
     (if allowed \<noteq> {} \<and> job \<notin> allowed then False
      else if job \<in> denied then False
      else True)"

definition shouldDropUnused ::
  "resource option \<Rightarrow> string \<Rightarrow> string set \<Rightarrow> string set \<Rightarrow> string set \<Rightarrow> bool" where
  "shouldDropUnused res metricName unused allowed denied =
     (if metricName \<notin> unused then False
      else isUnusedDropActive (fst (resolveJob res)) allowed denied)"

definition missing_job :: "resource option \<Rightarrow> string \<Rightarrow> string set \<Rightarrow> nat" where
  "missing_job res metricName unused = (if metricName \<in> unused then snd (resolveJob res) else 0)"

section \<open>Counting and filtering\<close>

text \<open>The three nested loops range over the rows of the request.\<close>

definition countWouldDrop ::
  "export_request \<Rightarrow> string set \<Rightarrow> string set \<Rightarrow> string set \<Rightarrow> nat \<times> nat \<times> nat" where
  "countWouldDrop req unused allowed denied =
     fold (\<lambda>(res, _, m) (droppedMetrics, droppedDatapoints, missing).
        let name = metric_name m in
        if name \<noteq> [] then
          (if shouldDropUnused res name unused allowed denied
           then (droppedMetrics + 1, droppedDatapoints + countMetricDatapoints m, missing + missing_job res name unused)
           else (droppedMetrics, droppedDatapoints, missing + missing_job res name unused))
        else (droppedMetrics, droppedDatapoints, missing))
      (request_rows req) (0, 0, 0)"

definition unused_filter :: "string set \<Rightarrow> string set \<Rightarrow> string set \<Rightarrow> FilterConfig" where
  "unused_filter unused allowed denied =
     \<lparr>DropMetricNames = None, DropMetricPrefixes = [],
      MetricKeep = Some (\<lambda>ctx. \<not> shouldDropUnused (fc_Resource ctx) (metric_name (fc_Metric ctx)) unused allowed denied)\<rparr>"

text \<open>
  The filter asks \<open>MetricKeep\<close> once for every metric of the request, which is when a missing
  job is counted. The results: metrics dropped, data points dropped, missing jobs, the request.
\<close>

definition filterUnused ::
  "export_request \<Rightarrow> string set \<Rightarrow> string set \<Rightarrow> string set \<Rightarrow> int \<Rightarrow> int \<times> nat \<times> nat \<times> export_request" where
  "filterUnused req unused allowed denied beforeMetricsCount =
     (let (req', droppedDatapoints) = FilterExport req (unused_filter unused allowed denied);
          afterMetricsCount = int (length (request_rows req'));
          missing = sum_list (map (\<lambda>(res, _, m). missing_job res (metric_name m) unused) (request_rows req))
      in (beforeMetricsCount - afterMetricsCount, droppedDatapoints, missing, req'))"

section \<open>Collecting names\<close>

definition names_of_metric :: "metric \<Rightarrow> string list" where
  "names_of_metric m =
     (let name = metric_name m in
      if name = [] then []
      else [name] @ (if isHistogram m then [name @ ''_bucket'', name @ ''_count'', name @ ''_sum''] else [])
                  @ (if isSummary m then [name @ ''_count'', name @ ''_sum''] else []))"

record collected =
  co_names :: "string list"
  co_hist :: "string list"
  co_sum :: "string list"
  co_catalog :: "metric list"
  co_metrics :: int
  co_datapoints :: nat

text \<open>The three maps have each name once; \<open>withCatalog\<close> says that a catalog buffer exists.\<close>

definition collectNamesAndCounts :: "bool \<Rightarrow> export_request \<Rightarrow> collected" where
  "collectNamesAndCounts withCatalog req =
     (let ms = map (snd \<circ> snd) (request_rows req); named = filter (\<lambda>m. metric_name m \<noteq> []) ms in
      \<lparr>co_names = remdups (concat (map names_of_metric named)),
       co_hist = remdups (map (\<lambda>m. metric_name m) (filter isHistogram named)),
       co_sum = remdups (map (\<lambda>m. metric_name m) (filter isSummary named)),
       co_catalog = (if withCatalog then named else []),
       co_metrics = int (length ms),
       co_datapoints = sum_list (map countMetricDatapoints ms)\<rparr>)"

section \<open>Time budgets\<close>

text \<open>\<open>untilDeadline\<close> is \<open>time.Until\<close> of the deadline of the request, if it has one.\<close>

definition computeExportTimeout :: "duration option \<Rightarrow> duration \<Rightarrow> duration" where
  "computeExportTimeout untilDeadline base =
     (case untilDeadline of
        None \<Rightarrow> base
      | Some d \<Rightarrow>
          if d > 0 \<and> d < base
          then (let tout = d - 50 * millisecond in if tout \<le> 0 then 50 * millisecond else tout)
          else base)"

definition computeCacheTimeout :: "OtlpIngester \<Rightarrow> duration option \<Rightarrow> duration" where
  "computeCacheTimeout oi untilDeadline =
     (let cacheTimeout =
            (case oi_config oi of
               None \<Rightarrow> 200 * millisecond
             | Some cfg \<Rightarrow>
                 if rd_OperationTimeout (ing_Redis (cfg_Ingester cfg)) > 0
                 then rd_OperationTimeout (ing_Redis (cfg_Ingester cfg)) else 200 * millisecond);
          exportTimeout = computeExportTimeout untilDeadline (oi_exportTimeout oi)
      in if exportTimeout > 0 \<and> exportTimeout sdiv 10 < cacheTimeout then exportTimeout sdiv 10 else cacheTimeout)"

section \<open>The catalog entries of a request\<close>

definition bufferCatalogEntries ::
  "'r redis \<Rightarrow> redisCatalogSeenCache option \<Rightarrow> time \<Rightarrow> metric list \<Rightarrow> catalogBuffer \<times> 'r \<Rightarrow> catalogBuffer \<times> 'r" where
  "bufferCatalogEntries exec seenCache now metrics = (\<lambda>(b, r).
     if metrics = [] then (b, r)
     else (let candidates = candidatesForBuffer now b metrics in
           if candidates = [] then (b, r)
           else (let (remotelySeenNames, r') =
                       (case seenCache of
                          None \<Rightarrow> ([], r)
                        | Some c \<Rightarrow> HasMany exec c r (prometheusCatalogNames candidates))
                 in (addBatch candidates remotelySeenNames b, r'))))"

section \<open>The handler\<close>

text \<open>
  An error of the downstream call, with the gRPC status code it carries. The environment gives
  the result of the first attempt, whether the context ends during the pause of 250 ms, and
  the result of the second attempt.
\<close>

record export_error =
  ee_code :: string
  ee_text :: string

record downstream =
  ds_first :: "export_error option"
  ds_pause :: "export_error option"
  ds_second :: "export_error option"

record 'r export_env =
  en_exec :: "'r redis"
  en_query :: "string list \<Rightarrow> go_error + MetricMetadata list"
  en_now :: time
  en_order :: "string list \<Rightarrow> string list" \<comment> \<open>the order in which a map is ranged over\<close>
  en_deadline :: "duration option"
  en_downstream :: "downstream option" \<comment> \<open>\<open>None\<close>: no exporter\<close>

text \<open>
  The state a request runs on: the catalog buffer, Redis, the counters, the requests handed to
  the downstream exporter (with their timeouts) and the code recorded for the call.
\<close>

record 'r export_state =
  x_buf :: "catalogBuffer option"
  x_redis :: 'r
  x_lookup :: lookup_counters
  x_received :: nat
  x_dropped :: nat
  x_missingJob :: nat
  x_retries :: nat
  x_inFlight :: int
  x_codes :: "string list"
  x_sent :: "(export_request \<times> duration) list"

definition finish :: "string \<Rightarrow> 'r export_state \<Rightarrow> 'r export_state" where
  "finish code st = st\<lparr>x_inFlight := x_inFlight st - 1, x_codes := x_codes st @ [code]\<rparr>"

definition forward ::
  "downstream option \<Rightarrow> duration \<Rightarrow> export_request \<Rightarrow> 'r export_state \<Rightarrow> export_error option \<times> 'r export_state" where
  "forward ds tout req st =
     (case ds of
        None \<Rightarrow> (None, finish ''OK'' st)
      | Some d \<Rightarrow>
          (let st1 = st\<lparr>x_sent := x_sent st @ [(req, tout)]\<rparr> in
           case ds_first d of
             None \<Rightarrow> (None, finish ''OK'' st1)
           | Some err \<Rightarrow>
               if ee_code err = ''Unavailable''
               then (case ds_pause d of
                       Some cerr \<Rightarrow> (Some cerr, finish (ee_code cerr) st1)
                     | None \<Rightarrow>
                         (let st2 = st1\<lparr>x_retries := x_retries st1 + 1, x_sent := x_sent st1 @ [(req, tout)]\<rparr> in
                          case ds_second d of
                            Some err2 \<Rightarrow> (Some err2, finish (ee_code err2) st2)
                          | None \<Rightarrow> (None, finish ''OK'' st2)))
               else (Some err, finish (ee_code err) st1)))"

definition dryRun :: "OtlpIngester \<Rightarrow> bool" where
  "dryRun oi = (case oi_config oi of None \<Rightarrow> False | Some cfg \<Rightarrow> ing_DryRun (cfg_Ingester cfg))"

definition drop_unused ::
  "OtlpIngester \<Rightarrow> export_request \<Rightarrow> string set \<Rightarrow> int \<Rightarrow> 'r export_state \<Rightarrow> export_request \<times> 'r export_state" where
  "drop_unused oi req unused beforeMetricsCount st =
     (if unused = {} then (req, st)
      else if dryRun oi
      then (case countWouldDrop req unused (oi_allowedJobs oi) (oi_deniedJobs oi) of
              (_, droppedDatapoints, missing) \<Rightarrow>
                (req, st\<lparr>x_dropped := x_dropped st + droppedDatapoints, x_missingJob := x_missingJob st + missing\<rparr>))
      else (case filterUnused req unused (oi_allowedJobs oi) (oi_deniedJobs oi) beforeMetricsCount of
              (_, droppedDatapoints, missing, req') \<Rightarrow>
                (req', st\<lparr>x_dropped := x_dropped st + droppedDatapoints, x_missingJob := x_missingJob st + missing\<rparr>)))"

definition lookup_env_of :: "OtlpIngester \<Rightarrow> 'r export_env \<Rightarrow> collected \<Rightarrow> 'r lookup_env" where
  "lookup_env_of oi en co =
     \<lparr>le_cache = map_option (redis_ops (en_exec en)) (oi_metricCache oi), le_query = en_query en,
      le_hist = en_order en (co_hist co), le_sum = en_order en (co_sum co), le_chunk = oi_lookupChunkSize oi\<rparr>"

definition buffer_request ::
  "OtlpIngester \<Rightarrow> 'r export_env \<Rightarrow> metric list \<Rightarrow> 'r export_state \<Rightarrow> 'r export_state" where
  "buffer_request oi en catalogMetrics st =
     (case x_buf st of
        None \<Rightarrow> st
      | Some b \<Rightarrow>
          if catalogMetrics \<noteq> []
          then (case bufferCatalogEntries (en_exec en) (oi_seenCache oi) (en_now en) catalogMetrics (b, x_redis st) of
                  (b', r') \<Rightarrow> st\<lparr>x_buf := Some b', x_redis := r'\<rparr>)
          else st)"

text \<open>The entry of the handler: the gauge of calls in flight and the received data points.\<close>

definition receive :: "collected \<Rightarrow> 'r export_state \<Rightarrow> 'r export_state" where
  "receive co st =
     (let st1 = st\<lparr>x_inFlight := x_inFlight st + 1\<rparr> in
      if co_datapoints co > 0 then st1\<lparr>x_received := x_received st1 + co_datapoints co\<rparr> else st1)"

definition Export ::
  "OtlpIngester \<Rightarrow> 'r export_env \<Rightarrow> export_request \<Rightarrow> 'r export_state \<Rightarrow> export_error option \<times> 'r export_state" where
  "Export oi en req st0 =
     (let co = collectNamesAndCounts (x_buf st0 \<noteq> None) req;
          st2 = receive co st0
      in if co_names co = [] then (None, finish ''OK'' st2)
         else
           (let st3 = buffer_request oi en (co_catalog co) st2
            in case lookupUnused (lookup_env_of oi en co) (en_order en (co_names co)) (x_redis st3) (x_lookup st3) of
                 (None, r', lc') \<Rightarrow> (None, finish ''OK'' (st3\<lparr>x_redis := r', x_lookup := lc'\<rparr>))
               | (Some unused, r', lc') \<Rightarrow>
                   (case drop_unused oi req unused (co_metrics co) (st3\<lparr>x_redis := r', x_lookup := lc'\<rparr>) of
                      (req', st4) \<Rightarrow>
                        forward (en_downstream en) (computeExportTimeout (en_deadline en) (oi_exportTimeout oi)) req' st4)))"

section \<open>Which rows are dropped\<close>

definition row_unused :: "string set \<Rightarrow> string set \<Rightarrow> string set \<Rightarrow> resource option \<times> string \<times> metric \<Rightarrow> bool" where
  "row_unused unused allowed denied = (\<lambda>(res, _, m). shouldDropUnused res (metric_name m) unused allowed denied)"

lemma row_dropped_unused: "row_dropped (unused_filter unused allowed denied) = row_unused unused allowed denied"
  by (auto simp: row_dropped_def row_unused_def shouldDropMetric_def unused_filter_def)

lemma countWouldDrop_rows:
  "fst (snd (countWouldDrop req unused allowed denied)) =
     sum_list (map row_datapoints (filter (\<lambda>row. metric_name (snd (snd row)) \<noteq> [] \<and> row_unused unused allowed denied row) (request_rows req)))"
proof -
  have "fst (snd (fold (\<lambda>(res, _, m) (droppedMetrics, droppedDatapoints, missing).
        let name = metric_name m in
        if name \<noteq> [] then
          (if shouldDropUnused res name unused allowed denied
           then (droppedMetrics + 1, droppedDatapoints + countMetricDatapoints m, missing + missing_job res name unused)
           else (droppedMetrics, droppedDatapoints, missing + missing_job res name unused))
        else (droppedMetrics, droppedDatapoints, missing)) rows (a, b, c)))
     = b + sum_list (map row_datapoints (filter (\<lambda>row. metric_name (snd (snd row)) \<noteq> [] \<and> row_unused unused allowed denied row) rows))"
    for rows :: "(resource option \<times> string \<times> metric) list" and a b c :: nat
    by (induction rows arbitrary: a b c) (auto simp: Let_def row_unused_def row_datapoints_def)
  from this [of "request_rows req" 0 0 0] show ?thesis by (simp add: countWouldDrop_def)
qed

lemma filterUnused_rows:
  assumes "filterUnused req unused allowed denied n = (dm, dp, missing, req')"
  shows "request_rows req' = filter (\<lambda>row. \<not> row_unused unused allowed denied row \<and> \<not> metricIsEmpty (snd (snd row))) (request_rows req)
       \<and> dp = sum_list (map row_datapoints (filter (row_unused unused allowed denied) (request_rows req)))"
  using assms FilterExport_rows [of req "unused_filter unused allowed denied"]
    FilterExport_dropped [of req "unused_filter unused allowed denied"]
  by (auto simp: filterUnused_def Let_def row_dropped_unused row_kept_def [abs_def] split: prod.splits)

text \<open>
  C21. A dry run reports what a real run would drop: the data points counted without touching
  the request are those the filter removes, whenever the unnamed metrics are not in the unused
  set (which a lookup never puts there).
\<close>

theorem dry_run_counts_real_drops:
  assumes "[] \<notin> unused"
  shows "fst (snd (countWouldDrop req unused allowed denied)) = fst (snd (filterUnused req unused allowed denied n))"
proof -
  obtain dm dp missing req' where f: "filterUnused req unused allowed denied n = (dm, dp, missing, req')"
    by (metis prod_cases4)
  have "(\<lambda>row. metric_name (snd (snd row)) \<noteq> [] \<and> row_unused unused allowed denied row) = row_unused unused allowed denied"
    using assms by (auto simp: row_unused_def shouldDropUnused_def fun_eq_iff)
  then show ?thesis using filterUnused_rows [OF f] f by (simp add: countWouldDrop_rows)
qed

definition sample_request :: export_request where
  "sample_request = \<lparr>ResourceMetrics = [\<lparr>rm_Resource = Some \<lparr>res_Attributes = [\<lparr>kv_Key = ''job'', kv_Value = Some (StringValue ''api'')\<rparr>]\<rparr>,
     rm_ScopeMetrics = [\<lparr>sm_Scope = ''s'', sm_Metrics =
       [\<lparr>m_Name = ''up'', m_Description = [], m_Unit = [], m_Data = Gauge [''1'', ''2'']\<rparr>,
        \<lparr>m_Name = ''reqs'', m_Description = [], m_Unit = [], m_Data = Sum [''3''] True\<rparr>]\<rparr>]\<rparr>]\<rparr>"

theorem dry_run_counts_real_drops_witness:
  "fst (snd (filterUnused sample_request {''up''} {} {''batch''} 2)) = 2"
proof -
  have "fst (snd (countWouldDrop sample_request {''up''} {} {''batch''}))
      = fst (snd (filterUnused sample_request {''up''} {} {''batch''} 2))"
    by (rule dry_run_counts_real_drops) simp
  moreover have "fst (snd (countWouldDrop sample_request {''up''} {} {''batch''})) = 2"
    by code_simp
  ultimately show ?thesis by simp
qed

text \<open>
  Job rules are honoured: with a list of allowed jobs nothing of another job is ever
  dropped, and nothing of a denied job is ever dropped; every non-empty metric of such a job is
  in the filtered request, in order.
\<close>

lemma job_rules_honoured:
  assumes "filterUnused req unused allowed denied n = (dm, dp, missing, req')"
    and "\<And>row. row \<in> set rows \<Longrightarrow> fst (resolveJob (fst row)) \<in> denied \<or> (allowed \<noteq> {} \<and> fst (resolveJob (fst row)) \<notin> allowed)"
    and "rows = filter P (request_rows req)" "\<And>row. P row \<Longrightarrow> \<not> metricIsEmpty (snd (snd row))"
  shows "filter P (request_rows req') = rows"
proof -
  have keep: "\<not> row_unused unused allowed denied row" if "row \<in> set rows" for row
    using assms(2) [OF that] by (auto simp: row_unused_def shouldDropUnused_def isUnusedDropActive_def split: prod.splits)
  have "filter P (request_rows req') = filter (\<lambda>row. \<not> row_unused unused allowed denied row \<and> P row) (request_rows req)"
    using filterUnused_rows [OF assms(1)] assms(4) by (auto intro: filter_cong)
  also have "\<dots> = filter P (request_rows req)"
    using keep unfolding assms(3) by (intro filter_cong) auto
  finally show ?thesis using assms(3) by simp
qed

lemma job_rules_honoured_witness:
  "filter (\<lambda>row. \<not> metricIsEmpty (snd (snd row)))
     (request_rows (snd (snd (snd (filterUnused sample_request {''up''} {} {''api''} 2)))))
   = filter (\<lambda>row. \<not> metricIsEmpty (snd (snd row))) (request_rows sample_request)"
proof -
  obtain dm dp missing req' where f: "filterUnused sample_request {''up''} {} {''api''} 2 = (dm, dp, missing, req')"
    by (metis prod_cases4)
  have "filter (\<lambda>row. \<not> metricIsEmpty (snd (snd row))) (request_rows req')
      = filter (\<lambda>row. \<not> metricIsEmpty (snd (snd row))) (request_rows sample_request)"
    by (rule job_rules_honoured [OF f])
      (auto simp: sample_request_def request_rows_def resource_rows_def scope_rows_def resolveJob_def Let_def split: if_splits)
  with f show ?thesis by simp
qed

section \<open>The handler end to end\<close>

text \<open>The unused names of a request over given tables.\<close>

definition request_unused :: "tables \<Rightarrow> export_request \<Rightarrow> string set" where
  "request_unused t req =
     (let co = collectNamesAndCounts False req in
      unused_names (co_hist co) (co_sum co) (\<lambda>n. if n \<in> set (co_names co) then verdict (catalog_view t) n else None))"

lemma unused_names_order:
  "set hb = set hb' \<Longrightarrow> set sb = set sb' \<Longrightarrow> unused_names hb sb v = unused_names hb' sb' v"
  by (simp add: unused_names_def part_unused_def base_unused_def isHistogramVariant_order [of hb hb']
      isSummaryVariant_order [of sb sb'])

lemma collect_same:
  "co_names (collectNamesAndCounts w req) = co_names (collectNamesAndCounts False req)"
  "co_hist (collectNamesAndCounts w req) = co_hist (collectNamesAndCounts False req)"
  "co_sum (collectNamesAndCounts w req) = co_sum (collectNamesAndCounts False req)"
  "co_datapoints (collectNamesAndCounts w req) = request_datapoints req"
  by (simp_all add: collectNamesAndCounts_def Let_def request_datapoints_def row_datapoints_def case_prod_unfold comp_def)

lemma collect_distinct:
  "distinct (co_names (collectNamesAndCounts w req))" "distinct (co_hist (collectNamesAndCounts w req))"
  "distinct (co_sum (collectNamesAndCounts w req))"
  by (simp_all add: collectNamesAndCounts_def Let_def)

text \<open>Reading the seen cache keeps the usage cache right: \<open>EXISTS\<close> stores nothing.\<close>

lemma HasMany_keeps_good:
  assumes "redis_good exec c I truth r"
  shows "redis_good exec c I truth (snd (HasMany exec sc r names))"
proof -
  have step: "redis_good exec c I truth (snd (has_batch exec b (out, r)))" if "redis_good exec c I truth r" for b out r
  proof -
    have "I (snd (DoMulti exec r (map (\<lambda>n. EXISTS (seen_key n)) b)))"
      by (rule keeps_DoMulti [where Q = "usage_entry truth"]) (use that in \<open>auto simp: redis_good_def\<close>)
    with that show ?thesis by (auto simp: redis_good_def has_batch_def split: prod.split)
  qed
  have "redis_good exec c I truth (snd (fold (has_batch exec) bs (out, r)))" if "redis_good exec c I truth r" for bs out r
    using that
  proof (induction bs arbitrary: out r)
    case (Cons b bs)
    obtain out' r' where "has_batch exec b (out, r) = (out', r')" by fastforce
    with step [OF Cons.prems, of b out] Cons.IH [of r' out'] show ?case by simp
  qed simp
  with assms show ?thesis by (simp add: HasMany_def)
qed

lemma buffer_request_fields:
  "x_sent (buffer_request oi en ms st) = x_sent st" "x_dropped (buffer_request oi en ms st) = x_dropped st"
  "x_received (buffer_request oi en ms st) = x_received st" "x_inFlight (buffer_request oi en ms st) = x_inFlight st"
  "x_lookup (buffer_request oi en ms st) = x_lookup st" "x_codes (buffer_request oi en ms st) = x_codes st"
  by (simp_all add: buffer_request_def split: option.split prod.split)

lemma buffer_request_redis:
  "redis_good (en_exec en) c I truth (x_redis st) \<Longrightarrow> redis_good (en_exec en) c I truth (x_redis (buffer_request oi en ms st))"
  using HasMany_keeps_good [of "en_exec en" c I truth "x_redis st"]
  by (auto simp: buffer_request_def bufferCatalogEntries_def Let_def split: option.split prod.splits)
    (metis snd_conv)

text \<open>The cache of the ingester, if it has one, agrees with the tables.\<close>

definition usage_cache_sound :: "OtlpIngester \<Rightarrow> 'r export_env \<Rightarrow> tables \<Rightarrow> 'r \<Rightarrow> bool" where
  "usage_cache_sound oi en t r \<longleftrightarrow>
     (\<forall>c. oi_metricCache oi = Some c \<longrightarrow> (\<exists>I. redis_good (en_exec en) c I (usage_truth (catalog_view t)) r))"

lemma lookup_of_request:
  assumes "tables_wf t" "en_query en = (\<lambda>ns. GetSeriesMetadataByNames None t ns [])" "usage_cache_sound oi en t r"
    and order: "\<And>xs. iteration_of (en_order en xs) xs"
  shows "fst (lookupUnused (lookup_env_of oi en (collectNamesAndCounts w req))
           (en_order en (co_names (collectNamesAndCounts w req))) r lc) = Some (request_unused t req)"
proof -
  let ?co = "collectNamesAndCounts w req" and ?e = "lookup_env_of oi en (collectNamesAndCounts w req)"
  note set = iteration_of_set [OF order] and dist = iteration_of_distinct [OF order]
  have s: "sound_cache ?e t r"
    using assms(3) by (cases "oi_metricCache oi") (auto simp: sound_cache_def lookup_env_of_def usage_cache_sound_def)
  have q: "le_query ?e = (\<lambda>ns. GetSeriesMetadataByNames None t ns [])"
    using assms(2) by (simp add: lookup_env_of_def)
  have d: "distinct (le_hist ?e)" "distinct (le_sum ?e)" "distinct (en_order en (co_names ?co))"
    by (simp_all add: lookup_env_of_def dist collect_distinct)
  obtain u r' lc' where l: "lookupUnused ?e (en_order en (co_names ?co)) r lc = (Some u, r', lc')"
    using lookupUnused_total [of ?e] q query_total by fastforce
  have "u = unused_names (le_hist ?e) (le_sum ?e)
      (\<lambda>n. if n \<in> set (en_order en (co_names ?co)) then verdict (catalog_view t) n else None)"
    by (rule lookup_over_tables [OF assms(1) q s d l])
  also have "\<dots> = request_unused t req"
    unfolding request_unused_def Let_def set collect_same(1) [of w req]
    by (rule unused_names_order) (simp_all add: lookup_env_of_def set collect_same(2,3) [of w req])
  finally show ?thesis by (simp add: l)
qed

lemma drop_unused_rows:
  assumes "drop_unused oi req unused n st = (req', st')" "[] \<notin> unused"
  shows "x_sent st' = x_sent st \<and> x_received st' = x_received st \<and> x_inFlight st' = x_inFlight st \<and>
     filter (\<lambda>row. \<not> metricIsEmpty (snd (snd row))) (request_rows req') =
       filter (\<lambda>row. (dryRun oi \<or> \<not> row_unused unused (oi_allowedJobs oi) (oi_deniedJobs oi) row) \<and> \<not> metricIsEmpty (snd (snd row)))
         (request_rows req)
   \<and> x_dropped st' = x_dropped st +
       sum_list (map row_datapoints (filter (row_unused unused (oi_allowedJobs oi) (oi_deniedJobs oi)) (request_rows req)))"
proof -
  let ?u = "row_unused unused (oi_allowedJobs oi) (oi_deniedJobs oi)"
  consider "unused = {}" | "unused \<noteq> {}" "dryRun oi" | "unused \<noteq> {}" "\<not> dryRun oi" by blast
  then show ?thesis
  proof cases
    case 1
    then have "\<not> ?u row" for row by (cases row) (simp add: row_unused_def shouldDropUnused_def)
    with 1 assms(1) show ?thesis by (simp add: drop_unused_def)
  next
    case 2
    have "(\<lambda>row. metric_name (snd (snd row)) \<noteq> [] \<and> ?u row) = ?u"
      using assms(2) by (auto simp: row_unused_def shouldDropUnused_def fun_eq_iff)
    with 2 assms(1) countWouldDrop_rows [of req unused "oi_allowedJobs oi" "oi_deniedJobs oi"] show ?thesis
      by (auto simp: drop_unused_def split: prod.splits)
  next
    case 3
    obtain dm dp missing r where f: "filterUnused req unused (oi_allowedJobs oi) (oi_deniedJobs oi) n = (dm, dp, missing, r)"
      by (metis prod_cases4)
    with 3 assms(1) filterUnused_rows [OF f] show ?thesis
      by (auto simp: drop_unused_def intro: filter_cong)
  qed
qed

lemma forward_sent:
  assumes "forward (Some d) tout req st = (res, st')"
  shows "\<exists>k \<in> {1, 2}. x_sent st' = x_sent st @ replicate k (req, tout) \<and> x_received st' = x_received st
     \<and> x_dropped st' = x_dropped st \<and> x_inFlight st' = x_inFlight st - 1
     \<and> (res = None \<longleftrightarrow> ds_first d = None \<or> (k = 2 \<and> ds_second d = None))"
  using assms by (auto simp: forward_def finish_def Let_def numeral_2_eq_2 split: option.splits if_splits dest: sym)

lemma request_unused_named: "[] \<notin> request_unused t req"
proof -
  let ?co = "collectNamesAndCounts False req"
  have "[] \<notin> set (co_names ?co)" "[] \<notin> set (co_sum ?co)" "[] \<notin> set (co_hist ?co)"
    by (auto simp: collectNamesAndCounts_def Let_def names_of_metric_def)
  then show ?thesis by (auto simp: request_unused_def Let_def unused_names_def)
qed

text \<open>What one call does when the database answers and an exporter is configured.\<close>

lemma Export_result:
  assumes tabs: "tables_wf t" "en_query en = (\<lambda>ns. GetSeriesMetadataByNames None t ns [])" "usage_cache_sound oi en t (x_redis st)"
    and order: "\<And>xs. iteration_of (en_order en xs) xs"
    and ds: "en_downstream en = Some d" and names: "\<exists>row \<in> set (request_rows req). metric_name (snd (snd row)) \<noteq> []"
    and ex: "Export oi en req st = (res, st')"
  shows "\<exists>req' tout. \<exists>k \<in> {1, 2}. x_sent st' = x_sent st @ replicate k (req', tout)
     \<and> filter (\<lambda>row. \<not> metricIsEmpty (snd (snd row))) (request_rows req') =
         filter (\<lambda>row. (dryRun oi \<or> \<not> row_unused (request_unused t req) (oi_allowedJobs oi) (oi_deniedJobs oi) row)
                  \<and> \<not> metricIsEmpty (snd (snd row))) (request_rows req)
     \<and> x_received st' = x_received st + request_datapoints req
     \<and> x_dropped st' = x_dropped st + sum_list (map row_datapoints
         (filter (row_unused (request_unused t req) (oi_allowedJobs oi) (oi_deniedJobs oi)) (request_rows req)))
     \<and> x_inFlight st' = x_inFlight st
     \<and> (res = None \<longleftrightarrow> ds_first d = None \<or> (k = 2 \<and> ds_second d = None))"
proof -
  define co where "co = collectNamesAndCounts (x_buf st \<noteq> None) req"
  define st2 where "st2 = receive co st"
  define st3 where "st3 = buffer_request oi en (co_catalog co) st2"
  have st2: "x_sent st2 = x_sent st" "x_dropped st2 = x_dropped st" "x_redis st2 = x_redis st"
    "x_received st2 = x_received st + request_datapoints req" "x_inFlight st2 = x_inFlight st + 1"
    by (auto simp: st2_def receive_def Let_def co_def collect_same(4))
  have st3: "x_sent st3 = x_sent st" "x_dropped st3 = x_dropped st"
    "x_received st3 = x_received st + request_datapoints req" "x_inFlight st3 = x_inFlight st + 1"
    by (simp_all add: st3_def buffer_request_fields st2)
  have "usage_cache_sound oi en t (x_redis st3)"
    using tabs(3) buffer_request_redis [of en _ _ "usage_truth (catalog_view t)" st2 oi "co_catalog co"]
    unfolding usage_cache_sound_def st3_def st2(3) by blast
  from lookup_of_request [OF tabs(1,2) this order, of "x_buf st \<noteq> None" req "x_lookup st3"]
  obtain r' lc' where l: "lookupUnused (lookup_env_of oi en co) (en_order en (co_names co)) (x_redis st3) (x_lookup st3)
      = (Some (request_unused t req), r', lc')"
    unfolding co_def by (metis prod.collapse)
  obtain req' st4 where dr: "drop_unused oi req (request_unused t req) (co_metrics co) (st3\<lparr>x_redis := r', x_lookup := lc'\<rparr>) = (req', st4)"
    by fastforce
  have "co_names co \<noteq> []"
    using names by (auto simp: co_def collectNamesAndCounts_def Let_def names_of_metric_def filter_empty_conv)
  with ex l dr ds have fw: "forward (Some d) (computeExportTimeout (en_deadline en) (oi_exportTimeout oi)) req' st4 = (res, st')"
    unfolding Export_def co_def [symmetric] st2_def [symmetric] Let_def st3_def [symmetric] by simp
  from forward_sent [OF fw] drop_unused_rows [OF dr request_unused_named] st3 show ?thesis
    by (simp only: export_state.simps) fastforce
qed

lemma Export_forwards_row:
  assumes "tables_wf t" "en_query en = (\<lambda>ns. GetSeriesMetadataByNames None t ns [])" "usage_cache_sound oi en t (x_redis st)"
    and "\<And>xs. iteration_of (en_order en xs) xs" "en_downstream en = Some d"
    and "\<exists>row \<in> set (request_rows req). metric_name (snd (snd row)) \<noteq> []"
    and "row \<in> set (request_rows req)" "\<not> metricIsEmpty (snd (snd row))"
    and "dryRun oi \<or> \<not> row_unused (request_unused t req) (oi_allowedJobs oi) (oi_deniedJobs oi) row"
  shows "\<exists>req' tout. \<exists>k \<in> {1, 2}. x_sent (snd (Export oi en req st)) = x_sent st @ replicate k (req', tout)
     \<and> row \<in> set (request_rows req')"
proof -
  obtain res st' where ex: "Export oi en req st = (res, st')" by fastforce
  obtain req' tout k where k: "k \<in> {1, 2}" "x_sent st' = x_sent st @ replicate k (req', tout)"
    and rows: "filter (\<lambda>row. \<not> metricIsEmpty (snd (snd row))) (request_rows req') =
         filter (\<lambda>row. (dryRun oi \<or> \<not> row_unused (request_unused t req) (oi_allowedJobs oi) (oi_deniedJobs oi) row)
                  \<and> \<not> metricIsEmpty (snd (snd row))) (request_rows req)"
    using Export_result [OF assms(1-6) ex] by blast
  have "row \<in> set (filter (\<lambda>row. \<not> metricIsEmpty (snd (snd row))) (request_rows req'))"
    unfolding rows using assms(7-9) by simp
  with k show ?thesis by (auto simp: ex)
qed

text \<open>
  C2. No used metric is ever dropped. With a healthy database and a cache that agrees with it,
  the request handed to the downstream exporter (once, or twice after a retry, and the same
  request both times) holds every non-empty metric except those that are unused by the usage
  rows and belong to a job for which dropping is active; in a dry run it holds all of them.
\<close>

theorem Export_never_drops_used:
  assumes "tables_wf t" "en_query en = (\<lambda>ns. GetSeriesMetadataByNames None t ns [])" "usage_cache_sound oi en t (x_redis st)"
    and "\<And>xs. iteration_of (en_order en xs) xs" "en_downstream en = Some d"
    and "\<exists>row \<in> set (request_rows req). metric_name (snd (snd row)) \<noteq> []"
    and "row \<in> set (request_rows req)" "\<not> metricIsEmpty (snd (snd row))"
    and "dryRun oi \<or> metric_name (snd (snd row)) \<notin> request_unused t req \<or>
         \<not> isUnusedDropActive (fst (resolveJob (fst row))) (oi_allowedJobs oi) (oi_deniedJobs oi)"
  shows "\<exists>req' tout. \<exists>k \<in> {1, 2}. x_sent (snd (Export oi en req st)) = x_sent st @ replicate k (req', tout)
     \<and> row \<in> set (request_rows req')"
proof -
  have "dryRun oi \<or> \<not> row_unused (request_unused t req) (oi_allowedJobs oi) (oi_deniedJobs oi) row"
    using assms(9) by (cases row) (auto simp: row_unused_def shouldDropUnused_def)
  then show ?thesis by (rule Export_forwards_row [OF assms(1-8)])
qed




section \<open>A concrete call\<close>

definition sample_ingester :: OtlpIngester where
  "sample_ingester = \<lparr>oi_config = Some DefaultConfig, oi_exportTimeout = 5 * second, oi_lookupChunkSize = 500,
     oi_allowedJobs = {}, oi_deniedJobs = {}, oi_metricCache = None, oi_seenCache = None,
     oi_catalogFlushIv = 0, oi_catalogSeenTTL = 0\<rparr>"

definition sample_env :: "(string \<Rightarrow> int option) export_env" where
  "sample_env = \<lparr>en_exec = kv_exec, en_query = (\<lambda>ns. GetSeriesMetadataByNames None sample_tables ns []), en_now = 0,
     en_order = (\<lambda>xs. xs), en_deadline = None,
     en_downstream = Some \<lparr>ds_first = Some \<lparr>ee_code = ''Unavailable'', ee_text = []\<rparr>, ds_pause = None, ds_second = None\<rparr>\<rparr>"

definition idle_state :: "(string \<Rightarrow> int option) export_state" where
  "idle_state = \<lparr>x_buf = None, x_redis = Map.empty, x_lookup = zero_counters, x_received = 0, x_dropped = 0,
     x_missingJob = 0, x_retries = 0, x_inFlight = 0, x_codes = [], x_sent = []\<rparr>"

lemma sample_rows:
  "request_rows sample_request =
     [(Some \<lparr>res_Attributes = [\<lparr>kv_Key = ''job'', kv_Value = Some (StringValue ''api'')\<rparr>]\<rparr>, ''s'',
        \<lparr>m_Name = ''up'', m_Description = [], m_Unit = [], m_Data = Gauge [''1'', ''2'']\<rparr>),
      (Some \<lparr>res_Attributes = [\<lparr>kv_Key = ''job'', kv_Value = Some (StringValue ''api'')\<rparr>]\<rparr>, ''s'',
        \<lparr>m_Name = ''reqs'', m_Description = [], m_Unit = [], m_Data = Sum [''3''] True\<rparr>)]"
  by (simp add: sample_request_def request_rows_def resource_rows_def scope_rows_def)

lemma idle_fields: "x_sent idle_state = []" "x_dropped idle_state = 0"
  by (simp_all add: idle_state_def)

lemma sample_call:
  "tables_wf sample_tables" "en_query sample_env = (\<lambda>ns. GetSeriesMetadataByNames None sample_tables ns [])"
  "usage_cache_sound sample_ingester sample_env sample_tables r" "iteration_of (en_order sample_env xs) xs"
  "en_downstream sample_env = Some \<lparr>ds_first = Some \<lparr>ee_code = ''Unavailable'', ee_text = []\<rparr>, ds_pause = None, ds_second = None\<rparr>"
  "\<exists>row \<in> set (request_rows sample_request). metric_name (snd (snd row)) \<noteq> []"
  by (simp_all add: sample_tables_wf sample_env_def usage_cache_sound_def sample_ingester_def sample_rows prometheusMetricName_def Let_def)

theorem Export_never_drops_used_witness:
  "\<exists>req' tout. \<exists>k \<in> {1, 2}. x_sent (snd (Export sample_ingester sample_env sample_request idle_state)) =
       x_sent idle_state @ replicate k (req', tout)
     \<and> request_rows sample_request ! 1 \<in> set (request_rows req')"
proof (rule Export_never_drops_used [OF sample_call])
  show "request_rows sample_request ! 1 \<in> set (request_rows sample_request)" by (simp add: sample_rows)
  show "\<not> metricIsEmpty (snd (snd (request_rows sample_request ! 1)))" by (simp add: sample_rows metricIsEmpty_def)
  have "metric_name (snd (snd (request_rows sample_request ! 1))) = ''reqs_total''"
    by (simp add: sample_rows prometheusMetricName_def Let_def HasSuffix_def)
  moreover have "''reqs_total'' \<notin> request_unused sample_tables sample_request"
    by (simp add: request_unused_def Let_def unused_names_def sample_verdict collectNamesAndCounts_def sample_rows
        isHistogram_def isSummary_def)
  ultimately show "dryRun sample_ingester \<or>
      metric_name (snd (snd (request_rows sample_request ! 1))) \<notin> request_unused sample_tables sample_request \<or>
      \<not> isUnusedDropActive (fst (resolveJob (fst (request_rows sample_request ! 1)))) (oi_allowedJobs sample_ingester)
           (oi_deniedJobs sample_ingester)"
    by simp
qed




text \<open>
  The time given to a downstream call is positive and never more than the configured
  timeout; with a deadline more than 50 ms away it ends 50 ms before the deadline. The cache
  never gets more than a tenth of that time.
\<close>

lemma timeouts_bounded:
  assumes "50 * millisecond \<le> oi_exportTimeout oi"
  shows "0 < computeExportTimeout dl (oi_exportTimeout oi)
       \<and> computeExportTimeout dl (oi_exportTimeout oi) \<le> oi_exportTimeout oi
       \<and> (case dl of Some d \<Rightarrow> 50 * millisecond < d \<and> d < oi_exportTimeout oi \<longrightarrow>
             computeExportTimeout dl (oi_exportTimeout oi) = d - 50 * millisecond | None \<Rightarrow> True)
       \<and> 0 \<le> computeCacheTimeout oi dl \<and> 10 * computeCacheTimeout oi dl \<le> computeExportTimeout dl (oi_exportTimeout oi)"
proof -
  let ?e = "computeExportTimeout dl (oi_exportTimeout oi)"
  have e: "0 < ?e" "?e \<le> oi_exportTimeout oi"
    using assms by (auto simp: computeExportTimeout_def Let_def duration_defs split: option.split)
  have dl: "case dl of Some d \<Rightarrow> 50 * millisecond < d \<and> d < oi_exportTimeout oi \<longrightarrow> ?e = d - 50 * millisecond | None \<Rightarrow> True"
    by (auto simp: computeExportTimeout_def Let_def duration_defs split: option.split)
  have "0 \<le> computeCacheTimeout oi dl"
    using e(1) by (auto simp: computeCacheTimeout_def Let_def sdiv_pos duration_defs split: option.splits)
  moreover have "10 * computeCacheTimeout oi dl \<le> ?e"
  proof -
    have "computeCacheTimeout oi dl \<le> ?e div 10"
      using e(1) by (simp add: computeCacheTimeout_def Let_def sdiv_pos)
    then show ?thesis by linarith
  qed
  ultimately show ?thesis using e dl by blast
qed

lemma timeouts_bounded_witness:
  "computeExportTimeout (Some (200 * millisecond)) (oi_exportTimeout sample_ingester) = 150 * millisecond"
  using timeouts_bounded [of sample_ingester "Some (200 * millisecond)"]
  by (simp add: sample_ingester_def duration_defs)

end
