(* ===== verification/Inventory.thy ===== *)
theory Inventory
  imports Sqlite_Store Config
begin

text \<open>
  The inventory syncer (\<open>internal/inventory/syncer.go\<close>, \<open>leader_pg.go\<close>): it fills the metrics
  catalog from the metadata of the upstream Prometheus, refreshes the usage summary and indexes
  metrics by job with a pool of workers. The Prometheus client is third-party: its answers are
  the record \<open>prom_api\<close>. Timeouts show up as failing answers; the readings of the clock, the
  order in which maps are ranged over and the failures of single writes are arguments.
\<close>

section \<open>Configuration\<close>

record Syncer =
  sy_timeWindow :: duration
  sy_interval :: duration
  sy_metadataLim :: string
  sy_metadataSyncEnabled :: bool
  sy_metadataMetricsNameOnly :: bool
  sy_runTimeout :: duration
  sy_metadataStepTimeout :: duration
  sy_summaryStepTimeout :: duration
  sy_jobSyncEnabled :: bool
  sy_jobIndexLabelTimeout :: duration
  sy_jobIndexPerJobTimeout :: duration
  sy_jobIndexWorkers :: int

text \<open>\<open>client\<close> is the failure of the client's constructor, if any.\<close>

definition NewSyncer :: "go_error option \<Rightarrow> ProxyConfig \<Rightarrow> go_error + Syncer" where
  "NewSyncer client cfg =
     (case client of
        Some err \<Rightarrow> Inl err
      | None \<Rightarrow>
          (let lim = (if cfg_MetadataLimit cfg > 0 then itoa (cfg_MetadataLimit cfg) else []);
               i = cfg_Inventory cfg in
           Inr \<lparr>sy_timeWindow = inv_TimeWindow i, sy_interval = inv_SyncInterval i, sy_metadataLim = lim,
                sy_metadataSyncEnabled = inv_MetadataSyncEnabled i,
                sy_metadataMetricsNameOnly = inv_MetadataMetricsNameOnly i,
                sy_runTimeout = inv_RunTimeout i, sy_metadataStepTimeout = inv_MetadataStepTimeout i,
                sy_summaryStepTimeout = inv_SummaryStepTimeout i, sy_jobSyncEnabled = inv_JobSyncEnabled i,
                sy_jobIndexLabelTimeout = inv_JobIndexLabelTimeout i,
                sy_jobIndexPerJobTimeout = inv_JobIndexPerJobTimeout i,
                sy_jobIndexWorkers = inv_JobIndexWorkers i\<rparr>))"

section \<open>The upstream and the store\<close>

record metadata_info =
  mi_Type :: string
  mi_Help :: string
  mi_Unit :: string

datatype query_result = Vector "(string, string) go_map list" | OtherResult

record prom_api =
  pa_Metadata :: "string \<Rightarrow> go_error + (string, metadata_info list) go_map"
  pa_LabelValues :: "string \<Rightarrow> time \<Rightarrow> time \<Rightarrow> go_error + string list"
  pa_Query :: "string \<Rightarrow> time \<Rightarrow> go_error + query_result"
  pa_IsValid :: "string \<Rightarrow> bool" \<comment> \<open>\<open>model.LabelValue.IsValid\<close>\<close>

text \<open>The operations of the provider that are called; \<open>'f\<close> is the fault a call meets, if any.\<close>

record ('f, 's) sync_store =
  ss_UpsertMetricsCatalog :: "'f \<Rightarrow> 's \<Rightarrow> MetricCatalogItem list \<Rightarrow> go_error option \<times> 's"
  ss_RefreshMetricsUsageSummary :: "'f \<Rightarrow> 's \<Rightarrow> TimeRange \<Rightarrow> go_error option \<times> 's"
  ss_UpsertMetricsJobIndex :: "'f \<Rightarrow> 's \<Rightarrow> MetricJobIndexItem list \<Rightarrow> go_error option \<times> 's"

section \<open>Catalog\<close>

definition metadata_items :: "string \<times> metadata_info list \<Rightarrow> MetricCatalogItem list" where
  "metadata_items = (\<lambda>(name, infos).
     (case infos of
        [] \<Rightarrow> []
      | info # _ \<Rightarrow>
          if mi_Type info = ''histogram'' then
            [\<lparr>ci_Name = name @ ''_bucket'', ci_Type = ''histogram_bucket'', ci_Help = mi_Help info @ '' (histogram buckets)'', ci_Unit = mi_Unit info\<rparr>,
             \<lparr>ci_Name = name @ ''_count'', ci_Type = ''histogram_count'', ci_Help = mi_Help info @ '' (histogram count)'', ci_Unit = []\<rparr>,
             \<lparr>ci_Name = name @ ''_sum'', ci_Type = ''histogram_sum'', ci_Help = mi_Help info @ '' (histogram sum)'', ci_Unit = mi_Unit info\<rparr>]
          else if mi_Type info = ''summary'' then
            [\<lparr>ci_Name = name, ci_Type = mi_Type info, ci_Help = mi_Help info, ci_Unit = mi_Unit info\<rparr>,
             \<lparr>ci_Name = name @ ''_count'', ci_Type = ''summary_count'', ci_Help = mi_Help info @ '' (summary count)'', ci_Unit = []\<rparr>,
             \<lparr>ci_Name = name @ ''_sum'', ci_Type = ''summary_sum'', ci_Help = mi_Help info @ '' (summary sum)'', ci_Unit = mi_Unit info\<rparr>]
          else [\<lparr>ci_Name = name, ci_Type = mi_Type info, ci_Help = mi_Help info, ci_Unit = mi_Unit info\<rparr>]))"

definition syncMetadataCatalog ::
  "prom_api \<Rightarrow> ('f, 's) sync_store \<Rightarrow> Syncer \<Rightarrow> 'f \<Rightarrow> 's \<Rightarrow> go_error option \<times> 's" where
  "syncMetadataCatalog api store sy f s =
     (case pa_Metadata api (sy_metadataLim sy) of
        Inl err \<Rightarrow> (Some err, s)
      | Inr meta \<Rightarrow> ss_UpsertMetricsCatalog store f s (concat (map metadata_items meta)))"

definition syncMetadataCatalogFromMetricNames ::
  "prom_api \<Rightarrow> ('f, 's) sync_store \<Rightarrow> Syncer \<Rightarrow> 'f \<Rightarrow> time \<Rightarrow> 's \<Rightarrow> go_error option \<times> 's" where
  "syncMetadataCatalogFromMetricNames api store sy f now s =
     (case pa_LabelValues api ''__name__'' (now + duration_neg (sy_timeWindow sy)) now of
        Inl err \<Rightarrow> (Some err, s)
      | Inr labelValues \<Rightarrow>
          ss_UpsertMetricsCatalog store f s
            (map (\<lambda>v. \<lparr>ci_Name = v, ci_Type = [], ci_Help = [], ci_Unit = []\<rparr>) (filter (pa_IsValid api) labelValues)))"

text \<open>
  The readings of the clock during a run: for the label values, for the window of the summary
  and for the window of the job index.
\<close>

record sync_clock =
  ck_names :: time
  ck_summary :: "time \<times> time"
  ck_jobs :: "time \<times> time"

definition window :: "Syncer \<Rightarrow> time \<times> time \<Rightarrow> TimeRange" where
  "window sy ck = \<lparr>tr_From = fst ck + duration_neg (sy_timeWindow sy), tr_To = snd ck\<rparr>"

definition syncCatalogAndSummary ::
  "prom_api \<Rightarrow> ('f, 's) sync_store \<Rightarrow> Syncer \<Rightarrow> 'f \<times> 'f \<Rightarrow> sync_clock \<Rightarrow> 's \<Rightarrow> go_error option \<times> 's" where
  "syncCatalogAndSummary api store sy f ck s =
     (let (err, s1) =
        (if sy_metadataSyncEnabled sy
         then (if sy_metadataMetricsNameOnly sy
               then syncMetadataCatalogFromMetricNames api store sy (fst f) (ck_names ck) s
               else syncMetadataCatalog api store sy (fst f) s)
         else (None, s)) in
      case err of
        Some e \<Rightarrow> (Some e, s1)
      | None \<Rightarrow> ss_RefreshMetricsUsageSummary store (snd f) s1 (window sy (ck_summary ck)))"

section \<open>Job index\<close>

definition job_query :: "string \<Rightarrow> string" where
  "job_query job = ''group({job='' @ [CHR 0x22] @ job @ [CHR 0x22] @ '', __name__=~'' @ [CHR 0x22] @ ''.+'' @ [CHR 0x22]
     @ ''}) by (__name__)''"

definition result_names :: "query_result \<Rightarrow> string list" where
  "result_names result =
     (case result of
        Vector v \<Rightarrow> remdups (List.map_filter (\<lambda>metric. map_of metric ''__name__'') v)
      | OtherResult \<Rightarrow> [])"

definition processJob ::
  "prom_api \<Rightarrow> ('f, 's) sync_store \<Rightarrow> (string list \<Rightarrow> string list) \<Rightarrow> TimeRange \<Rightarrow> string \<Rightarrow> 'f \<Rightarrow> 's \<Rightarrow> go_error option \<times> 's" where
  "processJob api store order tr job f s =
     (case pa_Query api (job_query job) (tr_To tr) of
        Inl err \<Rightarrow> (Some err, s)
      | Inr result \<Rightarrow>
          (let items = map (\<lambda>name. \<lparr>ji_Name = name, ji_Job = job\<rparr>) (order (result_names result)) in
           if length items > 0
           then (case ss_UpsertMetricsJobIndex store f s items of
                   (Some err, s') \<Rightarrow> (Some (''upsert job '' @ job @ '': '' @ err), s')
                 | (None, s') \<Rightarrow> (None, s'))
           else (None, s)))"

text \<open>The jobs one after the other: the errors of all of them and the store.\<close>

fun run_jobs ::
  "prom_api \<Rightarrow> ('f, 's) sync_store \<Rightarrow> (string list \<Rightarrow> string list) \<Rightarrow> TimeRange \<Rightarrow> (string \<times> 'f) list \<Rightarrow> 's \<Rightarrow> go_error option list \<times> 's" where
  "run_jobs api store order tr [] s = ([], s)"
| "run_jobs api store order tr ((job, f) # rest) s =
     (case processJob api store order tr job f s of
        (err, s1) \<Rightarrow> (case run_jobs api store order tr rest s1 of (errs, s2) \<Rightarrow> (err # errs, s2)))"

text \<open>
  The pool. The channel of jobs is as large as the list and is closed after the last job; each
  worker takes a job, processes it and sends its error, and returns when the channel is empty.
  The log of the jobs as they finish is kept for the statement of the properties.
\<close>

datatype worker = Idle | Busy string | Exited

record ('f, 's) pool =
  pl_chan :: "string list"
  pl_workers :: "worker list"
  pl_errors :: "go_error option list"
  pl_store :: 's
  pl_log :: "(string \<times> 'f) list"

inductive pool_step ::
  "prom_api \<Rightarrow> ('f, 's) sync_store \<Rightarrow> (string list \<Rightarrow> string list) \<Rightarrow> TimeRange \<Rightarrow> ('f, 's) pool \<Rightarrow> ('f, 's) pool \<Rightarrow> bool"
  for api store order tr where
  pool_take: "i < length (pl_workers p) \<Longrightarrow> pl_workers p ! i = Idle \<Longrightarrow> pl_chan p = job # rest \<Longrightarrow>
     pool_step api store order tr p (p\<lparr>pl_chan := rest, pl_workers := (pl_workers p)[i := Busy job]\<rparr>)"
| pool_finish: "i < length (pl_workers p) \<Longrightarrow> pl_workers p ! i = Busy job \<Longrightarrow>
     processJob api store order tr job f (pl_store p) = (err, s') \<Longrightarrow>
     pool_step api store order tr p (p\<lparr>pl_workers := (pl_workers p)[i := Idle], pl_errors := pl_errors p @ [err],
       pl_store := s', pl_log := pl_log p @ [(job, f)]\<rparr>)"
| pool_exit: "i < length (pl_workers p) \<Longrightarrow> pl_workers p ! i = Idle \<Longrightarrow> pl_chan p = [] \<Longrightarrow>
     pool_step api store order tr p (p\<lparr>pl_workers := (pl_workers p)[i := Exited]\<rparr>)"

definition pool_init :: "nat \<Rightarrow> string list \<Rightarrow> 's \<Rightarrow> ('f, 's) pool" where
  "pool_init workers jobs s =
     \<lparr>pl_chan = jobs, pl_workers = replicate workers Idle, pl_errors = [], pl_store = s, pl_log = []\<rparr>"

definition pool_done :: "('f, 's) pool \<Rightarrow> bool" where
  "pool_done p \<longleftrightarrow> (\<forall>w \<in> set (pl_workers p). w = Exited)"

text \<open>The verdict on the collected errors.\<close>

definition job_index_error :: "nat \<Rightarrow> go_error option list \<Rightarrow> go_error option" where
  "job_index_error jobsProcessed errs =
     (let failureCount = length (filter (\<lambda>e. e \<noteq> None) errs); successCount = length (filter (\<lambda>e. e = None) errs) in
      if failureCount > 0 \<and> failureCount > successCount div 2
      then Some (''job index sync failed: '' @ itoa failureCount @ '' failures out of '' @ itoa jobsProcessed @ '' jobs'')
      else None)"

text \<open>
  \<open>sched\<close> is the order in which the workers finish the jobs, with the fault each write meets;
  without workers no job is processed and no error is reported.
\<close>

definition syncJobIndex ::
  "prom_api \<Rightarrow> ('f, 's) sync_store \<Rightarrow> (string list \<Rightarrow> string list) \<Rightarrow> (string list \<Rightarrow> (string \<times> 'f) list)
   \<Rightarrow> Syncer \<Rightarrow> TimeRange \<Rightarrow> 's \<Rightarrow> go_error option \<times> 's" where
  "syncJobIndex api store order sched sy tr s =
     (case pa_LabelValues api ''job'' (tr_From tr) (tr_To tr) of
        Inl err \<Rightarrow> (None, s)
      | Inr jobs \<Rightarrow>
          if length jobs = 0 then (None, s)
          else (let todo = filter (\<lambda>job. job \<noteq> []) jobs;
                    (errs, s') = (if sy_jobIndexWorkers sy \<le> 0 then ([], s) else run_jobs api store order tr (sched todo) s) in
                (job_index_error (length todo) errs, s')))"

section \<open>Runs\<close>

text \<open>One run: whether the success or the failure counter is incremented, and the store.\<close>

definition Syncer_runOnce ::
  "prom_api \<Rightarrow> ('f, 's) sync_store \<Rightarrow> (string list \<Rightarrow> string list) \<Rightarrow> (string list \<Rightarrow> (string \<times> 'f) list)
   \<Rightarrow> Syncer \<Rightarrow> 'f \<times> 'f \<Rightarrow> sync_clock \<Rightarrow> 's \<Rightarrow> bool \<times> 's" where
  "Syncer_runOnce api store order sched sy f ck s =
     (case syncCatalogAndSummary api store sy f ck s of
        (Some err, s1) \<Rightarrow> (False, s1)
      | (None, s1) \<Rightarrow>
          (True, if sy_jobSyncEnabled sy then snd (syncJobIndex api store order sched sy (window sy (ck_jobs ck)) s1) else s1))"

text \<open>
  The period of the ticker; \<open>rand.Int63n\<close> panics (\<open>None\<close>) for an argument that is not positive,
  and so does \<open>time.NewTicker\<close>.
\<close>

definition Syncer_tick_period :: "(int \<Rightarrow> int) \<Rightarrow> Syncer \<Rightarrow> duration option" where
  "Syncer_tick_period rnd sy =
     (if sy_interval sy sdiv 5 \<le> 0 then None
      else let d = sy_interval sy + rnd (sy_interval sy sdiv 5) in if d \<le> 0 then None else Some d)"

text \<open>The runs of the loop until the context ends, given the faults and the clock of each.\<close>

fun Syncer_runLoop ::
  "prom_api \<Rightarrow> ('f, 's) sync_store \<Rightarrow> (string list \<Rightarrow> string list) \<Rightarrow> (string list \<Rightarrow> (string \<times> 'f) list)
   \<Rightarrow> Syncer \<Rightarrow> (('f \<times> 'f) \<times> sync_clock) list \<Rightarrow> 's \<Rightarrow> 's" where
  "Syncer_runLoop api store order sched sy [] s = s"
| "Syncer_runLoop api store order sched sy ((f, ck) # runs) s =
     Syncer_runLoop api store order sched sy runs (snd (Syncer_runOnce api store order sched sy f ck s))"

section \<open>Leadership\<close>

text \<open>The waits of \<open>RunWithLeader\<close> while another instance leads.\<close>

definition Syncer_next_backoff :: "duration \<Rightarrow> duration" where
  "Syncer_next_backoff backoff = (if backoff < 10 * second then backoff * 2 else backoff)"

definition Syncer_leader_wait :: "(int \<Rightarrow> int) \<Rightarrow> duration \<Rightarrow> duration" where
  "Syncer_leader_wait rnd backoff = backoff + rnd backoff"

text \<open>
  The attempts to become leader through a PostgreSQL advisory lock: what one round of the loop
  meets. A round that is not leader waits two seconds, unless the context ends first.
\<close>

datatype lock_attempt = CtxDone | ConnFailed | LockFailed | NotLeader bool | Leader

fun WithPGAdvisoryLeadership :: "('s \<Rightarrow> 's) \<Rightarrow> lock_attempt list \<Rightarrow> 's \<Rightarrow> 's" where
  "WithPGAdvisoryLeadership fn [] s = s"
| "WithPGAdvisoryLeadership fn (a # rest) s =
     (case a of
        CtxDone \<Rightarrow> s
      | ConnFailed \<Rightarrow> s
      | LockFailed \<Rightarrow> s
      | NotLeader ended \<Rightarrow> if ended then s else WithPGAdvisoryLeadership fn rest s
      | Leader \<Rightarrow> fn s)"

section \<open>The pool is a sequential run in some order\<close>

fun worker_jobs :: "worker \<Rightarrow> string list" where
  "worker_jobs (Busy job) = [job]"
| "worker_jobs Idle = []"
| "worker_jobs Exited = []"

definition pool_jobs :: "('f, 's) pool \<Rightarrow> string multiset" where
  "pool_jobs p = mset (map fst (pl_log p)) + mset (concat (map worker_jobs (pl_workers p))) + mset (pl_chan p)"

lemma concat_update:
  assumes "i < length ws"
  shows "mset (concat (map worker_jobs (ws[i := w]))) + mset (worker_jobs (ws ! i)) =
    mset (concat (map worker_jobs ws)) + mset (worker_jobs w)"
proof -
  note split = id_take_nth_drop [OF assms]
  have "mset (concat (map worker_jobs ws)) =
      mset (concat (map worker_jobs (take i ws))) + mset (worker_jobs (ws ! i)) + mset (concat (map worker_jobs (drop (Suc i) ws)))"
    by (subst split) simp
  then show ?thesis using assms by (simp add: upd_conv_take_nth_drop)
qed

lemma run_jobs_snoc:
  assumes "run_jobs api store order tr lg s = (errs, s1)" "processJob api store order tr job f s1 = (err, s2)"
  shows "run_jobs api store order tr (lg @ [(job, f)]) s = (errs @ [err], s2)"
  using assms by (induction lg arbitrary: s errs) (auto split: prod.splits)

definition pool_inv where
  "pool_inv api store order tr todo n s p \<longleftrightarrow>
     pool_jobs p = mset todo \<and> length (pl_workers p) = n \<and>
     run_jobs api store order tr (pl_log p) s = (pl_errors p, pl_store p) \<and>
     (Exited \<in> set (pl_workers p) \<longrightarrow> pl_chan p = [])"

lemma pool_jobs_step: "pool_step api store order tr p p' \<Longrightarrow> pool_jobs p' = pool_jobs p"
proof (induction rule: pool_step.induct)
  case (pool_take i p job rest)
  then show ?case using concat_update [of i "pl_workers p" "Busy job"] by (simp add: pool_jobs_def)
next
  case (pool_finish i p job f err s')
  then have "mset (concat (map worker_jobs (pl_workers p))) = add_mset job (mset (concat (map worker_jobs ((pl_workers p)[i := Idle]))))"
    using concat_update [of i "pl_workers p" Idle] by simp
  then show ?case by (simp add: pool_jobs_def)
next
  case (pool_exit i p)
  then show ?case using concat_update [of i "pl_workers p" Exited] by (simp add: pool_jobs_def)
qed

lemma pool_inv_step:
  assumes "pool_step api store order tr p p'" "pool_inv api store order tr todo n s p"
  shows "pool_inv api store order tr todo n s p'"
  using assms(1,2) pool_jobs_step [OF assms(1)] unfolding pool_inv_def
  by cases (auto simp: run_jobs_snoc dest: set_update_subset_insert [THEN subsetD])

lemma pool_inv_init: "pool_inv api store order tr todo n s (pool_init n todo s)"
  by (auto simp: pool_inv_def pool_init_def pool_jobs_def in_set_conv_nth concat_replicate_trivial)

lemma pool_inv_reachable:
  "(pool_step api store order tr)\<^sup>*\<^sup>* (pool_init n todo s) p \<Longrightarrow> pool_inv api store order tr todo n s p"
  by (induction rule: rtranclp_induct) (auto intro: pool_inv_init pool_inv_step)

lemma pool_done_serial:
  assumes "(pool_step api store order tr)\<^sup>*\<^sup>* (pool_init n todo s) p" "pool_done p" "0 < n"
  shows "mset (map fst (pl_log p)) = mset todo"
    and "run_jobs api store order tr (pl_log p) s = (pl_errors p, pl_store p)"
proof -
  note iv = pool_inv_reachable [OF assms(1), unfolded pool_inv_def]
  have w: "pl_workers p = replicate n Exited"
    using assms(2) iv by (auto simp: pool_done_def intro: replicate_eqI)
  with iv assms(3) have "pl_chan p = []" by simp
  with iv w show "mset (map fst (pl_log p)) = mset todo"
    by (simp add: pool_jobs_def concat_replicate_trivial)
  from iv show "run_jobs api store order tr (pl_log p) s = (pl_errors p, pl_store p)" by blast
qed

section \<open>What the syncer relies on\<close>

text \<open>The pairs a job's query gives.\<close>

definition job_pairs :: "prom_api \<Rightarrow> TimeRange \<Rightarrow> string \<Rightarrow> (string \<times> string) set" where
  "job_pairs api tr job =
     (case pa_Query api (job_query job) (tr_To tr) of Inl _ \<Rightarrow> {} | Inr result \<Rightarrow> (\<lambda>n. (n, job)) ` set (result_names result))"

locale inventory_db =
  fixes store :: "('f, 's) sync_store"
    and catalog :: "'s \<Rightarrow> string set"
    and indexed :: "'s \<Rightarrow> (string \<times> string) set"
    and summary :: "'s \<Rightarrow> 'u"
  assumes catalog_ok: "ss_UpsertMetricsCatalog store f s items = (None, s') \<Longrightarrow>
      catalog s' = catalog s \<union> ci_Name ` set items \<and> indexed s' = indexed s \<and> summary s' = summary s"
    and catalog_failed: "ss_UpsertMetricsCatalog store f s items = (Some e, s') \<Longrightarrow> s' = s"
    and refresh_ok: "ss_RefreshMetricsUsageSummary store f s tr = (err, s') \<Longrightarrow>
      catalog s' = catalog s \<and> indexed s' = indexed s"
    and refresh_failed: "ss_RefreshMetricsUsageSummary store f s tr = (Some e, s') \<Longrightarrow> s' = s"
    and index_ok: "ss_UpsertMetricsJobIndex store f s jobs = (None, s') \<Longrightarrow>
      indexed s' = indexed s \<union> (\<lambda>j. (ji_Name j, ji_Job j)) ` set jobs \<and> catalog s' = catalog s \<and> summary s' = summary s"
    and index_failed: "ss_UpsertMetricsJobIndex store f s jobs = (Some e, s') \<Longrightarrow> s' = s"
begin

lemma processJob_indexed:
  assumes "\<And>xs. iteration_of (order xs) xs" "processJob api store order tr job f s = (err, s')"
  shows "indexed s' = indexed s \<union> (if err = None then job_pairs api tr job else {})
       \<and> catalog s' = catalog s \<and> summary s' = summary s"
proof (cases "pa_Query api (job_query job) (tr_To tr)")
  case (Inl e)
  with assms(2) show ?thesis by (auto simp: processJob_def)
next
  case (Inr result)
  let ?items = "map (\<lambda>name. \<lparr>ji_Name = name, ji_Job = job\<rparr>) (order (result_names result))"
  have items: "(\<lambda>j. (ji_Name j, ji_Job j)) ` set ?items = job_pairs api tr job"
    using iteration_of_set [OF assms(1)] Inr by (simp add: job_pairs_def image_image)
  show ?thesis
  proof (cases "?items = []")
    case True
    then have "job_pairs api tr job = {}" using items by simp
    with True Inr assms(2) show ?thesis by (auto simp: processJob_def Let_def)
  next
    case False
    obtain r s1 where u: "ss_UpsertMetricsJobIndex store f s ?items = (r, s1)" by (rule prod.exhaust)
    have e: "s' = s1" "err = None \<longleftrightarrow> r = None"
      using False Inr assms(2) u by (auto simp: processJob_def Let_def split: option.splits)
    show ?thesis
    proof (cases r)
      case None
      with index_ok [OF u [unfolded None]] items e show ?thesis by simp
    next
      case (Some x)
      with index_failed [OF u [unfolded Some]] e show ?thesis by auto
    qed
  qed
qed

lemma run_jobs_indexed:
  assumes "\<And>xs. iteration_of (order xs) xs" "run_jobs api store order tr lg s = (errs, s')"
  shows "indexed s' = indexed s \<union> \<Union> {job_pairs api tr job | job f. ((job, f), None) \<in> set (zip lg errs)}
       \<and> catalog s' = catalog s \<and> summary s' = summary s \<and> length errs = length lg"
  using assms(2)
proof (induction lg arbitrary: s errs)
  case (Cons x lg)
  obtain job f where x: "x = (job, f)" by fastforce
  obtain err s1 where p: "processJob api store order tr job f s = (err, s1)" by fastforce
  obtain errs' where r: "run_jobs api store order tr lg s1 = (errs', s')" and e: "errs = err # errs'"
    using Cons.prems by (auto simp: x p split: prod.splits)
  have "\<Union> {job_pairs api tr j | j g. ((j, g), None) \<in> set (zip (x # lg) errs)} =
      (if err = None then job_pairs api tr job else {}) \<union> \<Union> {job_pairs api tr j | j g. ((j, g), None) \<in> set (zip lg errs')}"
    by (auto simp: x e)
  with Cons.IH [OF r] processJob_indexed [OF assms(1) p] show ?case by (auto simp: e)
qed auto

lemma syncJobIndex_keeps:
  assumes "\<And>xs. iteration_of (order xs) xs"
  shows "catalog (snd (syncJobIndex api store order sched sy tr s)) = catalog s
       \<and> summary (snd (syncJobIndex api store order sched sy tr s)) = summary s"
proof -
  have "catalog (snd (run_jobs api store order tr lg s)) = catalog s \<and> summary (snd (run_jobs api store order tr lg s)) = summary s" for lg
    using run_jobs_indexed [OF assms prod.collapse [symmetric], of api tr lg s] by (intro conjI) (elim conjE, assumption)+
  then show ?thesis by (simp add: syncJobIndex_def Let_def split_beta split: sum.split)
qed

lemma runOnce_ok:
  assumes "\<And>xs. iteration_of (order xs) xs"
    and "Syncer_runOnce api store order sched sy f ck s = (True, s')"
  obtains s1 s2 where "if sy_metadataSyncEnabled sy
       then (if sy_metadataMetricsNameOnly sy
             then syncMetadataCatalogFromMetricNames api store sy (fst f) (ck_names ck) s
             else syncMetadataCatalog api store sy (fst f) s) = (None, s1)
       else s1 = s"
    and "ss_RefreshMetricsUsageSummary store (snd f) s1 (window sy (ck_summary ck)) = (None, s2)"
    and "catalog s' = catalog s1" "summary s' = summary s2"
    and "s' = (if sy_jobSyncEnabled sy then snd (syncJobIndex api store order sched sy (window sy (ck_jobs ck)) s2) else s2)"
proof -
  obtain s2 where c: "syncCatalogAndSummary api store sy f ck s = (None, s2)"
    and s': "s' = (if sy_jobSyncEnabled sy then snd (syncJobIndex api store order sched sy (window sy (ck_jobs ck)) s2) else s2)"
    using assms(2) by (auto simp: Syncer_runOnce_def split: prod.splits option.splits)
  have k: "catalog s' = catalog s2" "summary s' = summary s2"
    using syncJobIndex_keeps [OF assms(1)] by (simp_all add: s')
  show thesis
    using c that [of _ s2] k s' refresh_ok
    by (fastforce simp: syncCatalogAndSummary_def Let_def split: prod.splits if_splits option.splits)
qed

lemma runOnce_failed:
  assumes "Syncer_runOnce api store order sched sy f ck s = (False, s')"
  shows "indexed s' = indexed s \<and> summary s' = summary s"
proof -
  obtain err s1 where c: "syncCatalogAndSummary api store sy f ck s = (Some err, s1)" and s': "s' = s1"
    using assms by (auto simp: Syncer_runOnce_def split: prod.splits option.splits)
  have up: "ss_UpsertMetricsCatalog store g t items = (r, t') \<Longrightarrow> indexed t' = indexed t \<and> summary t' = summary t" for g t items r t'
    using catalog_ok catalog_failed by (cases r) blast+
  show ?thesis
    using c refresh_failed unfolding s'
    by (auto simp: syncCatalogAndSummary_def syncMetadataCatalog_def syncMetadataCatalogFromMetricNames_def Let_def
        split: prod.splits if_splits option.splits sum.splits dest: up refresh_failed)
qed

end

section \<open>The SQLite provider\<close>

definition sqlite_sync_store :: "(time \<Rightarrow> string) \<Rightarrow> time \<Rightarrow> (db_faults, tables) sync_store" where
  "sqlite_sync_store ct now =
     \<lparr>ss_UpsertMetricsCatalog = (\<lambda>f. UpsertMetricsCatalog f now),
      ss_RefreshMetricsUsageSummary = (\<lambda>f. RefreshMetricsUsageSummary ct (f_exec f 0) now),
      ss_UpsertMetricsJobIndex = (\<lambda>f. UpsertMetricsJobIndex f now)\<rparr>"

definition catalog_keys :: "tables \<Rightarrow> string set" where
  "catalog_keys t = fst ` set (t_catalog t)"

definition job_keys :: "tables \<Rightarrow> (string \<times> string) set" where
  "job_keys t = fst ` set (t_jobs t)"

lemma fold_upsert_catalog_keys:
  "catalog_keys (fold (upsert_catalog now) items t) = catalog_keys t \<union> ci_Name ` set items
   \<and> t_jobs (fold (upsert_catalog now) items t) = t_jobs t
   \<and> t_summary (fold (upsert_catalog now) items t) = t_summary t"
  by (induction items arbitrary: t) (auto simp: catalog_keys_def upsert_catalog_def Let_def dom_update)

lemma fold_upsert_job_keys:
  "job_keys (fold (upsert_job now) items t) = job_keys t \<union> (\<lambda>j. (ji_Name j, ji_Job j)) ` set items
   \<and> t_catalog (fold (upsert_job now) items t) = t_catalog t
   \<and> t_summary (fold (upsert_job now) items t) = t_summary t"
  by (induction items arbitrary: t) (auto simp: job_keys_def upsert_job_def dom_update)

lemma UpsertMetricsCatalog_result:
  "UpsertMetricsCatalog f now t items = (err, t') \<Longrightarrow> t' = (if err = None then fold (upsert_catalog now) items t else t)"
  by (auto simp: UpsertMetricsCatalog_def dest: run_tx_result split: if_splits)

lemma UpsertMetricsJobIndex_result:
  "UpsertMetricsJobIndex f now t items = (err, t') \<Longrightarrow> t' = (if err = None then fold (upsert_job now) items t else t)"
  by (auto simp: UpsertMetricsJobIndex_def dest: run_tx_result split: if_splits)

interpretation sqlite_inventory: inventory_db "sqlite_sync_store ct now" catalog_keys job_keys t_summary for ct now
proof (unfold_locales, goal_cases)
  case (1 f t items t')
  then show ?case
    using UpsertMetricsCatalog_result [of f now t items None t'] fold_upsert_catalog_keys [of now items t]
    by (simp add: sqlite_sync_store_def job_keys_def)
next
  case (2 f t items e t')
  then show ?case using UpsertMetricsCatalog_result [of f now t items "Some e" t'] by (simp add: sqlite_sync_store_def)
next
  case (3 f t tr err t')
  then show ?case
    by (auto simp: sqlite_sync_store_def RefreshMetricsUsageSummary_def catalog_keys_def job_keys_def split: option.splits)
next
  case (4 f t tr e t')
  then show ?case by (auto simp: sqlite_sync_store_def RefreshMetricsUsageSummary_def split: option.splits)
next
  case (5 f t jobs t')
  then show ?case
    using UpsertMetricsJobIndex_result [of f now t jobs None t'] fold_upsert_job_keys [of now jobs t]
    by (simp add: sqlite_sync_store_def catalog_keys_def)
next
  case (6 f t jobs e t')
  then show ?case using UpsertMetricsJobIndex_result [of f now t jobs "Some e" t'] by (simp add: sqlite_sync_store_def)
qed

text \<open>
  C7. The worker pool indexes every job once, whatever the interleaving of the workers: a finished
  pool has processed the jobs in some order, each exactly once, its errors and tables are those
  of the sequential run in that order, and the index has gained exactly the metrics of the jobs
  that reported no error.
\<close>

theorem job_pool_refines_sequential:
  assumes "(pool_step api (sqlite_sync_store ct now) order tr)\<^sup>*\<^sup>* (pool_init workers todo t) p" "pool_done p" "0 < workers"
    and "\<And>xs. iteration_of (order xs) xs"
  shows "mset (map fst (pl_log p)) = mset todo
       \<and> run_jobs api (sqlite_sync_store ct now) order tr (pl_log p) t = (pl_errors p, pl_store p)
       \<and> job_keys (pl_store p) = job_keys t \<union>
           \<Union> {job_pairs api tr job | job f. ((job, f), None) \<in> set (zip (pl_log p) (pl_errors p))}
       \<and> catalog_keys (pl_store p) = catalog_keys t \<and> t_summary (pl_store p) = t_summary t"
  using pool_done_serial [OF assms(1,2,3)] sqlite_inventory.run_jobs_indexed [OF assms(4) pool_done_serial(2) [OF assms(1,2,3)]]
  by blast

definition two_jobs :: prom_api where
  "two_jobs =
     \<lparr>pa_Metadata = (\<lambda>_. Inr [(''up'', [\<lparr>mi_Type = ''gauge'', mi_Help = [], mi_Unit = []\<rparr>])]),
      pa_LabelValues = (\<lambda>l _ _. Inr (if l = ''job'' then [''node''] else [''up''])),
      pa_Query = (\<lambda>_ _. Inr (Vector [[(''__name__'', ''up'')]])), pa_IsValid = (\<lambda>_. True)\<rparr>"

definition sample_window :: TimeRange where
  "sample_window = \<lparr>tr_From = 0, tr_To = hour\<rparr>"

theorem job_pool_refines_sequential_witness:
  "\<exists>p. (pool_step two_jobs (sqlite_sync_store utc_text 0) id sample_window)\<^sup>*\<^sup>* (pool_init 1 [''node''] empty_tables) p
     \<and> pool_done p \<and> job_keys (pl_store p) = {(''up'', ''node'')}"
proof -
  let ?s = "pool_step two_jobs (sqlite_sync_store utc_text 0) id sample_window"
  let ?t = "empty_tables\<lparr>t_jobs := [((''up'', ''node''), 0)]\<rparr>"
  define p0 :: "(db_faults, tables) pool" where "p0 = pool_init 1 [''node''] empty_tables"
  define p1 where "p1 = p0\<lparr>pl_chan := [], pl_workers := (pl_workers p0)[0 := Busy ''node'']\<rparr>"
  define p2 where "p2 = p1\<lparr>pl_workers := (pl_workers p1)[0 := Idle], pl_errors := pl_errors p1 @ [None],
      pl_store := ?t, pl_log := pl_log p1 @ [(''node'', no_faults)]\<rparr>"
  define p3 where "p3 = p2\<lparr>pl_workers := (pl_workers p2)[0 := Exited]\<rparr>"
  have "?s p0 p1" unfolding p1_def by (rule pool_take) (simp_all add: p0_def pool_init_def)
  moreover have "processJob two_jobs (sqlite_sync_store utc_text 0) id sample_window ''node'' no_faults empty_tables = (None, ?t)"
    by (simp add: processJob_def two_jobs_def result_names_def map_filter_simps sqlite_sync_store_def UpsertMetricsJobIndex_def
        upsert_job_def empty_tables_def)
  then have "?s p1 p2" unfolding p2_def
    by (intro pool_finish) (simp_all add: p1_def p0_def pool_init_def)
  moreover have "?s p2 p3" unfolding p3_def
    by (rule pool_exit) (simp_all add: p2_def p1_def p0_def pool_init_def)
  ultimately have r: "?s\<^sup>*\<^sup>* p0 p3" by (meson converse_rtranclp_into_rtranclp rtranclp.rtrancl_refl)
  have d: "pool_done p3" by (simp add: pool_done_def p3_def p2_def p1_def p0_def pool_init_def)
  have "job_keys (pl_store p3) = job_keys empty_tables \<union>
      \<Union> {job_pairs two_jobs sample_window job | job f. ((job, f), None) \<in> set (zip (pl_log p3) (pl_errors p3))}"
    using job_pool_refines_sequential [OF r [unfolded p0_def] d] by simp
  moreover have "pl_log p3 = [(''node'', no_faults)]" "pl_errors p3 = [None]"
    by (simp_all add: p3_def p2_def p1_def p0_def pool_init_def)
  moreover have "job_pairs two_jobs sample_window ''node'' = {(''up'', ''node'')}"
    by (simp add: job_pairs_def two_jobs_def result_names_def map_filter_simps)
  ultimately have "job_keys (pl_store p3) = {(''up'', ''node'')}"
    by (simp add: job_keys_def empty_tables_def)
  with r d show ?thesis unfolding p0_def by blast
qed

section \<open>The pool always finishes\<close>

fun worker_weight :: "worker \<Rightarrow> nat" where
  "worker_weight (Busy job) = 2"
| "worker_weight Idle = 1"
| "worker_weight Exited = 0"

definition pool_measure :: "('f, 's) pool \<Rightarrow> nat" where
  "pool_measure p = 2 * length (pl_chan p) + sum_list (map worker_weight (pl_workers p))"

lemma weight_update:
  "i < length ws \<Longrightarrow> sum_list (map worker_weight (ws[i := w])) + worker_weight (ws ! i) =
     sum_list (map worker_weight ws) + worker_weight w"
  by (induction ws arbitrary: i) (auto split: nat.split simp: nth_Cons)

lemma pool_step_measure: "pool_step api store order tr p p' \<Longrightarrow> pool_measure p' < pool_measure p"
proof (induction rule: pool_step.induct)
  case (pool_take i p job rest)
  then show ?case using weight_update [of i "pl_workers p" "Busy job"] by (simp add: pool_measure_def)
next
  case (pool_finish i p job f err s')
  then show ?case using weight_update [of i "pl_workers p" Idle] by (simp add: pool_measure_def)
next
  case (pool_exit i p)
  then show ?case using weight_update [of i "pl_workers p" Exited] by (simp add: pool_measure_def)
qed

lemma pool_progress:
  assumes "\<not> pool_done p"
  shows "\<exists>p'. pool_step api store order tr p p'"
proof -
  obtain i where i: "i < length (pl_workers p)" "pl_workers p ! i \<noteq> Exited"
    using assms by (auto simp: pool_done_def in_set_conv_nth)
  show ?thesis
  proof (cases "pl_workers p ! i")
    case Idle
    with i show ?thesis by (cases "pl_chan p") (blast intro: pool_take pool_exit)+
  next
    case (Busy job)
    then show ?thesis using i pool_finish [OF i(1) Busy] by (metis surj_pair)
  qed (use i in simp)
qed

text \<open>
  C8. The pool terminates: every step brings it closer to the end, it is never stuck before all
  workers have returned, and so from every state a finished one is reached; without workers it
  is finished at once, with no job processed and no error reported.
\<close>

theorem job_pool_terminates:
  "(pool_step api store order tr p p' \<longrightarrow> pool_measure p' < pool_measure p)
   \<and> (\<exists>q. (pool_step api store order tr)\<^sup>*\<^sup>* p q \<and> pool_done q)
   \<and> pool_done (pool_init 0 todo s)"
proof (intro conjI impI)
  show "\<exists>q. (pool_step api store order tr)\<^sup>*\<^sup>* p q \<and> pool_done q"
  proof (induction "pool_measure p" arbitrary: p rule: less_induct)
    case less
    show ?case
    proof (cases "pool_done p")
      case False
      then obtain p' where "pool_step api store order tr p p'" using pool_progress by blast
      with less [of p'] pool_step_measure show ?thesis by (meson converse_rtranclp_into_rtranclp)
    qed blast
  qed
qed (simp_all add: pool_step_measure pool_done_def pool_init_def)

theorem job_pool_terminates_witness:
  "\<exists>q. (pool_step two_jobs (sqlite_sync_store utc_text 0) id sample_window)\<^sup>*\<^sup>* (pool_init 3 [''node''] empty_tables) q \<and> pool_done q"
  by (rule job_pool_terminates [THEN conjunct2, THEN conjunct1])

section \<open>One run\<close>

text \<open>
  A failed run leaves the usage summary and the job index as they were; a run that counts
  as successful and syncs metadata has every metric the upstream described in the catalog,
  histograms by their three series and summaries by theirs, next to all that was there before.
\<close>

lemma inventory_run_outcome:
  assumes "Syncer_runOnce api (sqlite_sync_store ct now) order sched sy f ck t = (ok, t')"
    and "\<And>xs. iteration_of (order xs) xs"
    and "sy_metadataSyncEnabled sy" "\<not> sy_metadataMetricsNameOnly sy" "pa_Metadata api (sy_metadataLim sy) = Inr meta"
  shows "(\<not> ok \<longrightarrow> job_keys t' = job_keys t \<and> t_summary t' = t_summary t)
       \<and> (ok \<longrightarrow> catalog_keys t' = catalog_keys t \<union> ci_Name ` set (concat (map metadata_items meta)))"
proof (cases ok)
  case True
  with assms(1) have "Syncer_runOnce api (sqlite_sync_store ct now) order sched sy f ck t = (True, t')" by simp
  then obtain t1 where t1: "syncMetadataCatalog api (sqlite_sync_store ct now) sy (fst f) t = (None, t1)"
    and "catalog_keys t' = catalog_keys t1"
    using sqlite_inventory.runOnce_ok [OF assms(2)] assms(3,4) by metis
  then show ?thesis
    using True assms(5) sqlite_inventory.catalog_ok [of ct now "fst f" t "concat (map metadata_items meta)" t1]
    by (simp add: syncMetadataCatalog_def)
next
  case False
  then show ?thesis using sqlite_inventory.runOnce_failed assms(1) by (metis (full_types))
qed

definition sample_syncer :: Syncer where
  "sample_syncer =
     \<lparr>sy_timeWindow = hour, sy_interval = hour, sy_metadataLim = [], sy_metadataSyncEnabled = True,
      sy_metadataMetricsNameOnly = False, sy_runTimeout = minute, sy_metadataStepTimeout = minute,
      sy_summaryStepTimeout = minute, sy_jobSyncEnabled = False, sy_jobIndexLabelTimeout = minute,
      sy_jobIndexPerJobTimeout = minute, sy_jobIndexWorkers = 4\<rparr>"

definition sample_clock :: sync_clock where
  "sample_clock = \<lparr>ck_names = 0, ck_summary = (hour, hour), ck_jobs = (hour, hour)\<rparr>"

text \<open>A run of it on tables without a catalog.\<close>

lemma sample_run:
  assumes "t_catalog t = []" "t_summary t = []"
  shows "\<exists>c su. Syncer_runOnce two_jobs (sqlite_sync_store utc_text 0) id (map (\<lambda>j. (j, no_faults))) sample_syncer
      (no_faults, no_faults) sample_clock t = (True, t\<lparr>t_catalog := [(''up'', c)], t_summary := [(''up'', su)]\<rparr>)"
  using assms
  by (simp add: Syncer_runOnce_def syncCatalogAndSummary_def sample_syncer_def syncMetadataCatalog_def two_jobs_def
        sqlite_sync_store_def UpsertMetricsCatalog_def metadata_items_def RefreshMetricsUsageSummary_def Let_def no_faults_def
        run_tx_no_faults [unfolded no_faults_def] upsert_catalog_def) (rule exI, rule exI, rule refl)

lemma inventory_run_outcome_witness:
  "fst (Syncer_runOnce two_jobs (sqlite_sync_store utc_text 0) id (map (\<lambda>j. (j, no_faults))) sample_syncer
      (no_faults, no_faults) sample_clock empty_tables)
   \<and> catalog_keys (snd (Syncer_runOnce two_jobs (sqlite_sync_store utc_text 0) id (map (\<lambda>j. (j, no_faults))) sample_syncer
      (no_faults, no_faults) sample_clock empty_tables)) = {''up''}"
  (is "fst ?r \<and> _")
proof
  show ok: "fst ?r"
    using sample_run [of empty_tables] by (auto simp: empty_tables_def)
  have sy: "sy_metadataSyncEnabled sample_syncer" "\<not> sy_metadataMetricsNameOnly sample_syncer"
    "pa_Metadata two_jobs (sy_metadataLim sample_syncer) = Inr [(''up'', [\<lparr>mi_Type = ''gauge'', mi_Help = [], mi_Unit = []\<rparr>])]"
    by (simp_all add: sample_syncer_def two_jobs_def)
  have "catalog_keys (snd ?r) = catalog_keys empty_tables \<union>
      ci_Name ` set (concat (map metadata_items [(''up'', [\<lparr>mi_Type = ''gauge'', mi_Help = [], mi_Unit = []\<rparr>])]))"
    using ok inventory_run_outcome [OF prod.collapse [symmetric] _ sy] by (metis id_apply iteration_of_refl)
  then show "catalog_keys (snd ?r) = {''up''}"
    by (simp add: metadata_items_def catalog_keys_def empty_tables_def)
qed

end
