(* ===== verification/Prom_Fingerprint.thy ===== *)
theory Prom_Fingerprint
  imports Go_Prelude "HOL-Library.Word" "HOL-Library.Char_ord" "HOL-Library.List_Lexorder"
begin

text \<open>
  Query fingerprints (\<open>internal/promfp/fingerprint.go\<close>) and the label matchers of a query
  (\<open>labelMatchersFromQuery\<close> of \<open>internal/ingester/queryIngester.go\<close>).

  The PromQL parser, its printer and the hash are third-party: they are the parameters
  \<open>parse\<close>, \<open>print\<close> and \<open>sum64\<close>, gathered in a record. A syntax tree is kept as far as the two
  functions read it: the label matchers of a vector selector, the range and the selector of a
  matrix selector, the grouping labels of an aggregation and the label lists of a vector
  matching. Whatever else a node holds is its opaque part, of type \<open>'a\<close>. \<open>parser.Inspect\<close>
  visits a node and then, depth first, its children; the visitor of \<open>Fingerprint\<close> changes the
  nodes in place. \<open>sort.Slice\<close> is not stable, so the order of matchers with equal names is not
  determined: sorting matchers is a parameter too, of which only sortedness is known.
\<close>

section \<open>Syntax trees\<close>

record matcher =
  lm_Type :: nat
  lm_Name :: string
  lm_Value :: string

record vector_matching =
  vm_MatchingLabels :: "string list"
  vm_Include :: "string list"

datatype 'a expr =
    VectorSelector 'a "matcher list"
  | MatrixSelector 'a "'a expr" duration
  | AggregateExpr 'a "string list" "'a expr list"
  | BinaryExpr 'a "vector_matching option" "'a expr list"
  | OtherNode 'a "'a expr list"

record 'a promql =
  pq_parse :: "string \<Rightarrow> 'a expr option"
  pq_print :: "'a expr \<Rightarrow> string"
  pq_sum64 :: "string \<Rightarrow> 64 word"
  pq_sort :: "matcher list \<Rightarrow> matcher list"

text \<open>What \<open>sort.Slice\<close> by name guarantees.\<close>

definition sorts_matchers :: "(matcher list \<Rightarrow> matcher list) \<Rightarrow> bool" where
  "sorts_matchers srt \<longleftrightarrow> (\<forall>ms. mset (srt ms) = mset ms \<and> sorted (map lm_Name (srt ms)))"

section \<open>The visitor\<close>

definition mask_matcher :: "matcher \<Rightarrow> matcher" where
  "mask_matcher m = (if lm_Name m \<noteq> ''__name__'' then m\<lparr>lm_Value := ''MASKED''\<rparr> else m)"

definition normalize_matchers :: "(matcher list \<Rightarrow> matcher list) \<Rightarrow> matcher list \<Rightarrow> matcher list" where
  "normalize_matchers srt ms = map mask_matcher (srt ms)"

definition normalize_matching :: "vector_matching \<Rightarrow> vector_matching" where
  "normalize_matching v = \<lparr>vm_MatchingLabels = sort (vm_MatchingLabels v), vm_Include = sort (vm_Include v)\<rparr>"

text \<open>
  \<open>Inspect\<close> with that visitor. The children are visited after their parent has been changed,
  so the selector of a matrix selector is normalised twice.
\<close>

fun inspect :: "(matcher list \<Rightarrow> matcher list) \<Rightarrow> bool \<Rightarrow> 'a expr \<Rightarrow> 'a expr" where
  "inspect srt ignoreRanges (VectorSelector a ms) = VectorSelector a (normalize_matchers srt ms)"
| "inspect srt ignoreRanges (MatrixSelector a sel rng) =
     MatrixSelector a
       (case sel of
          VectorSelector b ms \<Rightarrow> VectorSelector b (normalize_matchers srt (normalize_matchers srt ms))
        | _ \<Rightarrow> inspect srt ignoreRanges sel)
       (if ignoreRanges then 0 else rng)"
| "inspect srt ignoreRanges (AggregateExpr a grouping es) =
     AggregateExpr a (sort grouping) (map (inspect srt ignoreRanges) es)"
| "inspect srt ignoreRanges (BinaryExpr a matching es) =
     BinaryExpr a (map_option normalize_matching matching) (map (inspect srt ignoreRanges) es)"
| "inspect srt ignoreRanges (OtherNode a es) = OtherNode a (map (inspect srt ignoreRanges) es)"

text \<open>The text \<open>%x\<close> gives: lower case, without leading zeros.\<close>

definition hex_digit :: "nat \<Rightarrow> char" where
  "hex_digit d = (if d < 10 then char_of (48 + d) else char_of (87 + d))"

fun hex :: "nat \<Rightarrow> string" where
  "hex n = (if n < 16 then [hex_digit n] else hex (n div 16) @ [hex_digit (n mod 16)])"

declare hex.simps [simp del]

definition Fingerprint :: "'a promql \<Rightarrow> string \<Rightarrow> bool \<Rightarrow> string \<times> string" where
  "Fingerprint pq query ignoreRanges =
     (case pq_parse pq query of
        None \<Rightarrow> ([], [])
      | Some expr \<Rightarrow>
          (let canonical = pq_print pq (inspect (pq_sort pq) ignoreRanges expr) in
           (hex (unat (pq_sum64 pq canonical)), canonical)))"

section \<open>Label matchers\<close>

text \<open>The vector selectors of a tree in the order \<open>Inspect\<close> reaches them.\<close>

fun selectors :: "'a expr \<Rightarrow> matcher list list" where
  "selectors (VectorSelector a ms) = [ms]"
| "selectors (MatrixSelector a sel rng) = selectors sel"
| "selectors (AggregateExpr a grouping es) = concat (map selectors es)"
| "selectors (BinaryExpr a matching es) = concat (map selectors es)"
| "selectors (OtherNode a es) = concat (map selectors es)"

definition matcher_map :: "matcher list \<Rightarrow> (string, string) go_map" where
  "matcher_map ms = fold (\<lambda>m v. AList.update (lm_Name m) (lm_Value m) v) ms []"

definition labelMatchersFromQuery :: "'a promql \<Rightarrow> string \<Rightarrow> (string, string) go_map list" where
  "labelMatchersFromQuery pq query =
     (case pq_parse pq query of None \<Rightarrow> [] | Some expr \<Rightarrow> map matcher_map (selectors expr))"

definition fingerprintFromQuery :: "'a promql \<Rightarrow> string \<Rightarrow> string" where
  "fingerprintFromQuery pq query = (case Fingerprint pq query False of (hash, _) \<Rightarrow> hash)"

section \<open>What a fingerprint identifies\<close>

text \<open>
  The shape of a query: the tree without the order of labels, without the values of matchers
  other than the metric name and, when ranges are ignored, without ranges.
\<close>

datatype 'a shape =
    SVector 'a "matcher multiset"
  | SMatrix 'a "'a shape" duration
  | SAggregate 'a "string multiset" "'a shape list"
  | SBinary 'a "(string multiset \<times> string multiset) option" "'a shape list"
  | SOther 'a "'a shape list"

fun shape_of :: "bool \<Rightarrow> 'a expr \<Rightarrow> 'a shape" where
  "shape_of ig (VectorSelector a ms) = SVector a (image_mset mask_matcher (mset ms))"
| "shape_of ig (MatrixSelector a sel rng) = SMatrix a (shape_of ig sel) (if ig then 0 else rng)"
| "shape_of ig (AggregateExpr a grouping es) = SAggregate a (mset grouping) (map (shape_of ig) es)"
| "shape_of ig (BinaryExpr a matching es) =
     SBinary a (map_option (\<lambda>v. (mset (vm_MatchingLabels v), mset (vm_Include v))) matching) (map (shape_of ig) es)"
| "shape_of ig (OtherNode a es) = SOther a (map (shape_of ig) es)"

text \<open>Matchers of one selector with the same name are the same once their values are masked.\<close>

definition coherent :: "'a expr \<Rightarrow> bool" where
  "coherent e \<longleftrightarrow> (\<forall>ms \<in> set (selectors e). inj_on lm_Name (mask_matcher ` set ms))"

lemma mask_idem [simp]: "mask_matcher (mask_matcher m) = mask_matcher m"
  by (simp add: mask_matcher_def)

lemma lm_Name_mask [simp]: "lm_Name (mask_matcher m) = lm_Name m"
  by (simp add: mask_matcher_def)

lemma normalize_mset:
  "sorts_matchers srt \<Longrightarrow> mset (normalize_matchers srt ms) = image_mset mask_matcher (mset ms)"
  by (simp add: sorts_matchers_def normalize_matchers_def)

lemma normalize_sorted: "sorts_matchers srt \<Longrightarrow> sorted (map lm_Name (normalize_matchers srt ms))"
  by (simp add: sorts_matchers_def normalize_matchers_def comp_def)

lemma mask_normalized:
  assumes "sorts_matchers srt"
  shows "image_mset mask_matcher (mset (normalize_matchers srt ms)) = image_mset mask_matcher (mset ms)"
  by (simp add: normalize_mset [OF assms] image_mset.compositionality comp_def)

text \<open>The normalised list is the sorted list of the masked matchers, whatever the sort does on ties.\<close>

lemma normalize_canonical:
  assumes "sorts_matchers srt" "inj_on lm_Name (mask_matcher ` set ms)"
  shows "normalize_matchers srt ms = sort_key lm_Name (map mask_matcher ms)"
  by (rule sort_key_inj_key_eq [symmetric])
     (use assms in \<open>simp_all add: normalize_mset normalize_sorted\<close>)

lemma normalize_twice:
  assumes "sorts_matchers srt" "inj_on lm_Name (mask_matcher ` set ms)"
  shows "normalize_matchers srt (normalize_matchers srt ms) = normalize_matchers srt ms"
proof -
  have s: "mask_matcher ` set (normalize_matchers srt ms) = mask_matcher ` set ms"
    using arg_cong [OF mask_normalized [OF assms(1)], of set_mset ms] by simp
  have "map mask_matcher (normalize_matchers srt ms) = normalize_matchers srt ms"
    by (simp add: normalize_matchers_def comp_def)
  moreover have "sort_key lm_Name (normalize_matchers srt ms) = normalize_matchers srt ms"
    using normalize_sorted [OF assms(1)] by (simp add: sort_key_id_if_sorted)
  ultimately show ?thesis using normalize_canonical [OF assms(1)] assms(2) s by metis
qed

lemma shape_of_inspect: "sorts_matchers srt \<Longrightarrow> shape_of ig (inspect srt ig e) = shape_of ig e"
proof (induction e)
  case (MatrixSelector a sel rng)
  then show ?case by (cases sel) (simp_all add: mask_normalized)
next
  case (BinaryExpr a matching es)
  then show ?case by (cases matching) (simp_all add: normalize_matching_def)
qed (simp_all add: mask_normalized)

lemma coherent_simps:
  "coherent (VectorSelector a ms) \<longleftrightarrow> inj_on lm_Name (mask_matcher ` set ms)"
  "coherent (MatrixSelector a sel rng) \<longleftrightarrow> coherent sel"
  "coherent (AggregateExpr a g es) \<longleftrightarrow> (\<forall>e \<in> set es. coherent e)"
  "coherent (BinaryExpr a m es) \<longleftrightarrow> (\<forall>e \<in> set es. coherent e)"
  "coherent (OtherNode a es) \<longleftrightarrow> (\<forall>e \<in> set es. coherent e)"
  by (auto simp: coherent_def)

text \<open>For coherent trees the second normalisation below a matrix selector changes nothing.\<close>

lemma inspect_matrix:
  "sorts_matchers srt \<Longrightarrow> coherent sel \<Longrightarrow>
     inspect srt ig (MatrixSelector a sel rng) = MatrixSelector a (inspect srt ig sel) (if ig then 0 else rng)"
  by (cases sel) (simp_all add: normalize_twice coherent_simps)

text \<open>The tree rebuilt from a shape.\<close>

fun rebuild :: "'a shape \<Rightarrow> 'a expr" where
  "rebuild (SVector a M) = VectorSelector a (THE ms. mset ms = M \<and> sorted (map lm_Name ms))"
| "rebuild (SMatrix a s rng) = MatrixSelector a (rebuild s) rng"
| "rebuild (SAggregate a G ss) = AggregateExpr a (sorted_list_of_multiset G) (map rebuild ss)"
| "rebuild (SBinary a m ss) =
     BinaryExpr a (map_option (\<lambda>(L, I). \<lparr>vm_MatchingLabels = sorted_list_of_multiset L, vm_Include = sorted_list_of_multiset I\<rparr>) m)
       (map rebuild ss)"
| "rebuild (SOther a ss) = OtherNode a (map rebuild ss)"

lemma rebuild_vector:
  assumes "sorts_matchers srt" "inj_on lm_Name (mask_matcher ` set ms)"
  shows "(THE l. mset l = image_mset mask_matcher (mset ms) \<and> sorted (map lm_Name l)) = normalize_matchers srt ms"
proof (rule the_equality)
  show "mset (normalize_matchers srt ms) = image_mset mask_matcher (mset ms) \<and> sorted (map lm_Name (normalize_matchers srt ms))"
    using normalize_mset [OF assms(1)] normalize_sorted [OF assms(1)] by blast
next
  fix l assume "mset l = image_mset mask_matcher (mset ms) \<and> sorted (map lm_Name l)"
  then have "sort_key lm_Name (map mask_matcher ms) = l"
    by (intro sort_key_inj_key_eq) (use assms in simp_all)
  then show "l = normalize_matchers srt ms" using normalize_canonical [OF assms] by simp
qed

lemma inspect_rebuild:
  "sorts_matchers srt \<Longrightarrow> coherent e \<Longrightarrow> inspect srt ig e = rebuild (shape_of ig e)"
proof (induction e)
  case (VectorSelector a ms)
  then show ?case by (simp add: rebuild_vector coherent_simps)
next
  case (MatrixSelector a sel rng)
  then show ?case by (simp add: inspect_matrix coherent_simps del: inspect.simps)
next
  case (BinaryExpr a matching es)
  then show ?case by (cases matching) (simp_all add: coherent_simps normalize_matching_def)
qed (simp_all add: coherent_simps)


text \<open>
  A parser of two selections, \<open>foo{b="1",a="2"}\<close> and \<open>foo{a="X",b="Y"}\<close>, with a printer that
  lists the matchers.
\<close>

definition sample_promql :: "unit promql" where
  "sample_promql =
     \<lparr>pq_parse = (\<lambda>q.
        if q = ''q1'' then Some (VectorSelector () [\<lparr>lm_Type = 0, lm_Name = ''b'', lm_Value = ''1''\<rparr>,
             \<lparr>lm_Type = 0, lm_Name = ''a'', lm_Value = ''2''\<rparr>, \<lparr>lm_Type = 0, lm_Name = ''__name__'', lm_Value = ''foo''\<rparr>])
        else if q = ''q2'' then Some (VectorSelector () [\<lparr>lm_Type = 0, lm_Name = ''a'', lm_Value = ''X''\<rparr>,
             \<lparr>lm_Type = 0, lm_Name = ''b'', lm_Value = ''Y''\<rparr>, \<lparr>lm_Type = 0, lm_Name = ''__name__'', lm_Value = ''foo''\<rparr>])
        else None),
      pq_print = (\<lambda>e. concat (map (\<lambda>m. lm_Name m @ ''='' @ lm_Value m @ '';'') (concat (selectors e)))),
      pq_sum64 = (\<lambda>s. of_nat (length s)),
      pq_sort = sort_key lm_Name\<rparr>"

lemma sorts_matchers_sort_key: "sorts_matchers (sort_key lm_Name)"
  by (simp add: sorts_matchers_def)


section \<open>Matchers by name\<close>

text \<open>The map of a selector holds, per name, the value of the last matcher with that name.\<close>

lemma map_of_matcher_map:
  "map_of (matcher_map ms) n = map_option lm_Value (find (\<lambda>m. lm_Name m = n) (rev ms))"
proof -
  have "map_of (fold (\<lambda>m v. AList.update (lm_Name m) (lm_Value m) v) ms v0) n =
      (case find (\<lambda>m. lm_Name m = n) (rev ms) of None \<Rightarrow> map_of v0 n | Some m \<Rightarrow> Some (lm_Value m))" for v0
    by (induction ms rule: rev_induct) auto
  then show ?thesis by (simp add: matcher_map_def split: option.split)
qed

lemma map_wf_matcher_map: "map_wf (matcher_map ms)"
proof -
  have "map_wf v0 \<Longrightarrow> map_wf (fold (\<lambda>m v. AList.update (lm_Name m) (lm_Value m) v) ms v0)" for v0
    by (induction ms arbitrary: v0) auto
  then show ?thesis by (simp add: matcher_map_def)
qed

end
