(* ===== verification/Query_Ingester.thy ===== *)
theory Query_Ingester
  imports Sqlite_Store Prom_Fingerprint
begin

text \<open>
  The ingester of proxied queries (\<open>internal/ingester/queryIngester.go\<close>): handlers hand each
  executed query to a bounded channel, one goroutine collects them into batches and inserts a
  batch when it is full, at every tick and, at shutdown, after closing the channel. The PromQL
  parser, its printer and the hash are the parameter \<open>pq\<close> of \<open>Prom_Fingerprint\<close>. A step relation interleaves the handlers, the goroutine and the shutdown.
\<close>

section \<open>Configuration and state\<close>

text \<open>Without \<open>WithBufferSize\<close> the channel is nil: every send is refused.\<close>

record QueryIngester =
  qi_bufferSize :: "nat option"
  qi_ingestTimeout :: duration
  qi_shutdownGracePeriod :: duration
  qi_batchSize :: nat
  qi_batchFlushInterval :: duration

datatype QueryIngesterOption =
    WithBufferSize nat
  | WithIngestTimeout duration
  | WithShutdownGracePeriod duration
  | WithBatchSize nat
  | WithBatchFlushInterval duration

fun apply_option :: "QueryIngesterOption \<Rightarrow> QueryIngester \<Rightarrow> QueryIngester" where
  "apply_option (WithBufferSize n) qi = qi\<lparr>qi_bufferSize := Some n\<rparr>"
| "apply_option (WithIngestTimeout d) qi = qi\<lparr>qi_ingestTimeout := d\<rparr>"
| "apply_option (WithShutdownGracePeriod d) qi = qi\<lparr>qi_shutdownGracePeriod := d\<rparr>"
| "apply_option (WithBatchSize n) qi = qi\<lparr>qi_batchSize := n\<rparr>"
| "apply_option (WithBatchFlushInterval d) qi = qi\<lparr>qi_batchFlushInterval := d\<rparr>"

definition NewQueryIngester :: "QueryIngesterOption list \<Rightarrow> QueryIngester" where
  "NewQueryIngester opts = fold apply_option opts
     \<lparr>qi_bufferSize = None, qi_ingestTimeout = 0, qi_shutdownGracePeriod = 0, qi_batchSize = 0, qi_batchFlushInterval = 0\<rparr>"

text \<open>
  The running ingester. \<open>qs_sizes\<close> are the observations of the batch size histogram. The last
  three fields record the history: what handlers submitted, which batches the database accepted
  and which it refused (those are logged and gone).
\<close>

record 's qi_state =
  qs_chan :: "Query list"
  qs_closed :: bool
  qs_batch :: "Query list"
  qs_store :: 's
  qs_droppedClosed :: "Query list"
  qs_droppedBlocked :: "Query list"
  qs_sizes :: "nat list"
  qs_submitted :: "Query list"
  qs_accepted :: "Query list list"
  qs_refused :: "Query list list"

definition qi_init :: "'s \<Rightarrow> 's qi_state" where
  "qi_init s = \<lparr>qs_chan = [], qs_closed = False, qs_batch = [], qs_store = s, qs_droppedClosed = [],
     qs_droppedBlocked = [], qs_sizes = [], qs_submitted = [], qs_accepted = [], qs_refused = []\<rparr>"

section \<open>Operations\<close>

definition Ingest :: "QueryIngester \<Rightarrow> Query \<Rightarrow> 's qi_state \<Rightarrow> 's qi_state" where
  "Ingest qi query st0 =
     (let st = st0\<lparr>qs_submitted := qs_submitted st0 @ [query]\<rparr> in
      if qs_closed st then st\<lparr>qs_droppedClosed := qs_droppedClosed st @ [query]\<rparr>
      else (case qi_bufferSize qi of
              None \<Rightarrow> st\<lparr>qs_droppedBlocked := qs_droppedBlocked st @ [query]\<rparr>
            | Some n \<Rightarrow>
                if length (qs_chan st) < n then st\<lparr>qs_chan := qs_chan st @ [query]\<rparr>
                else st\<lparr>qs_droppedBlocked := qs_droppedBlocked st @ [query]\<rparr>))"

definition enrich :: "'a promql \<Rightarrow> Query \<Rightarrow> Query" where
  "enrich pq query =
     query\<lparr>q_Fingerprint := fingerprintFromQuery pq (q_QueryParam query),
           q_LabelMatchers := labelMatchersFromQuery pq (q_QueryParam query)\<rparr>"

definition ingest ::
  "('s \<Rightarrow> Query list \<Rightarrow> go_error option \<times> 's) \<Rightarrow> Query list \<Rightarrow> 's qi_state \<Rightarrow> 's qi_state" where
  "ingest ins queries st =
     (case ins (qs_store st) queries of
        (None, s') \<Rightarrow> st\<lparr>qs_store := s', qs_sizes := qs_sizes st @ [length queries], qs_accepted := qs_accepted st @ [queries]\<rparr>
      | (Some err, s') \<Rightarrow> st\<lparr>qs_store := s', qs_sizes := qs_sizes st @ [length queries], qs_refused := qs_refused st @ [queries]\<rparr>)"

text \<open>Adding one query to the batch, flushing the batch when it is full.\<close>

definition add_to_batch ::
  "QueryIngester \<Rightarrow> ('s \<Rightarrow> Query list \<Rightarrow> go_error option \<times> 's) \<Rightarrow> Query \<Rightarrow> 's qi_state \<Rightarrow> 's qi_state" where
  "add_to_batch qi ins query st =
     (let batch = qs_batch st @ [query] in
      if length batch \<ge> qi_batchSize qi then (ingest ins batch st)\<lparr>qs_batch := []\<rparr>
      else st\<lparr>qs_batch := batch\<rparr>)"

text \<open>One iteration of the loop of \<open>Run\<close> for each case of its \<open>select\<close>.\<close>

definition run_receive ::
  "QueryIngester \<Rightarrow> 'a promql
   \<Rightarrow> ('s \<Rightarrow> Query list \<Rightarrow> go_error option \<times> 's) \<Rightarrow> 's qi_state \<Rightarrow> 's qi_state" where
  "run_receive qi pq ins st =
     (case qs_chan st of
        [] \<Rightarrow> st
      | query # rest \<Rightarrow> add_to_batch qi ins (enrich pq query) (st\<lparr>qs_chan := rest\<rparr>))"

definition run_tick :: "('s \<Rightarrow> Query list \<Rightarrow> go_error option \<times> 's) \<Rightarrow> 's qi_state \<Rightarrow> 's qi_state" where
  "run_tick ins st =
     (if length (qs_batch st) > 0 then (ingest ins (qs_batch st) st)\<lparr>qs_batch := []\<rparr> else st)"

definition drainWithGracePeriod ::
  "QueryIngester \<Rightarrow> ('s \<Rightarrow> Query list \<Rightarrow> go_error option \<times> 's) \<Rightarrow> 's qi_state \<Rightarrow> 's qi_state" where
  "drainWithGracePeriod qi ins st =
     (let st' = fold (add_to_batch qi ins) (qs_chan st) (st\<lparr>qs_chan := []\<rparr>) in
      if length (qs_batch st') > 0 then (ingest ins (qs_batch st') st')\<lparr>qs_batch := []\<rparr> else st')"

definition run_shutdown ::
  "QueryIngester \<Rightarrow> ('s \<Rightarrow> Query list \<Rightarrow> go_error option \<times> 's) \<Rightarrow> 's qi_state \<Rightarrow> 's qi_state" where
  "run_shutdown qi ins st = drainWithGracePeriod qi ins (st\<lparr>qs_closed := True\<rparr>)"

text \<open>
  Handlers submit at any time. Until the shutdown the goroutine receives or ticks; the shutdown
  holds the write lock to its end, and afterwards nothing but refused submissions happens. Each
  insert may fail.
\<close>

inductive qi_step ::
  "QueryIngester \<Rightarrow> 'a promql
   \<Rightarrow> ('f \<Rightarrow> 's \<Rightarrow> Query list \<Rightarrow> go_error option \<times> 's) \<Rightarrow> 's qi_state \<Rightarrow> 's qi_state \<Rightarrow> bool"
  for qi pq ins where
  submit: "qi_step qi pq ins st (Ingest qi query st)"
| receive: "\<not> qs_closed st \<Longrightarrow> qi_step qi pq ins st (run_receive qi pq (ins ferr) st)"
| tick: "\<not> qs_closed st \<Longrightarrow> qi_step qi pq ins st (run_tick (ins ferr) st)"
| shutdown: "\<not> qs_closed st \<Longrightarrow> qi_step qi pq ins st (run_shutdown qi (ins ferr) st)"

section \<open>Accounting\<close>

text \<open>Enriching changes two fields only; the query is recognised by the rest.\<close>

definition core :: "Query \<Rightarrow> Query" where
  "core q = q\<lparr>q_Fingerprint := [], q_LabelMatchers := []\<rparr>"

lemma core_enrich [simp]: "core (enrich pq q) = core q"
  by (simp add: core_def enrich_def)

definition qs_all :: "'s qi_state \<Rightarrow> Query list" where
  "qs_all st = qs_chan st @ qs_batch st @ concat (qs_accepted st) @ concat (qs_refused st) @ qs_droppedClosed st @ qs_droppedBlocked st"

definition balanced :: "'s qi_state \<Rightarrow> bool" where
  "balanced st \<longleftrightarrow> image_mset core (mset (qs_submitted st)) = image_mset core (mset (qs_all st))"

definition batch_bound :: "QueryIngester \<Rightarrow> nat" where
  "batch_bound qi = max 1 (qi_batchSize qi)"

definition bounded :: "QueryIngester \<Rightarrow> 's qi_state \<Rightarrow> bool" where
  "bounded qi st \<longleftrightarrow> length (qs_batch st) < batch_bound qi \<and>
     (\<forall>b \<in> set (qs_accepted st @ qs_refused st). 0 < length b \<and> length b \<le> batch_bound qi) \<and>
     length (qs_chan st) \<le> (case qi_bufferSize qi of None \<Rightarrow> 0 | Some n \<Rightarrow> n)"

definition quiescent :: "'s qi_state \<Rightarrow> bool" where
  "quiescent st \<longleftrightarrow> (qs_closed st \<longrightarrow> qs_chan st = [] \<and> qs_batch st = [])"

lemma ingest_fields:
  "qs_chan (ingest ins b st) = qs_chan st" "qs_batch (ingest ins b st) = qs_batch st"
  "qs_closed (ingest ins b st) = qs_closed st" "qs_submitted (ingest ins b st) = qs_submitted st"
  "qs_droppedClosed (ingest ins b st) = qs_droppedClosed st" "qs_droppedBlocked (ingest ins b st) = qs_droppedBlocked st"
  "mset (qs_accepted (ingest ins b st)) + mset (qs_refused (ingest ins b st)) = add_mset b (mset (qs_accepted st) + mset (qs_refused st))"
  by (simp_all add: ingest_def split: prod.split option.split)

lemma mset_concat_two: "mset (concat xs) + mset (concat ys) = \<Sum>\<^sub># (image_mset mset (mset xs + mset ys))"
  by (simp add: mset_concat flip: sum_mset_sum_list)

lemma ingest_balanced:
  "image_mset core (mset (qs_all ((ingest ins b st)\<lparr>qs_batch := []\<rparr>)))
   = image_mset core (mset (qs_chan st)) + image_mset core (mset b) + image_mset core (mset (concat (qs_accepted st)) + mset (concat (qs_refused st)))
     + image_mset core (mset (qs_droppedClosed st)) + image_mset core (mset (qs_droppedBlocked st))"
proof -
  have "mset (concat (qs_accepted (ingest ins b st))) + mset (concat (qs_refused (ingest ins b st)))
      = mset b + (mset (concat (qs_accepted st)) + mset (concat (qs_refused st)))"
    unfolding mset_concat_two ingest_fields(7) by simp
  then have "image_mset core (mset (concat (qs_accepted (ingest ins b st)))) + image_mset core (mset (concat (qs_refused (ingest ins b st))))
      = image_mset core (mset b) + image_mset core (mset (concat (qs_accepted st)) + mset (concat (qs_refused st)))"
    by (metis image_mset_union)
  then show ?thesis
    by (simp add: qs_all_def ingest_fields(1-6) add.assoc add.commute add.left_commute)
qed

lemma add_to_batch_all:
  "image_mset core (mset (qs_all (add_to_batch qi ins q st))) = add_mset (core q) (image_mset core (mset (qs_all st)))"
proof (cases "length (qs_batch st @ [q]) \<ge> qi_batchSize qi")
  case True
  then show ?thesis
    by (simp add: add_to_batch_def ingest_balanced) (simp add: qs_all_def)
next
  case False
  then show ?thesis by (simp add: add_to_batch_def qs_all_def)
qed

lemma add_to_batch_fields:
  "qs_chan (add_to_batch qi ins q st) = qs_chan st" "qs_closed (add_to_batch qi ins q st) = qs_closed st"
  "qs_submitted (add_to_batch qi ins q st) = qs_submitted st"
  by (simp_all add: add_to_batch_def Let_def ingest_fields)

lemma fold_add_all:
  "image_mset core (mset (qs_all (fold (add_to_batch qi ins) qs st))) = image_mset core (mset qs) + image_mset core (mset (qs_all st))
   \<and> qs_chan (fold (add_to_batch qi ins) qs st) = qs_chan st \<and> qs_closed (fold (add_to_batch qi ins) qs st) = qs_closed st
   \<and> qs_submitted (fold (add_to_batch qi ins) qs st) = qs_submitted st"
  by (induction qs arbitrary: st) (simp_all add: add_to_batch_all add_to_batch_fields)

lemma flush_all:
  "image_mset core (mset (qs_all ((ingest ins (qs_batch st) st)\<lparr>qs_batch := []\<rparr>))) = image_mset core (mset (qs_all st))"
  unfolding ingest_balanced by (simp add: qs_all_def)

lemma qs_all_batch: "qs_all (st\<lparr>qs_closed := c\<rparr>) = qs_all st"
  by (simp add: qs_all_def)

lemma mset_qs_all_chan: "mset (qs_all st) = mset (qs_chan st) + mset (qs_all (st\<lparr>qs_chan := []\<rparr>))"
  by (simp add: qs_all_def)

lemma drain_all:
  "image_mset core (mset (qs_all (drainWithGracePeriod qi ins st))) = image_mset core (mset (qs_all st))
   \<and> qs_chan (drainWithGracePeriod qi ins st) = [] \<and> qs_batch (drainWithGracePeriod qi ins st) = []
   \<and> qs_closed (drainWithGracePeriod qi ins st) = qs_closed st \<and> qs_submitted (drainWithGracePeriod qi ins st) = qs_submitted st"
proof -
  let ?f = "fold (add_to_batch qi ins) (qs_chan st) (st\<lparr>qs_chan := []\<rparr>)"
  have "image_mset core (mset (qs_all ?f)) = image_mset core (mset (qs_all st))"
    using fold_add_all [of qi ins "qs_chan st" "st\<lparr>qs_chan := []\<rparr>"] mset_qs_all_chan [of st] by simp
  then show ?thesis
    using fold_add_all [of qi ins "qs_chan st" "st\<lparr>qs_chan := []\<rparr>"] flush_all [of ins ?f]
    by (auto simp: drainWithGracePeriod_def Let_def ingest_fields)
qed

lemma qi_step_balanced: "qi_step qi pq ins st st' \<Longrightarrow> balanced st \<Longrightarrow> balanced st'"
proof (induction rule: qi_step.induct)
  case (submit st query)
  then show ?case by (auto simp: balanced_def Ingest_def Let_def qs_all_def split: option.split)
next
  case (receive st ferr)
  then show ?case
    by (cases "qs_chan st")
      (simp_all add: run_receive_def balanced_def add_to_batch_all add_to_batch_fields, simp add: qs_all_def)
next
  case (tick st ferr)
  then show ?case
    using flush_all [of "ins ferr" st] by (simp add: run_tick_def balanced_def ingest_fields)
next
  case (shutdown st ferr)
  then show ?case
    using drain_all [of qi "ins ferr" "st\<lparr>qs_closed := True\<rparr>"]
    by (simp add: run_shutdown_def balanced_def qs_all_batch)
qed

lemma ingest_bounded:
  assumes "bounded qi st" "0 < length b" "length b \<le> batch_bound qi"
  shows "bounded qi ((ingest ins b st)\<lparr>qs_batch := []\<rparr>)"
  using assms by (auto simp: bounded_def ingest_def batch_bound_def split: prod.splits option.splits)

lemma add_to_batch_bounded:
  assumes "bounded qi st"
  shows "bounded qi (add_to_batch qi ins q st)"
proof (cases "length (qs_batch st @ [q]) \<ge> qi_batchSize qi")
  case True
  have "length (qs_batch st @ [q]) \<le> batch_bound qi" using assms by (simp add: bounded_def)
  with ingest_bounded [OF assms, of "qs_batch st @ [q]" ins] True show ?thesis by (simp add: add_to_batch_def)
next
  case False
  with assms show ?thesis by (auto simp: add_to_batch_def bounded_def batch_bound_def)
qed

lemma fold_add_bounded:
  "bounded qi st \<Longrightarrow> bounded qi (fold (add_to_batch qi ins) qs st)"
  by (induction qs arbitrary: st) (simp_all add: add_to_batch_bounded)

lemma qi_step_bounded: "qi_step qi pq ins st st' \<Longrightarrow> bounded qi st \<Longrightarrow> bounded qi st'"
proof (induction rule: qi_step.induct)
  case (submit st query)
  then show ?case by (auto simp: bounded_def Ingest_def Let_def split: option.split)
next
  case (receive st ferr)
  have "bounded qi (st\<lparr>qs_chan := rest\<rparr>)" if "qs_chan st = q # rest" for q rest
    using receive that by (auto simp: bounded_def)
  then show ?case
    using receive by (auto simp: run_receive_def add_to_batch_bounded split: list.split)
next
  case (tick st ferr)
  then show ?case
    using ingest_bounded [of qi st "qs_batch st" "ins ferr"] by (auto simp: run_tick_def bounded_def)
next
  case (shutdown st ferr)
  let ?f = "fold (add_to_batch qi (ins ferr)) (qs_chan st) (st\<lparr>qs_closed := True, qs_chan := []\<rparr>)"
  have f: "bounded qi ?f" by (rule fold_add_bounded) (use shutdown in \<open>auto simp: bounded_def\<close>)
  then have "length (qs_batch ?f) \<le> batch_bound qi" by (simp add: bounded_def)
  with f ingest_bounded [OF f, of "qs_batch ?f" "ins ferr"] show ?case
    by (auto simp: run_shutdown_def drainWithGracePeriod_def Let_def)
qed

lemma qi_step_quiescent: "qi_step qi pq ins st st' \<Longrightarrow> quiescent st \<Longrightarrow> quiescent st'"
proof (induction rule: qi_step.induct)
  case (submit st query)
  then show ?case by (auto simp: quiescent_def Ingest_def Let_def split: option.split)
next
  case (receive st ferr)
  then show ?case by (auto simp: quiescent_def run_receive_def add_to_batch_fields split: list.split)
next
  case (tick st ferr)
  then show ?case by (auto simp: quiescent_def run_tick_def ingest_fields)
next
  case (shutdown st ferr)
  then show ?case using drain_all [of qi "ins ferr" "st\<lparr>qs_closed := True\<rparr>"] by (simp add: quiescent_def run_shutdown_def)
qed

lemma qi_reachable:
  assumes "(qi_step qi pq ins)\<^sup>*\<^sup>* (qi_init s) st"
  shows "balanced st \<and> bounded qi st \<and> quiescent st"
  using assms
proof (induction rule: rtranclp_induct)
  case base
  show ?case by (auto simp: qi_init_def balanced_def bounded_def quiescent_def qs_all_def batch_bound_def split: option.split)
next
  case (step y z)
  then show ?case using qi_step_balanced qi_step_bounded qi_step_quiescent by blast
qed

section \<open>What reaches the database\<close>

text \<open>
  The contract of a query store: a successful insert appends the queries as the table keeps
  them, all of which its columns accept; a failed one changes nothing.
\<close>

locale query_store =
  fixes ins :: "'f \<Rightarrow> 's \<Rightarrow> Query list \<Rightarrow> go_error option \<times> 's"
    and contents :: "'s \<Rightarrow> Query list"
    and stored :: "Query \<Rightarrow> Query"
    and accepts :: "Query \<Rightarrow> bool"
  assumes insert_ok: "ins f s qs = (None, s') \<Longrightarrow> contents s' = contents s @ map stored qs \<and> (\<forall>q \<in> set qs. accepts q)"
    and insert_failed: "ins f s qs = (Some e, s') \<Longrightarrow> contents s' = contents s"
begin

definition tracks :: "'s \<Rightarrow> 's qi_state \<Rightarrow> bool" where
  "tracks s0 st \<longleftrightarrow> contents (qs_store st) = contents s0 @ map stored (concat (qs_accepted st))
     \<and> (\<forall>q \<in> set (concat (qs_accepted st)). accepts q)"

lemma ingest_tracks: "tracks s0 st \<Longrightarrow> tracks s0 ((ingest (ins f) b st)\<lparr>qs_batch := x\<rparr>)"
  using insert_ok [of f "qs_store st" b] insert_failed [of f "qs_store st" b]
  by (auto simp: tracks_def ingest_def split: prod.splits option.splits)

lemma add_to_batch_tracks: "tracks s0 st \<Longrightarrow> tracks s0 (add_to_batch qi (ins f) q st)"
  by (auto simp: add_to_batch_def Let_def ingest_tracks) (simp add: tracks_def)

lemma fold_add_tracks: "tracks s0 st \<Longrightarrow> tracks s0 (fold (add_to_batch qi (ins f)) qs st)"
  by (induction qs arbitrary: st) (simp_all add: add_to_batch_tracks)

lemma step_tracks: "qi_step qi pq ins st st' \<Longrightarrow> tracks s0 st \<Longrightarrow> tracks s0 st'"
proof (induction rule: qi_step.induct)
  case (submit st query)
  then show ?case by (auto simp: tracks_def Ingest_def Let_def split: option.split)
next
  case (receive st ferr)
  have "tracks s0 (st\<lparr>qs_chan := rest\<rparr>)" for rest using receive by (simp add: tracks_def)
  with receive show ?case by (auto simp: run_receive_def add_to_batch_tracks split: list.split)
next
  case (tick st ferr)
  then show ?case by (auto simp: run_tick_def ingest_tracks)
next
  case (shutdown st ferr)
  have "tracks s0 (st\<lparr>qs_closed := True, qs_chan := []\<rparr>)" using shutdown by (simp add: tracks_def)
  from fold_add_tracks [OF this] show ?case
    by (auto simp: run_shutdown_def drainWithGracePeriod_def Let_def ingest_tracks)
qed

lemma reachable_tracks:
  assumes "(qi_step qi pq ins)\<^sup>*\<^sup>* (qi_init s) st"
  shows "tracks s st"
  using assms
proof (induction rule: rtranclp_induct)
  case base
  show ?case by (simp add: tracks_def qi_init_def)
qed (rule step_tracks)

end

interpretation sqlite_queries: query_store Insert t_queries stored_query "\<lambda>_. True"
  by unfold_locales (auto simp: Insert_def split: if_splits option.splits)

text \<open>
  C6. Every query is accounted for: in every interleaving of handlers, goroutine and shutdown,
  with inserts failing at will, the submitted queries are exactly those queued, batched, accepted
  by the database, refused by it, or counted as dropped; the table holds exactly the accepted ones,
  in order; batches are never empty and never larger than configured; and after the shutdown
  nothing is left in the queue or the batch.
\<close>

theorem queries_accounted_for:
  assumes "(qi_step qi pq Insert)\<^sup>*\<^sup>* (qi_init t) st"
  shows "image_mset core (mset (qs_submitted st)) =
           image_mset core (mset (qs_chan st @ qs_batch st @ concat (qs_accepted st) @ concat (qs_refused st) @
             qs_droppedClosed st @ qs_droppedBlocked st))
       \<and> t_queries (qs_store st) = t_queries t @ map stored_query (concat (qs_accepted st))
       \<and> (\<forall>b \<in> set (qs_accepted st @ qs_refused st). 0 < length b \<and> length b \<le> max 1 (qi_batchSize qi))
       \<and> (qs_closed st \<longrightarrow> qs_chan st = [] \<and> qs_batch st = [])"
  using qi_reachable [OF assms] sqlite_queries.reachable_tracks [OF assms]
  unfolding balanced_def qs_all_def bounded_def batch_bound_def quiescent_def sqlite_queries.tracks_def by blast

text \<open>
  Queries still queued at shutdown are stored as they were submitted, without the
  fingerprint and the label matchers that every query received earlier gets: with an empty batch
  and a working database the tables gain exactly the queued queries, unchanged.
\<close>

lemma drain_stores_unenriched:
  assumes "qs_batch st = []" "length (qs_chan st) < qi_batchSize qi"
  shows "t_queries (qs_store (run_shutdown qi (Insert None) st)) = t_queries (qs_store st) @ map stored_query (qs_chan st)"
proof -
  have "fold (add_to_batch qi ins) qs st' = st'\<lparr>qs_batch := qs_batch st' @ qs\<rparr>"
    if "length (qs_batch st' @ qs) < qi_batchSize qi" for ins :: "tables \<Rightarrow> Query list \<Rightarrow> go_error option \<times> tables" and qs st'
    using that by (induction qs arbitrary: st') (simp_all add: add_to_batch_def)
  with assms show ?thesis
    by (simp add: run_shutdown_def drainWithGracePeriod_def Let_def ingest_def Insert_def)
qed

definition small_ingester :: QueryIngester where
  "small_ingester = NewQueryIngester [WithBufferSize 1, WithBatchSize 10]"

theorem queries_accounted_for_witness:
  "\<exists>st. (qi_step small_ingester sample_promql Insert)\<^sup>*\<^sup>* (qi_init empty_tables) st \<and> qs_submitted st = [query_at 0]
     \<and> image_mset core (mset (qs_submitted st)) = image_mset core (mset (concat (qs_accepted st)))
     \<and> t_queries (qs_store st) = map stored_query (concat (qs_accepted st))"
proof -
  let ?s = "qi_step small_ingester sample_promql Insert"
  define s1 where "s1 = Ingest small_ingester (query_at 0) (qi_init empty_tables)"
  define s2 where "s2 = run_shutdown small_ingester (Insert None) s1"
  have qi: "qi_bufferSize small_ingester = Some 1" "qi_batchSize small_ingester = 10"
    by (simp_all add: small_ingester_def NewQueryIngester_def)
  have "?s (qi_init empty_tables) s1" unfolding s1_def by (rule submit)
  moreover have "?s s1 s2" unfolding s2_def
    by (rule shutdown) (simp add: s1_def Ingest_def qi_init_def qi)
  ultimately have r: "?s\<^sup>*\<^sup>* (qi_init empty_tables) s2"
    by (rule converse_rtranclp_into_rtranclp [OF _ r_into_rtranclp])
  have st: "qs_submitted s2 = [query_at 0]" "qs_chan s2 = []" "qs_batch s2 = []" "qs_refused s2 = []"
    "qs_droppedClosed s2 = []" "qs_droppedBlocked s2 = []"
    by (simp_all add: s2_def s1_def run_shutdown_def drainWithGracePeriod_def add_to_batch_def ingest_def Insert_def
        Ingest_def qi_init_def qi Let_def)
  show ?thesis
    using r st queries_accounted_for [OF r] by (intro exI [of _ s2]) (simp add: empty_tables_def)
qed

lemma drain_stores_unenriched_witness:
  "t_queries (qs_store (run_shutdown small_ingester (Insert None)
     (Ingest small_ingester (query_at 0) (qi_init empty_tables)))) = [stored_query (query_at 0)]"
proof -
  let ?st = "Ingest small_ingester (query_at 0) (qi_init empty_tables)"
  have qi: "qi_bufferSize small_ingester = Some 1" "qi_batchSize small_ingester = 10"
    by (simp_all add: small_ingester_def NewQueryIngester_def)
  have st: "qs_batch ?st = []" "qs_chan ?st = [query_at 0]" "t_queries (qs_store ?st) = []"
    by (simp_all add: Ingest_def qi_init_def qi empty_tables_def)
  show ?thesis using drain_stores_unenriched [of ?st small_ingester] by (simp add: st qi)
qed

end
