(* ===== verification/Usage_Verdict.thy ===== *)
theory Usage_Verdict
  imports Otlp_Ingester Inventory Query_Ingester
begin

text \<open>
  The path of a usage record through the components: queries, rules and dashboards are written
  to the store, an inventory run turns them into the usage summary, the ingester reads the
  summary and decides which metrics of a request are forwarded. The theorems state the
  composition over the store's tables.
\<close>

section \<open>A store with usage records\<close>

locale usage_inventory = inventory_db store catalog indexed summary
  for store :: "('f, 's) sync_store"
    and catalog :: "'s \<Rightarrow> string set"
    and indexed :: "'s \<Rightarrow> (string \<times> string) set"
    and summary :: "'s \<Rightarrow> 'u" +
  fixes view :: "'s \<Rightarrow> string \<Rightarrow> MetricMetadata option"
    and used :: "'s \<Rightarrow> TimeRange \<Rightarrow> string \<Rightarrow> bool"
  assumes used_catalog: "ss_UpsertMetricsCatalog store f s items = (None, s') \<Longrightarrow> used s' = used s"
    and view_index: "ss_UpsertMetricsJobIndex store f s jobs = (None, s') \<Longrightarrow> view s' = view s"
    and view_refresh: "ss_RefreshMetricsUsageSummary store f s tr = (None, s') \<Longrightarrow> n \<in> catalog s \<Longrightarrow>
      \<exists>mm. view s' n = Some mm \<and> (metricMetadataUnused mm \<longleftrightarrow> \<not> used s tr n)"
    and view_catalog: "view s n \<noteq> None \<longleftrightarrow> n \<in> catalog s"
begin

lemma processJob_view: "processJob api store order tr job f s = (err, s') \<Longrightarrow> view s' = view s"
  by (auto simp: processJob_def Let_def split: sum.splits if_splits prod.splits option.splits
      dest: view_index index_failed)

lemma run_jobs_view: "run_jobs api store order tr jobs s = (errs, s') \<Longrightarrow> view s' = view s"
  by (induction jobs arbitrary: s errs) (auto split: prod.splits dest: processJob_view)

lemma syncJobIndex_view: "view (snd (syncJobIndex api store order sched sy tr s)) = view s"
proof -
  have "view (snd (run_jobs api store order tr lg s)) = view s" for lg
    using run_jobs_view [OF prod.collapse [symmetric]] .
  then show ?thesis by (simp add: syncJobIndex_def Let_def split_beta split: sum.split)
qed

text \<open>After a successful run the verdict on every catalogued metric is the evidence of the window.\<close>

lemma verdict_after_run:
  assumes "\<And>xs. iteration_of (order xs) xs"
    and "Syncer_runOnce api store order sched sy f ck s = (True, s')"
  shows "verdict (view s') n =
    (if n \<in> catalog s' then Some (\<not> used s (window sy (ck_summary ck)) n) else None)"
proof -
  obtain s1 s2 where
    cat: "if sy_metadataSyncEnabled sy
       then (if sy_metadataMetricsNameOnly sy
             then syncMetadataCatalogFromMetricNames api store sy (fst f) (ck_names ck) s
             else syncMetadataCatalog api store sy (fst f) s) = (None, s1)
       else s1 = s"
    and ref: "ss_RefreshMetricsUsageSummary store (snd f) s1 (window sy (ck_summary ck)) = (None, s2)"
    and c': "catalog s' = catalog s1"
    and s': "s' = (if sy_jobSyncEnabled sy then snd (syncJobIndex api store order sched sy (window sy (ck_jobs ck)) s2) else s2)"
    by (rule runOnce_ok [OF assms])
  have "used s1 = used s"
    using cat by (auto simp: syncMetadataCatalog_def syncMetadataCatalogFromMetricNames_def split: if_splits sum.splits
        dest: used_catalog)
  moreover have "view s' = view s2" by (simp add: s' syncJobIndex_view)
  ultimately show ?thesis
    using view_refresh [OF ref, of n] view_catalog [of s' n] c' by (auto simp: verdict_def)
qed

end

lemma uses_metric_cong:
  "t_rules t' = t_rules t \<Longrightarrow> t_dashboards t' = t_dashboards t \<Longrightarrow> t_queries t' = t_queries t \<Longrightarrow>
     uses_metric ct t' = uses_metric ct t"
  by (simp add: fun_eq_iff uses_metric_def rule_uses_def dashboard_uses_def query_uses_def)

lemma fold_upsert_catalog_evidence:
  "t_rules (fold (upsert_catalog now) items t) = t_rules t \<and> t_dashboards (fold (upsert_catalog now) items t) = t_dashboards t
   \<and> t_queries (fold (upsert_catalog now) items t) = t_queries t"
  by (induction items arbitrary: t) (auto simp: upsert_catalog_def Let_def)

lemma refresh_verdict:
  assumes "RefreshMetricsUsageSummary ct ferr now t tr = (None, t')" "n \<in> catalog_keys t"
  shows "\<exists>mm. catalog_view t' n = Some mm \<and> (metricMetadataUnused mm \<longleftrightarrow> \<not> uses_metric ct t tr n)"
proof -
  obtain c where "map_of (t_catalog t) n = Some c"
    using assms(2) by (metis catalog_keys_def map_of_eq_None_iff not_None_eq)
  note view = refresh_view [OF assms(1) this]
  have "uses_metric ct t tr n \<longleftrightarrow> \<not> (rule_count ct t tr RuleUsageKindAlert n = 0 \<and> rule_count ct t tr RuleUsageKindRecord n = 0
      \<and> dashboard_count ct t tr n = 0 \<and> queries_of ct t tr n = [])"
    using rule_uses_iff dashboard_uses_iff query_uses_iff unfolding uses_metric_def by blast
  with view show ?thesis by (auto simp: metricMetadataUnused_def)
qed

interpretation sqlite_usage: usage_inventory "sqlite_sync_store ct now" catalog_keys job_keys t_summary catalog_view "uses_metric ct"
  for ct now
proof (unfold_locales, goal_cases)
  case (1 f t items t')
  then show ?case
    using UpsertMetricsCatalog_result [of f now t items None t'] fold_upsert_catalog_evidence [of now items t]
    by (intro uses_metric_cong) (simp_all add: sqlite_sync_store_def)
next
  case (2 f t jobs t')
  then show ?case
    using UpsertMetricsJobIndex_result [of f now t jobs None t'] fold_upsert_job_keys [of now jobs t]
    by (simp add: sqlite_sync_store_def fun_eq_iff catalog_view_def metadata_row_def)
next
  case (3 f t tr t' n)
  then show ?case by (intro refresh_verdict) (simp_all add: sqlite_sync_store_def)
next
  case (4 t n)
  show ?case by (simp add: catalog_view_def catalog_keys_def map_of_eq_None_iff)
qed

section \<open>What counts as usage\<close>

text \<open>The name of the metric of the first selector of a query.\<close>

definition first_selector :: "'a promql \<Rightarrow> string \<Rightarrow> string option" where
  "first_selector pq query =
     (case pq_parse pq query of
        None \<Rightarrow> None
      | Some e \<Rightarrow> (case selectors e of [] \<Rightarrow> None | ms # _ \<Rightarrow> map_option lm_Value (find (\<lambda>m. lm_Name m = ''__name__'') (rev ms))))"

lemma first_metric_name_stored [simp]: "first_metric_name (stored_query q) = first_metric_name q"
  by (simp add: first_metric_name_def stored_query_def)

lemma q_TS_stored [simp]: "q_TS (stored_query q) = q_TS q"
  by (simp add: stored_query_def)

lemma first_metric_name_enrich: "first_metric_name (enrich pq q) = first_selector pq (q_QueryParam q)"
  by (simp add: first_metric_name_def enrich_def labelMatchersFromQuery_def first_selector_def map_of_matcher_map
      split: option.split list.split)

lemma uses_after_insert:
  assumes "Insert None t qs = (None, t')"
  shows "uses_metric ct t' tr n \<longleftrightarrow> uses_metric ct t tr n \<or>
     (\<exists>q \<in> set qs. first_metric_name q = Some n \<and> in_window ct tr (q_TS q))"
proof -
  have "t' = t\<lparr>t_queries := t_queries t @ map stored_query qs\<rparr>"
    using assms by (auto simp: Insert_def split: if_splits)
  then have "rule_uses ct t' tr n = rule_uses ct t tr n" "dashboard_uses ct t' tr n = dashboard_uses ct t tr n"
    "query_uses ct t' tr n \<longleftrightarrow> query_uses ct t tr n \<or> (\<exists>q \<in> set qs. first_metric_name q = Some n \<and> in_window ct tr (q_TS q))"
    by (simp_all add: rule_uses_def dashboard_uses_def query_uses_def bex_Un)
  then show ?thesis unfolding uses_metric_def by blast
qed

text \<open>
  C15. A recorded query counts as usage of the metric of its first selector, and of no other
  metric it reads: after storing an enriched query and a successful inventory run, a catalogued
  metric without other evidence is reported as used exactly when the query's first selector
  names it and the query lies in the window, whatever its other selectors are.
\<close>

theorem query_counts_for_first_selector:
  assumes "Insert None t [enrich pq q] = (None, t1)"
    and "Syncer_runOnce api (sqlite_sync_store ct now) order sched sy f ck t1 = (True, t')"
    and "\<And>xs. iteration_of (order xs) xs" "n \<in> catalog_keys t'"
    and "\<not> uses_metric ct t (window sy (ck_summary ck)) n"
  shows "verdict (catalog_view t') n = Some
     (\<not> (first_selector pq (q_QueryParam q) = Some n \<and> in_window ct (window sy (ck_summary ck)) (q_TS q)))"
proof -
  have "q_TS (enrich pq q) = q_TS q" by (simp add: enrich_def)
  with uses_after_insert [OF assms(1)] assms(5) have "uses_metric ct t1 (window sy (ck_summary ck)) n \<longleftrightarrow>
      first_selector pq (q_QueryParam q) = Some n \<and> in_window ct (window sy (ck_summary ck)) (q_TS q)"
    by (simp add: first_metric_name_enrich)
  with sqlite_usage.verdict_after_run [OF assms(3,2)] assms(4) show ?thesis by simp
qed

text \<open>A parser that reads every query as the ratio \<open>foo / up\<close>.\<close>

definition ratio_promql :: "unit promql" where
  "ratio_promql = sample_promql\<lparr>pq_parse := (\<lambda>_. Some (BinaryExpr () None
     [VectorSelector () [\<lparr>lm_Type = 0, lm_Name = ''__name__'', lm_Value = ''foo''\<rparr>],
      VectorSelector () [\<lparr>lm_Type = 0, lm_Name = ''__name__'', lm_Value = ''up''\<rparr>]]))\<rparr>"

theorem query_counts_for_first_selector_witness:
  "\<exists>t1 t'. Insert None empty_tables [enrich ratio_promql (query_at 0)] = (None, t1)
     \<and> Syncer_runOnce two_jobs (sqlite_sync_store utc_text 0) id (map (\<lambda>j. (j, no_faults))) sample_syncer
         (no_faults, no_faults) sample_clock t1 = (True, t')
     \<and> verdict (catalog_view t') ''up'' = Some True"
proof -
  let ?t1 = "empty_tables\<lparr>t_queries := [stored_query (enrich ratio_promql (query_at 0))]\<rparr>"
  have i: "Insert None empty_tables [enrich ratio_promql (query_at 0)] = (None, ?t1)"
    by (simp add: Insert_def empty_tables_def)
  obtain t' where r: "Syncer_runOnce two_jobs (sqlite_sync_store utc_text 0) id (map (\<lambda>j. (j, no_faults))) sample_syncer
      (no_faults, no_faults) sample_clock ?t1 = (True, t')" and k: "''up'' \<in> catalog_keys t'"
    using sample_run [of ?t1] by (auto simp: empty_tables_def catalog_keys_def)
  have "\<not> uses_metric utc_text empty_tables (window sample_syncer (ck_summary sample_clock)) ''up''"
    by (simp add: uses_metric_def rule_uses_def dashboard_uses_def query_uses_def empty_tables_def)
  moreover have "first_selector ratio_promql (q_QueryParam (query_at 0)) = Some ''foo''"
    by (simp add: first_selector_def ratio_promql_def)
  ultimately have "verdict (catalog_view t') ''up'' = Some True"
    using query_counts_for_first_selector [OF i r _ k] by simp
  with i r show ?thesis by blast
qed

section \<open>From usage to forwarding\<close>

text \<open>The series by which a metric of a request is judged.\<close>

definition judged_by :: "export_request \<Rightarrow> string \<Rightarrow> string list" where
  "judged_by req n =
     (let co = collectNamesAndCounts False req in
      if n \<in> set (co_sum co) then [n, n @ ''_count'', n @ ''_sum'']
      else if n \<in> set (co_hist co) then [n @ ''_bucket'', n @ ''_count'', n @ ''_sum'']
      else [n])"

lemma request_unused_judged:
  assumes "n \<in> request_unused t req" "x \<in> set (judged_by req n)"
  shows "verdict (catalog_view t) x = Some True"
  using assms
  by (auto simp: request_unused_def judged_by_def Let_def unused_names_def base_unused_def part_unused_def split: if_splits)

text \<open>A metric one of whose judging series is not known as unused is forwarded.\<close>

lemma not_unused_forwarded:
  assumes "tables_wf t'" "verdict (catalog_view t') x \<noteq> Some True"
    and "x \<in> set (judged_by req (metric_name (snd (snd row))))"
    and "en_query en = (\<lambda>ns. GetSeriesMetadataByNames None t' ns [])" "usage_cache_sound oi en t' (x_redis st)"
    and "\<And>xs. iteration_of (en_order en xs) xs" "en_downstream en = Some d"
    and "row \<in> set (request_rows req)" "metric_name (snd (snd row)) \<noteq> []" "\<not> metricIsEmpty (snd (snd row))"
  shows "\<exists>req' tout. \<exists>k \<in> {1, 2}. x_sent (snd (Export oi en req st)) = x_sent st @ replicate k (req', tout)
     \<and> row \<in> set (request_rows req')"
proof -
  have "metric_name (snd (snd row)) \<notin> request_unused t' req" using request_unused_judged assms(2,3) by blast
  then have "\<not> row_unused (request_unused t' req) (oi_allowedJobs oi) (oi_deniedJobs oi) row"
    by (cases row) (simp add: row_unused_def shouldDropUnused_def)
  moreover have "\<exists>row \<in> set (request_rows req). metric_name (snd (snd row)) \<noteq> []" using assms(8,9) by blast
  ultimately show ?thesis using Export_forwards_row [OF assms(1,4-7) _ assms(8,10)] by blast
qed



end
