(* ===== verification/Sql_Query.thy ===== *)
theory Sql_Query
  imports Db_Common "HOL-Library.Multiset"
begin

text \<open>
  The parts of SQL the reporting statements of both providers share: the parameter records of
  the requests (\<open>internal/db/provider.go\<close>, \<open>internal/db/model.go\<close>), values with their sort order,
  pattern matching with \<open>LIKE\<close>, ordering and paging, and how the Go code turns the rows of a
  statement into a result.

  SQL leaves the order of rows with equal sort keys open, so the sort of the engine is an
  argument of every report; \<open>sql_sorts\<close> states what the standard promises of it.
\<close>

section \<open>Parameter records\<close>

record QueryExpressionsParams =
  xp_Filter :: string
  xp_TimeRange :: TimeRange
  xp_Page :: int
  xp_PageSize :: int
  xp_SortBy :: string
  xp_SortOrder :: string

record QueriesBySerieNameParams =
  sp_SerieName :: string
  sp_Filter :: string
  sp_TimeRange :: TimeRange
  sp_Page :: int
  sp_PageSize :: int
  sp_SortBy :: string
  sp_SortOrder :: string

record QueryExecutionsParams =
  ep_Fingerprint :: string
  ep_TimeRange :: TimeRange
  ep_Type :: string
  ep_Page :: int
  ep_PageSize :: int
  ep_SortBy :: string
  ep_SortOrder :: string

record SeriesMetadataParams =
  mp_Page :: int
  mp_PageSize :: int
  mp_SortBy :: string
  mp_SortOrder :: string
  mp_Filter :: string
  mp_Type :: string
  mp_Usage :: string
  mp_Job :: string

record DashboardUsageParams =
  dp_Serie :: string
  dp_Page :: int
  dp_PageSize :: int
  dp_Filter :: string
  dp_SortBy :: string
  dp_SortOrder :: string
  dp_TimeRange :: TimeRange

record RulesUsageParams =
  rp_Serie :: string
  rp_Kind :: string
  rp_Page :: int
  rp_PageSize :: int
  rp_Filter :: string
  rp_SortBy :: string
  rp_SortOrder :: string
  rp_TimeRange :: TimeRange

record MetricUsageStatics =
  us_SerieCount :: int
  us_LabelCount :: int
  us_AlertCount :: int
  us_RecordCount :: int
  us_DashboardCount :: int
  us_TotalAlerts :: int
  us_TotalRecords :: int
  us_TotalDashboards :: int
  us_Producers :: "(string \<times> int) list"

record 'd PagedResult =
  pr_TotalPages :: int
  pr_Total :: int
  pr_Data :: "'d list"

section \<open>Values\<close>

text \<open>A column value; \<open>NULL\<close> sorts before numbers and numbers before texts, which compare by bytes.\<close>

datatype sql_value = Null | Num real | Text string

instantiation sql_value :: linorder
begin

fun less_eq_sql_value :: "sql_value \<Rightarrow> sql_value \<Rightarrow> bool" where
  "less_eq_sql_value Null _ = True"
| "less_eq_sql_value (Num _) Null = False"
| "less_eq_sql_value (Num a) (Num b) = (a \<le> b)"
| "less_eq_sql_value (Num _) (Text _) = True"
| "less_eq_sql_value (Text a) (Text b) = (a \<le> b)"
| "less_eq_sql_value (Text _) _ = False"

definition less_sql_value :: "sql_value \<Rightarrow> sql_value \<Rightarrow> bool" where
  "less_sql_value a b \<longleftrightarrow> a \<le> b \<and> \<not> b \<le> a"

instance
proof
  fix x y z :: sql_value
  show "x \<le> x" by (cases x) auto
  show "x \<le> y \<Longrightarrow> y \<le> z \<Longrightarrow> x \<le> z" by (cases x; cases y; cases z) auto
  show "x \<le> y \<Longrightarrow> y \<le> x \<Longrightarrow> x = y" by (cases x; cases y) auto
  show "x \<le> y \<or> y \<le> x" by (cases x; cases y) auto
qed (simp add: less_sql_value_def)

end

lemma Text_less [simp]: "Text a < Text b \<longleftrightarrow> a < b"
  by (auto simp: less_sql_value_def)

section \<open>Patterns\<close>

text \<open>
  \<open>LIKE\<close> in SQLite: \<open>%\<close> is any sequence of characters, \<open>_\<close> one character, letters compare
  without regard to ASCII case. A character is a byte and the continuation bytes after it.
\<close>

definition is_continuation :: "char \<Rightarrow> bool" where
  "is_continuation c \<longleftrightarrow> (128 :: nat) \<le> of_char c \<and> of_char c < (192 :: nat)"

definition next_char :: "string \<Rightarrow> string" where
  "next_char s = (case s of [] \<Rightarrow> [] | c # t \<Rightarrow> if of_char c < (192 :: nat) then t else dropWhile is_continuation t)"

lemma length_next_char: "s \<noteq> [] \<Longrightarrow> length (next_char s) < length s"
  by (cases s) (auto simp: next_char_def le_imp_less_Suc length_dropWhile_le)

function like :: "string \<Rightarrow> string \<Rightarrow> bool" where
  "like [] s = (s = [])"
| "like (c # p) s =
     (if c = CHR ''%'' then like p s \<or> (if s = [] then False else like (c # p) (next_char s))
      else if s = [] then False
      else if c = CHR ''_'' then like p (next_char s)
      else lower_char c = lower_char (hd s) \<and> like p (tl s))"
  by pat_completeness auto
termination
  by (relation "measure (\<lambda>(p, s). length p + length s)") (auto simp: length_next_char less_SucI)

declare like.simps(2) [simp del]

lemma like_steps [simp]:
  "like (CHR ''%'' # p) [] = like p []"
  "like (CHR ''%'' # p) (c # s) \<longleftrightarrow> like p (c # s) \<or> like (CHR ''%'' # p) (next_char (c # s))"
  "d \<noteq> CHR ''%'' \<Longrightarrow> like (d # p) [] = False"
  "d \<noteq> CHR ''%'' \<Longrightarrow> d \<noteq> CHR ''_'' \<Longrightarrow> like (d # p) (c # s) \<longleftrightarrow> lower_char d = lower_char c \<and> like p s"
  by (simp_all add: like.simps(2))

text \<open>The filter of a request between two \<open>%\<close> signs.\<close>

definition like_filter :: "string \<Rightarrow> string \<Rightarrow> bool" where
  "like_filter f s \<longleftrightarrow> like (''%'' @ f @ ''%'') s"

lemma like_percent: "like ''%'' s"
proof (induction "length s" arbitrary: s rule: less_induct)
  case less
  then show ?case using length_next_char [of s] by (cases s) auto
qed

definition ascii :: "string \<Rightarrow> bool" where
  "ascii s \<longleftrightarrow> (\<forall>c \<in> set s. of_char c < (128 :: nat))"

definition plain :: "string \<Rightarrow> bool" where
  "plain f \<longleftrightarrow> CHR ''%'' \<notin> set f \<and> CHR ''_'' \<notin> set f"

lemma like_plain: "plain f \<Longrightarrow> like (f @ ''%'') s \<longleftrightarrow> HasPrefix (map lower_char s) (map lower_char f)"
proof (induction f arbitrary: s)
  case Nil
  then show ?case by (simp add: like_percent HasPrefix_iff)
next
  case (Cons c f)
  then show ?case by (cases s) (auto simp: plain_def HasPrefix_iff)
qed

lemma like_percent_ascii:
  "ascii s \<Longrightarrow> like (CHR ''%'' # p) s \<longleftrightarrow> (\<exists>a b. s = a @ b \<and> like p b)"
proof (induction s)
  case (Cons c s)
  then have "like (CHR ''%'' # p) (c # s) \<longleftrightarrow> like p (c # s) \<or> (\<exists>a b. s = a @ b \<and> like p b)"
    by (simp add: next_char_def ascii_def)
  also have "\<dots> \<longleftrightarrow> (\<exists>a b. c # s = a @ b \<and> like p b)" by (metis Cons_eq_append_conv append_Cons append_Nil)
  finally show ?case .
qed auto

text \<open>A filter without wildcards finds the ASCII texts that contain it, whatever the case.\<close>

lemma like_filter_contains:
  assumes "ascii s" "plain f"
  shows "like_filter f s \<longleftrightarrow> contains (map lower_char s) (map lower_char f)"
proof -
  have "like_filter f s \<longleftrightarrow> (\<exists>a b. s = a @ b \<and> HasPrefix (map lower_char b) (map lower_char f))"
    using assms by (simp add: like_filter_def like_percent_ascii like_plain)
  also have "\<dots> \<longleftrightarrow> contains (map lower_char s) (map lower_char f)"
    unfolding contains_iff HasPrefix_iff
  proof
    assume "\<exists>a b. map lower_char s = a @ map lower_char f @ b"
    then obtain a b us vs where "s = us @ vs" "map lower_char f @ b = map lower_char vs" by (auto simp: map_eq_append_conv)
    then show "\<exists>a b. s = a @ b \<and> (\<exists>t. map lower_char b = map lower_char f @ t)" by metis
  qed (metis map_append)
  finally show ?thesis .
qed

lemma like_filter_empty [simp]: "like_filter [] s"
  using like_percent [of s] by (cases s) (simp_all add: like_filter_def)

section \<open>Order and paging\<close>

definition total_preorder :: "('a \<Rightarrow> 'a \<Rightarrow> bool) \<Rightarrow> bool" where
  "total_preorder le \<longleftrightarrow> (\<forall>x y. le x y \<or> le y x) \<and> (\<forall>x y z. le x y \<longrightarrow> le y z \<longrightarrow> le x z)"

text \<open>What a database promises of \<open>ORDER BY\<close>: the rows of the result, in an order the keys allow.\<close>

definition sql_sorts :: "(('a \<Rightarrow> 'a \<Rightarrow> bool) \<Rightarrow> 'a list \<Rightarrow> 'a list) \<Rightarrow> bool" where
  "sql_sorts srt \<longleftrightarrow> (\<forall>le xs. mset (srt le xs) = mset xs \<and> (total_preorder le \<longrightarrow> sorted_wrt le (srt le xs)))"

text \<open>\<open>ORDER BY key ASC\<close> or \<open>DESC\<close>.\<close>

definition key_order :: "string \<Rightarrow> ('a \<Rightarrow> sql_value) \<Rightarrow> 'a \<Rightarrow> 'a \<Rightarrow> bool" where
  "key_order dir key x y \<longleftrightarrow> (if dir = ''asc'' then key x \<le> key y else key y \<le> key x)"

text \<open>
  \<open>ORDER BY CASE WHEN dir = 'asc' THEN key END ASC, CASE WHEN dir = 'desc' THEN key END DESC\<close>:
  the inactive case is \<open>NULL\<close> in every row.
\<close>

definition case_order :: "string \<Rightarrow> ('a \<Rightarrow> sql_value) \<Rightarrow> 'a \<Rightarrow> 'a \<Rightarrow> bool" where
  "case_order dir key x y \<longleftrightarrow>
     (let up = (\<lambda>r. if dir = ''asc'' then key r else Null); down = (\<lambda>r. if dir = ''desc'' then key r else Null)
      in up x < up y \<or> (up x = up y \<and> down y \<le> down x))"

lemma key_order_preorder: "total_preorder (key_order dir key)"
  by (auto simp: total_preorder_def key_order_def)

lemma case_order_key: "dir \<in> {''asc'', ''desc''} \<Longrightarrow> case_order dir key = key_order dir key"
  by (auto simp: case_order_def key_order_def Let_def fun_eq_iff)

lemma case_order_preorder: "total_preorder (case_order dir key)"
  by (auto simp: total_preorder_def case_order_def Let_def)

lemma sql_sorts_set: "sql_sorts srt \<Longrightarrow> set (srt le xs) = set xs"
  by (simp add: sql_sorts_def) (metis set_mset_mset)

text \<open>
  \<open>ROW_NUMBER() OVER (PARTITION BY part ORDER BY le) = 1\<close>: of the rows with the same key one that
  comes first.
\<close>

definition first_rows :: "(('a \<Rightarrow> 'a \<Rightarrow> bool) \<Rightarrow> 'a list \<Rightarrow> 'a list) \<Rightarrow> ('a \<Rightarrow> 'k) \<Rightarrow> ('a \<Rightarrow> 'a \<Rightarrow> bool) \<Rightarrow> 'a list \<Rightarrow> 'a list" where
  "first_rows srt part le rows = map (\<lambda>k. hd (srt le (filter (\<lambda>r. part r = k) rows))) (remdups (map part rows))"

lemma first_row:
  assumes "sql_sorts srt" "total_preorder le" "xs \<noteq> []"
  shows "hd (srt le xs) \<in> set xs \<and> (\<forall>y \<in> set xs. le (hd (srt le xs)) y)"
proof -
  have "srt le xs \<noteq> []" using sql_sorts_set [OF assms(1), of le xs] assms(3) by auto
  then obtain z zs where z: "srt le xs = z # zs" by (cases "srt le xs") auto
  have "sorted_wrt le (z # zs)" using assms(1,2) z by (metis sql_sorts_def)
  moreover have "le z z" using assms(2) by (auto simp: total_preorder_def)
  moreover have "set xs = insert z (set zs)" using sql_sorts_set [OF assms(1), of le xs] z by simp
  ultimately show ?thesis by (simp add: z)
qed

lemma first_rows_key:
  assumes "sql_sorts srt" "total_preorder le" "k \<in> part ` set rows"
  defines "r \<equiv> hd (srt le (filter (\<lambda>r. part r = k) rows))"
  shows "r \<in> set rows \<and> part r = k \<and> (\<forall>y \<in> set rows. part y = k \<longrightarrow> le r y)"
  using first_row [OF assms(1,2), of "filter (\<lambda>r. part r = k) rows"] assms(3)
  by (auto simp: r_def filter_empty_conv)

lemma first_rows_spec:
  assumes "sql_sorts srt" "total_preorder le"
  shows "map part (first_rows srt part le rows) = remdups (map part rows)"
    "x \<in> set (first_rows srt part le rows) \<Longrightarrow> x \<in> set rows \<and> (\<forall>y \<in> set rows. part y = part x \<longrightarrow> le x y)"
proof -
  show "map part (first_rows srt part le rows) = remdups (map part rows)"
    unfolding first_rows_def map_map
    by (rule map_idI) (use first_rows_key [OF assms, of _ part rows] in auto)
  assume "x \<in> set (first_rows srt part le rows)"
  then obtain k where "k \<in> part ` set rows" "x = hd (srt le (filter (\<lambda>r. part r = k) rows))"
    by (auto simp: first_rows_def)
  with first_rows_key [OF assms, of k part rows] show "x \<in> set rows \<and> (\<forall>y \<in> set rows. part y = part x \<longrightarrow> le x y)" by auto
qed

text \<open>64-bit wrap-around of Go's \<open>int\<close>.\<close>

definition wrap64 :: "int \<Rightarrow> int" where
  "wrap64 n = (n + 2 ^ 63) mod 2 ^ 64 - 2 ^ 63"

lemma wrap64_id: "- (2 ^ 63) \<le> n \<Longrightarrow> n < 2 ^ 63 \<Longrightarrow> wrap64 n = n"
  by (simp add: wrap64_def)

text \<open>\<open>LIMIT\<close> and \<open>OFFSET\<close>: a negative offset counts as 0.\<close>

definition limit_offset :: "int \<Rightarrow> int \<Rightarrow> 'a list \<Rightarrow> 'a list" where
  "limit_offset n off rows = take (nat n) (drop (nat off) rows)"

definition page_of :: "int \<Rightarrow> int \<Rightarrow> 'a list \<Rightarrow> 'a list" where
  "page_of page pageSize rows = limit_offset pageSize (wrap64 (wrap64 (page - 1) * pageSize)) rows"

text \<open>\<open>(total + pageSize - 1) / pageSize\<close>.\<close>

definition pages_of :: "int \<Rightarrow> int \<Rightarrow> int" where
  "pages_of totalCount pageSize = wrap64 (wrap64 (totalCount + pageSize) - 1) sdiv pageSize"

lemma pages_of_exact:
  assumes "0 \<le> totalCount" "totalCount < 2 ^ 62" "0 < pageSize" "pageSize < 2 ^ 62"
  shows "pages_of totalCount pageSize = (totalCount + pageSize - 1) div pageSize"
proof -
  have "wrap64 (totalCount + pageSize) = totalCount + pageSize" by (rule wrap64_id) (use assms in auto)
  moreover have "wrap64 (totalCount + pageSize - 1) = totalCount + pageSize - 1" by (rule wrap64_id) (use assms in auto)
  ultimately show ?thesis
    using assms by (cases "totalCount + pageSize - 1 = 0") (simp_all add: pages_of_def signed_divide_int_def sgn_1_pos)
qed

lemma concat_take_drop: "concat (map (\<lambda>i. take s (drop (i * s) rows)) [0..<k]) = take (k * s) rows"
  by (induction k) (simp_all add: take_add [symmetric] add.commute)

lemma upto_upt: "[1..int k] = map (\<lambda>i. int i + 1) [0..<k]"
  by (induction k) (simp_all add: upto_rec2)

text \<open>The pages a client gets by asking for page 1 up to the reported number of pages.\<close>

lemma page_of_nth:
  assumes "0 < s" "s < 2 ^ 62" "length rows < 2 ^ 62" "i * nat s \<le> length rows"
  shows "page_of (int i + 1) s rows = take (nat s) (drop (i * nat s) rows)"
proof -
  have off: "int i * s \<le> int (length rows)"
    using assms(1,4) by (metis of_nat_le_iff of_nat_mult int_nat_eq less_imp_le)
  have "int i \<le> int i * s" using assms(1) by (simp add: mult_le_cancel_left1)
  with off assms(3) have "wrap64 (int i) = int i" by (intro wrap64_id) auto
  moreover have "0 \<le> int i * s" using assms(1) by simp
  then have "wrap64 (int i * s) = int i * s" using off assms(3) by (intro wrap64_id) simp_all
  moreover have "nat (int i * s) = i * nat s" using assms(1) by (simp add: nat_mult_distrib)
  ultimately show ?thesis by (simp add: page_of_def limit_offset_def)
qed

lemma concat_pages:
  assumes "0 < s" "s < 2 ^ 62" "length rows < 2 ^ 62"
  shows "concat (map (\<lambda>p. page_of p s rows) [1..pages_of (int (length rows)) s]) = rows"
proof -
  define k where "k = nat (pages_of (int (length rows)) s)"
  have p: "pages_of (int (length rows)) s = (int (length rows) + s - 1) div s"
    by (rule pages_of_exact) (use assms in auto)
  then have k: "pages_of (int (length rows)) s = int k" using assms by (simp add: k_def pos_imp_zdiv_nonneg_iff)
  have "int (length rows) + s - 1 = s * int k + (int (length rows) + s - 1) mod s"
    using k p by (metis mult_div_mod_eq)
  moreover have "0 \<le> (int (length rows) + s - 1) mod s" "(int (length rows) + s - 1) mod s < s" using assms by auto
  ultimately have ub: "int (length rows) \<le> int k * s" and lb: "(int k - 1) * s < int (length rows)"
    by (auto simp: algebra_simps)
  have "page_of (int i + 1) s rows = take (nat s) (drop (i * nat s) rows)" if "i < k" for i
  proof (rule page_of_nth [OF assms])
    have "int i * s \<le> (int k - 1) * s" using that assms(1) by (intro mult_right_mono) auto
    with lb have "int i * s \<le> int (length rows)" by linarith
    then show "i * nat s \<le> length rows" using assms(1) by (metis of_nat_le_iff of_nat_mult int_nat_eq less_imp_le)
  qed
  then have "map (\<lambda>p. page_of p s rows) [1..int k] = map (\<lambda>i. take (nat s) (drop (i * nat s) rows)) [0..<k]"
    by (simp add: upto_upt)
  moreover have "length rows \<le> k * nat s"
    using ub assms(1) by (metis of_nat_le_iff of_nat_mult int_nat_eq less_imp_le)
  ultimately show ?thesis by (simp add: k concat_take_drop)
qed

text \<open>
  The contract of a paged report: a page is the slice of one sequence of rows, and the first page
  says how many pages there are. A client that asks for all of them gets every row once.
\<close>

locale paged_report =
  fixes fetch :: "int \<Rightarrow> 'd PagedResult" and psize :: int and rows :: "'d list"
  assumes psize_pos: "0 < psize"
    and page_data: "0 < page \<Longrightarrow> pr_Data (fetch page) = page_of page psize rows"
    and page_count: "psize < 2 ^ 62 \<Longrightarrow> length rows < 2 ^ 62 \<Longrightarrow>
      pr_TotalPages (fetch 1) = (int (length rows) + psize - 1) div psize"
begin

lemma all_pages:
  assumes "psize < 2 ^ 62" "length rows < 2 ^ 62"
  shows "concat (map (\<lambda>page. pr_Data (fetch page)) [1..pr_TotalPages (fetch 1)]) = rows"
proof -
  have "map (\<lambda>page. pr_Data (fetch page)) [1..pr_TotalPages (fetch 1)]
      = map (\<lambda>page. page_of page psize rows) [1..pages_of (int (length rows)) psize]"
    using assms psize_pos page_count by (intro map_cong) (simp_all add: pages_of_exact page_data)
  with concat_pages [OF psize_pos assms] show ?thesis by simp
qed

end

text \<open>The loop over \<open>rows.Next\<close>: a row that cannot be scanned or a failed iteration ends it with an error.\<close>

record read_faults =
  rf_count :: "go_error option"
  rf_query :: "go_error option"
  rf_scan :: "nat \<Rightarrow> go_error option"
  rf_iter :: "go_error option"

definition no_read_faults :: read_faults where
  "no_read_faults = \<lparr>rf_count = None, rf_query = None, rf_scan = (\<lambda>_. None), rf_iter = None\<rparr>"

lemma no_read_faults_sel [simp]:
  "rf_count no_read_faults = None" "rf_query no_read_faults = None" "rf_scan no_read_faults i = None" "rf_iter no_read_faults = None"
  by (simp_all add: no_read_faults_def)

fun scan_rows :: "string \<times> string \<Rightarrow> read_faults \<Rightarrow> nat \<Rightarrow> 'r list \<Rightarrow> go_error + 'r list" where
  "scan_rows labels fl i [] = (case rf_iter fl of Some err \<Rightarrow> Inl (snd labels @ err) | None \<Rightarrow> Inr [])"
| "scan_rows labels fl i (r # rs) =
     (case rf_scan fl i of
        Some err \<Rightarrow> Inl (fst labels @ err)
      | None \<Rightarrow> (case scan_rows labels fl (Suc i) rs of Inl err \<Rightarrow> Inl err | Inr out \<Rightarrow> Inr (r # out)))"

lemma scan_rows_Inr: "scan_rows labels fl i rs = Inr out \<Longrightarrow> out = rs"
  by (induction rs arbitrary: i out) (auto split: option.splits sum.splits)

lemma scan_rows_no_faults [simp]: "scan_rows labels no_read_faults i rs = Inr rs"
  by (induction rs arbitrary: i) simp_all

end
