(* ===== verification/Sqlite_Reads.thy ===== *)
theory Sqlite_Reads
  imports Sqlite_Store Sql_Query
begin

text \<open>
  The listings of the SQLite provider (\<open>internal/db/sqlite.go\<close>): the series metadata with its
  filters and pages, the rules and the dashboards that use a metric, and the queries of a
  metric or a fingerprint. Each is its statements over the tables, then the loop that scans
  the rows. The sort of the engine and the failures of the driver are arguments.
\<close>

section \<open>Series metadata\<close>

definition metadata_defaults :: "SeriesMetadataParams \<Rightarrow> SeriesMetadataParams" where
  "metadata_defaults p = p\<lparr>
     mp_Page := (if mp_Page p \<le> 0 then 1 else mp_Page p),
     mp_PageSize := (if mp_PageSize p \<le> 0 then 10 else mp_PageSize p),
     mp_SortBy := (if mp_SortBy p = [] then ''queryCount'' else mp_SortBy p),
     mp_SortOrder := (if mp_SortOrder p = [] then ''desc'' else mp_SortOrder p),
     mp_Usage := NormalizeSeriesMetadataUsage (mp_Usage p)\<rparr>"

definition type_matches :: "string \<Rightarrow> string \<Rightarrow> bool" where
  "type_matches ty c \<longleftrightarrow> ty = ''all'' \<or>
     (if ty = ''histogram'' then c \<in> set [''histogram_bucket'', ''histogram_count'', ''histogram_sum'']
      else if ty = ''summary'' then c \<in> set [''summary'', ''summary_count'', ''summary_sum'']
      else c = ty)"

text \<open>The counts of the row are the summary's, or 0 where it has none (\<open>COALESCE\<close>).\<close>

definition usage_matches :: "string \<Rightarrow> MetricMetadata \<Rightarrow> bool" where
  "usage_matches usage m \<longleftrightarrow> usage = ''all''
     \<or> (usage = ''used'' \<and> (mm_AlertCount m > 0 \<or> mm_RecordCount m > 0 \<or> mm_DashboardCount m > 0 \<or> mm_QueryCount m > 0))
     \<or> (usage = ''unused'' \<and> mm_AlertCount m = 0 \<and> mm_RecordCount m = 0 \<and> mm_DashboardCount m = 0 \<and> mm_QueryCount m = 0)"

text \<open>
  The condition of both statements; the count has the filter between single \<open>%\<close> signs, the
  page between doubled ones.
\<close>

definition metadata_matches ::
  "(string \<Rightarrow> string \<Rightarrow> bool) \<Rightarrow> SeriesMetadataParams \<Rightarrow> tables \<Rightarrow> string \<times> catalog_row \<Rightarrow> bool" where
  "metadata_matches lk p t = (\<lambda>(name, c).
     (mp_Filter p = [] \<or> lk (mp_Filter p) name \<or> lk (mp_Filter p) (cr_help c))
     \<and> type_matches (mp_Type p) (cr_type c)
     \<and> usage_matches (mp_Usage p) (metadata_row t (name, c))
     \<and> (mp_Job p = [] \<or> (name, mp_Job p) \<in> fst ` set (t_jobs t)))"

definition like_filter2 :: "string \<Rightarrow> string \<Rightarrow> bool" where
  "like_filter2 f s \<longleftrightarrow> like (''%%'' @ f @ ''%%'') s"

definition metadata_key :: "string \<Rightarrow> MetricMetadata \<Rightarrow> sql_value" where
  "metadata_key f m =
     (if f = ''name'' then Text (mm_Name m) else if f = ''type'' then Text (mm_Type m)
      else if f = ''help'' then Text (mm_Help m) else if f = ''unit'' then Text (mm_Unit m)
      else if f = ''alertCount'' then Num (real_of_int (mm_AlertCount m))
      else if f = ''recordCount'' then Num (real_of_int (mm_RecordCount m))
      else if f = ''dashboardCount'' then Num (real_of_int (mm_DashboardCount m))
      else Num (real_of_int (mm_QueryCount m)))"

definition GetSeriesMetadata ::
  "read_faults \<Rightarrow> ((MetricMetadata \<Rightarrow> MetricMetadata \<Rightarrow> bool) \<Rightarrow> MetricMetadata list \<Rightarrow> MetricMetadata list)
   \<Rightarrow> tables \<Rightarrow> SeriesMetadataParams \<Rightarrow> go_error + MetricMetadata PagedResult" where
  "GetSeriesMetadata fl srt t params0 =
     (let params = metadata_defaults params0 in
      case rf_count fl of
        Some err \<Rightarrow> Inl (''failed to count catalog: '' @ err)
      | None \<Rightarrow>
          (let totalCount = int (length (filter (metadata_matches like_filter params t) (t_catalog t))) in
           if totalCount = 0 then Inr \<lparr>pr_TotalPages = 0, pr_Total = 0, pr_Data = []\<rparr>
           else (case rf_query fl of
                   Some err \<Rightarrow> Inl (''failed to query series metadata: '' @ err)
                 | None \<Rightarrow>
                     (let (sortBy, sortOrder) = ValidateSortField (mp_SortBy params) (mp_SortOrder params)
                                                  ValidSeriesMetadataSortFields ''queryCount'';
                          rows = srt (key_order sortOrder (metadata_key sortBy))
                                   (map (metadata_row t) (filter (metadata_matches like_filter2 params t) (t_catalog t)))
                      in case scan_rows (''failed to scan row: '', ''row iteration error: '') fl 0
                                (page_of (mp_Page params) (mp_PageSize params) rows) of
                           Inl err \<Rightarrow> Inl err
                         | Inr results \<Rightarrow> Inr \<lparr>pr_TotalPages = pages_of totalCount (mp_PageSize params),
                                              pr_Total = totalCount, pr_Data = results\<rparr>))))"

section \<open>Rules and dashboards of a metric\<close>

text \<open>The sort field outside the list of valid ones falls back to \<open>created_at\<close>; the direction is not checked.\<close>

definition usage_sort_field :: "string list \<Rightarrow> string \<Rightarrow> string" where
  "usage_sort_field valid sortBy = (if sortBy \<in> set valid then sortBy else ''created_at'')"

definition optional_filter :: "string \<Rightarrow> string \<Rightarrow> string \<Rightarrow> bool" where
  "optional_filter f a b \<longleftrightarrow> (if f \<noteq> [] then like_filter f a \<or> like_filter f b else True)"

definition rules_in_window :: "(time \<Rightarrow> string) \<Rightarrow> tables \<Rightarrow> RulesUsageParams \<Rightarrow> (rule_key \<times> rule_row) list" where
  "rules_in_window ct t p = filter (\<lambda>((serie, kind, group, name, expression, labels), row).
     serie = rp_Serie p \<and> kind = rp_Kind p
     \<and> in_presence ct (rp_TimeRange p) (rr_first_seen_at row) (rr_last_seen_at row)
     \<and> optional_filter (rp_Filter p) name expression) (t_rules t)"

definition rule_identity :: "rule_key \<times> rule_row \<Rightarrow> string \<times> string \<times> string \<times> string" where
  "rule_identity = (\<lambda>((serie, kind, group, name, expression, labels), row). (serie, kind, group, name))"

text \<open>\<open>kind || '|' || group_name || '|' || name\<close>, the text whose distinct values are counted.\<close>

definition rule_count_text :: "rule_key \<times> rule_row \<Rightarrow> string" where
  "rule_count_text = (\<lambda>((serie, kind, group, name, expression, labels), row). kind @ ''|'' @ group @ ''|'' @ name)"

definition rule_result :: "rule_key \<times> rule_row \<Rightarrow> RulesUsage" where
  "rule_result = (\<lambda>((serie, kind, group, name, expression, labels), row).
     \<lparr>ru_Serie = serie, ru_GroupName = group, ru_Name = name, ru_Expression = expression, ru_Kind = kind,
      ru_Labels = labels, ru_CreatedAt = rr_created_at row\<rparr>)"

definition rule_sort_key :: "(time \<Rightarrow> string) \<Rightarrow> string \<Rightarrow> rule_key \<times> rule_row \<Rightarrow> sql_value" where
  "rule_sort_key ct f = (\<lambda>((serie, kind, group, name, expression, labels), row).
     if f = ''name'' then Text name else if f = ''group_name'' then Text group
     else if f = ''expression'' then Text expression else if f = ''created_at'' then Text (ct (rr_created_at row)) else Null)"

text \<open>The version of each rule that was seen last.\<close>

definition rules_listed ::
  "(time \<Rightarrow> string) \<Rightarrow> ((rule_key \<times> rule_row \<Rightarrow> rule_key \<times> rule_row \<Rightarrow> bool) \<Rightarrow> (rule_key \<times> rule_row) list \<Rightarrow> (rule_key \<times> rule_row) list)
   \<Rightarrow> tables \<Rightarrow> RulesUsageParams \<Rightarrow> (rule_key \<times> rule_row) list" where
  "rules_listed ct srt t p =
     first_rows srt rule_identity (key_order ''desc'' (\<lambda>(k, row). Text (ct (rr_last_seen_at row)))) (rules_in_window ct t p)"

definition rules_defaults :: "time \<Rightarrow> RulesUsageParams \<Rightarrow> RulesUsageParams" where
  "rules_defaults now p = p\<lparr>
     rp_Page := (if rp_Page p \<le> 0 then 1 else rp_Page p),
     rp_PageSize := (if rp_PageSize p \<le> 0 then 10 else if rp_PageSize p > MaxPageSize then MaxPageSize else rp_PageSize p),
     rp_SortBy := usage_sort_field [''name'', ''group_name'', ''expression'', ''created_at'']
                    (if rp_SortBy p = [] then ''created_at'' else rp_SortBy p),
     rp_SortOrder := (if rp_SortOrder p = [] then ''desc'' else rp_SortOrder p),
     rp_TimeRange := SetDefaultTimeRange now (rp_TimeRange p)\<rparr>"

definition GetRulesUsage where
  "GetRulesUsage ct fl srt now t params0 =
     (let params = rules_defaults now params0 in
      case rf_count fl of
        Some err \<Rightarrow> Inl (''failed to query total count: '' @ err)
      | None \<Rightarrow>
          (let totalCount = int (length (remdups (map rule_count_text (rules_in_window ct t params)))) in
           case rf_query fl of
             Some err \<Rightarrow> Inl (''failed to query rules usage: '' @ err)
           | None \<Rightarrow>
               (case scan_rows (''failed to scan row: '', ''row iteration error: '') fl 0
                       (page_of (rp_Page params) (rp_PageSize params)
                         (srt (case_order (rp_SortOrder params) (rule_sort_key ct (rp_SortBy params)))
                           (rules_listed ct srt t params))) of
                  Inl err \<Rightarrow> Inl err
                | Inr results \<Rightarrow> Inr \<lparr>pr_TotalPages = pages_of totalCount (rp_PageSize params),
                                     pr_Total = totalCount, pr_Data = map rule_result results\<rparr>)))"

type_synonym dash_entry = "dash_key \<times> dashboard_row"

definition dashboards_in_window :: "(time \<Rightarrow> string) \<Rightarrow> tables \<Rightarrow> DashboardUsageParams \<Rightarrow> dash_entry list" where
  "dashboards_in_window ct t p = filter (\<lambda>((ident, serie), row).
     serie = dp_Serie p \<and> in_presence ct (dp_TimeRange p) (dr_first_seen_at row) (dr_last_seen_at row)
     \<and> optional_filter (dp_Filter p) (dr_name row) (dr_url row)) (t_dashboards t)"

definition dashboard_result :: "dash_entry \<Rightarrow> DashboardUsage" where
  "dashboard_result = (\<lambda>((ident, serie), row).
     \<lparr>du_Id = ident, du_Serie = serie, du_Name = dr_name row, du_URL = dr_url row, du_CreatedAt = dr_created_at row\<rparr>)"

definition dashboard_sort_key :: "(time \<Rightarrow> string) \<Rightarrow> string \<Rightarrow> dash_entry \<Rightarrow> sql_value" where
  "dashboard_sort_key ct f = (\<lambda>((ident, serie), row).
     if f = ''name'' then Text (dr_name row) else if f = ''url'' then Text (dr_url row)
     else if f = ''created_at'' then Text (ct (dr_created_at row)) else Null)"

definition dashboards_defaults :: "time \<Rightarrow> DashboardUsageParams \<Rightarrow> DashboardUsageParams" where
  "dashboards_defaults now p = p\<lparr>
     dp_Page := (if dp_Page p \<le> 0 then 1 else dp_Page p),
     dp_PageSize := (if dp_PageSize p \<le> 0 then 10 else dp_PageSize p),
     dp_SortBy := usage_sort_field [''name'', ''url'', ''created_at''] (if dp_SortBy p = [] then ''created_at'' else dp_SortBy p),
     dp_SortOrder := (if dp_SortOrder p = [] then ''desc'' else dp_SortOrder p),
     dp_TimeRange := SetDefaultTimeRange now (dp_TimeRange p)\<rparr>"

definition dashboards_listed where
  "dashboards_listed ct srt t p =
     first_rows srt (prod.swap \<circ> fst) (key_order ''desc'' (\<lambda>(k, row). Text (ct (dr_last_seen_at row)))) (dashboards_in_window ct t p)"

definition GetDashboardUsage where
  "GetDashboardUsage ct fl srt now t params0 =
     (let params = dashboards_defaults now params0 in
      case rf_count fl of
        Some err \<Rightarrow> Inl (''failed to query total count: '' @ err)
      | None \<Rightarrow>
          (let totalCount = int (length (remdups (map (fst \<circ> fst) (dashboards_in_window ct t params)))) in
           case rf_query fl of
             Some err \<Rightarrow> Inl (''failed to query dashboard usage: '' @ err)
           | None \<Rightarrow>
               (case scan_rows (''failed to scan row: '', ''row iteration error: '') fl 0
                       (page_of (dp_Page params) (dp_PageSize params)
                         (srt (case_order (dp_SortOrder params) (dashboard_sort_key ct (dp_SortBy params)))
                           (dashboards_listed ct srt t params))) of
                  Inl err \<Rightarrow> Inl err
                | Inr results \<Rightarrow> Inr \<lparr>pr_TotalPages = pages_of totalCount (dp_PageSize params),
                                     pr_Total = totalCount, pr_Data = map dashboard_result results\<rparr>)))"

text \<open>Doubling a \<open>%\<close> changes nothing, so both statements select the same rows.\<close>

lemma like_percent_twice: "like (CHR ''%'' # CHR ''%'' # p) s = like (CHR ''%'' # p) s"
proof (induction "length s" arbitrary: s rule: less_induct)
  case less
  then show ?case using length_next_char [of s] by (cases s) auto
qed

lemma like_percent_end: "like (p @ ''%%'') s = like (p @ ''%'') s"
proof (induction p s rule: like.induct)
  case (1 s)
  then show ?case using like_percent_twice [of "[]" s] by simp
next
  case (2 c p s)
  then show ?case by (simp add: like.simps(2))
qed

lemma like_filter2 [simp]: "like_filter2 f s = like_filter f s"
  using like_percent_twice [of "f @ ''%%''" s] like_percent_end [of "CHR ''%'' # f" s]
  by (simp add: like_filter2_def like_filter_def)

lemma metadata_matches_like [simp]: "metadata_matches like_filter2 = metadata_matches like_filter"
  by (simp add: metadata_matches_def fun_eq_iff)

text \<open>The rows a request selects, before ordering and paging.\<close>

definition selected :: "tables \<Rightarrow> SeriesMetadataParams \<Rightarrow> MetricMetadata list" where
  "selected t p = map (metadata_row t) (filter (metadata_matches like_filter (metadata_defaults p) t) (t_catalog t))"

lemma name_of_metadata_row [simp]: "mm_Name (metadata_row t x) = fst x"
  by (cases x) simp

lemma sql_sorts_Nil: "sql_sorts srt \<Longrightarrow> srt le [] = []"
  by (simp add: sql_sorts_def) (metis mset_zero_iff)

lemma sql_sorts_length: "sql_sorts srt \<Longrightarrow> length (srt le xs) = length xs"
  by (simp add: sql_sorts_def) (metis size_mset)

lemma GetSeriesMetadata_healthy:
  assumes "sql_sorts srt" "mp_PageSize p < 2 ^ 62"
    "ValidateSortField (mp_SortBy (metadata_defaults p)) (mp_SortOrder (metadata_defaults p))
       ValidSeriesMetadataSortFields ''queryCount'' = (f, d)"
  shows "GetSeriesMetadata no_read_faults srt t p = Inr
     \<lparr>pr_TotalPages = pages_of (int (length (selected t p))) (mp_PageSize (metadata_defaults p)),
      pr_Total = int (length (selected t p)),
      pr_Data = page_of (mp_Page (metadata_defaults p)) (mp_PageSize (metadata_defaults p))
                  (srt (key_order d (metadata_key f)) (selected t p))\<rparr>"
proof (cases "selected t p = []")
  case True
  have "0 < mp_PageSize (metadata_defaults p)" "mp_PageSize (metadata_defaults p) < 2 ^ 62"
    using assms(2) by (simp_all add: metadata_defaults_def)
  then have "pages_of 0 (mp_PageSize (metadata_defaults p)) = 0" by (simp add: pages_of_exact)
  with True show ?thesis
    using sql_sorts_Nil [OF assms(1)]
    by (simp add: GetSeriesMetadata_def selected_def page_of_def limit_offset_def Let_def)
next
  case False
  then show ?thesis
    using assms(3) by (simp add: GetSeriesMetadata_def selected_def Let_def)
qed

text \<open>Ordered by a field that identifies the row, the order of the engine leaves no choice.\<close>

lemma sql_sorts_text:
  assumes "sql_sorts srt" "inj_on k (set xs)"
  shows "srt (key_order ''asc'' (\<lambda>r. Text (k r))) xs = sort_key k xs"
proof -
  let ?ys = "srt (key_order ''asc'' (\<lambda>r. Text (k r))) xs"
  have m: "mset ?ys = mset xs" and "sorted_wrt (key_order ''asc'' (\<lambda>r. Text (k r))) ?ys"
    using assms(1) key_order_preorder by (auto simp: sql_sorts_def)
  then have "sorted (map k ?ys)"
    unfolding sorted_map by (elim sorted_wrt_mono_rel [rotated]) (simp add: key_order_def)
  then show ?thesis using sort_key_inj_key_eq [OF m [symmetric] assms(2)] by (simp only:)
qed

lemma sql_sorts_unique:
  assumes "sql_sorts srt" "distinct (map mm_Name xs)"
  shows "srt (key_order ''asc'' (metadata_key ''name'')) xs = sort_key mm_Name xs"
  using sql_sorts_text [OF assms(1), of mm_Name xs] assms(2)
  by (simp add: distinct_map metadata_key_def [abs_def])

lemma distinct_selected: "tables_wf t \<Longrightarrow> distinct (map mm_Name (selected t p))"
  by (simp add: selected_def comp_def distinct_map_filter tables_wf_def map_wf_def)

lemma ValidateSortField_name: "ValidateSortField ''name'' ''asc'' ValidSeriesMetadataSortFields dflt = (''name'', ''asc'')"
  by (simp add: ValidateSortField_def TrimSpace_printable ValidSeriesMetadataSortFields_def ValidSortDirections_def
      to_lower_def lower_char_def)

text \<open>Pages that report the number of rows give, put together, all rows.\<close>

lemma complete_pages:
  assumes "0 < psize" "psize < 2 ^ 62" "length rows < 2 ^ 62"
    and "\<And>page. fetch page = Inr \<lparr>pr_TotalPages = pages_of (int (length rows)) psize, pr_Total = n,
      pr_Data = page_of (if page \<le> 0 then 1 else page) psize rows\<rparr>"
  shows "concat (map (\<lambda>page. pr_Data (projr (fetch page))) [1..pages_of (int (length rows)) psize]) = rows"
proof -
  have "map (\<lambda>page. pr_Data (projr (fetch page))) [1..pages_of (int (length rows)) psize]
      = map (\<lambda>page. page_of page psize rows) [1..pages_of (int (length rows)) psize]"
    by (rule map_cong [OF refl]) (simp add: assms(4))
  with concat_pages [OF assms(1-3)] show ?thesis by (simp only:)
qed

text \<open>
  C29. The pages of the metric list are complete: a client that sorts by name and asks for page
  1 up to the reported number of pages gets, put together, exactly the metrics of the catalog
  that match its filters, each once and in the order of their names, with any page size and
  whatever order the database gives to equal rows in each request; every answer reports their
  number.
\<close>

theorem GetSeriesMetadata_pages:
  fixes fetch
  assumes "tables_wf t" "\<And>page. sql_sorts (srt page)" "0 < psize" "psize < 2 ^ 62" "length (t_catalog t) < 2 ^ 62"
    and fetch: "\<And>page. fetch page = GetSeriesMetadata no_read_faults (srt page) t
      (p\<lparr>mp_Page := page, mp_PageSize := psize, mp_SortBy := ''name'', mp_SortOrder := ''asc''\<rparr>)"
  shows "\<exists>pages. (\<forall>page. \<exists>d. fetch page = Inr \<lparr>pr_TotalPages = pages, pr_Total = int (length (selected t p)), pr_Data = d\<rparr>)
       \<and> concat (map (\<lambda>page. pr_Data (projr (fetch page))) [1..pages]) = sort_key mm_Name (selected t p)"
proof -
  let ?rows = "sort_key mm_Name (selected t p)"
  let ?pages = "pages_of (int (length (selected t p))) psize"
  have sel: "selected t (p\<lparr>mp_Page := page, mp_PageSize := psize, mp_SortBy := ''name'', mp_SortOrder := ''asc''\<rparr>) = selected t p" for page
    by (simp add: selected_def metadata_matches_def metadata_defaults_def cong: filter_cong)
  have u: "srt page (key_order ''asc'' (metadata_key ''name'')) (selected t p) = ?rows" for page
    by (rule sql_sorts_unique [OF assms(2) distinct_selected [OF assms(1)]])
  have f: "fetch page = Inr \<lparr>pr_TotalPages = ?pages, pr_Total = int (length (selected t p)),
      pr_Data = page_of (if page \<le> 0 then 1 else page) psize ?rows\<rparr>" for page
    unfolding fetch using assms(3,4)
    by (subst GetSeriesMetadata_healthy [OF assms(2), where f = "''name''" and d = "''asc''"])
      (simp_all add: sel metadata_defaults_def ValidateSortField_name u)
  have "length (selected t p) \<le> length (t_catalog t)" by (simp add: selected_def)
  with assms(3-5) f have "concat (map (\<lambda>page. pr_Data (projr (fetch page))) [1..?pages]) = ?rows"
    using complete_pages [of psize ?rows fetch] by simp
  with f show ?thesis by blast
qed

text \<open>An engine that keeps rows with equal keys in their order.\<close>

fun insert_row :: "('a \<Rightarrow> 'a \<Rightarrow> bool) \<Rightarrow> 'a \<Rightarrow> 'a list \<Rightarrow> 'a list" where
  "insert_row le x [] = [x]"
| "insert_row le x (y # ys) = (if le x y then x # y # ys else y # insert_row le x ys)"

definition insertion_sort :: "('a \<Rightarrow> 'a \<Rightarrow> bool) \<Rightarrow> 'a list \<Rightarrow> 'a list" where
  "insertion_sort le xs = foldr (insert_row le) xs []"

lemma mset_insert_row: "mset (insert_row le x ys) = add_mset x (mset ys)"
  by (induction ys) auto

lemma set_insert_row: "set (insert_row le x ys) = insert x (set ys)"
  using mset_insert_row [of le x ys] by (metis set_mset_mset set_mset_add_mset_insert)

lemma sorted_insert_row: "total_preorder le \<Longrightarrow> sorted_wrt le ys \<Longrightarrow> sorted_wrt le (insert_row le x ys)"
proof (induction ys)
  case (Cons y ys)
  show ?case
  proof (cases "le x y")
    case True
    with Cons.prems have "\<forall>z \<in> set ys. le x z" by (auto simp: total_preorder_def)
    with True Cons.prems show ?thesis by simp
  next
    case False
    with Cons.prems(1) have "le y x" by (auto simp: total_preorder_def)
    with False Cons show ?thesis by (simp add: set_insert_row)
  qed
qed simp

lemma insertion_sort_sorts: "sql_sorts insertion_sort"
proof -
  have "mset (insertion_sort le xs) = mset xs" for le :: "'a \<Rightarrow> 'a \<Rightarrow> bool" and xs
    by (induction xs) (simp_all add: insertion_sort_def mset_insert_row)
  moreover have "sorted_wrt le (insertion_sort le xs)" if "total_preorder le" for le :: "'a \<Rightarrow> 'a \<Rightarrow> bool" and xs
    using that by (induction xs) (simp_all add: insertion_sort_def sorted_insert_row)
  ultimately show ?thesis by (simp add: sql_sorts_def)
qed

definition sample_catalog :: tables where
  "sample_catalog = snd (UpsertMetricsCatalog no_faults 0 empty_tables
     [\<lparr>ci_Name = ''up'', ci_Type = ''gauge'', ci_Help = ''Target is up'', ci_Unit = []\<rparr>,
      \<lparr>ci_Name = ''build_info'', ci_Type = ''gauge'', ci_Help = [], ci_Unit = []\<rparr>])"

definition sample_params :: SeriesMetadataParams where
  "sample_params = \<lparr>mp_Page = 1, mp_PageSize = 1, mp_SortBy = ''name'', mp_SortOrder = ''asc'', mp_Filter = ''u'',
     mp_Type = ''all'', mp_Usage = ''all'', mp_Job = []\<rparr>"

theorem GetSeriesMetadata_pages_witness:
  "\<exists>pages. concat (map (\<lambda>page. pr_Data (projr (GetSeriesMetadata no_read_faults insertion_sort sample_catalog
       (sample_params\<lparr>mp_Page := page, mp_PageSize := 1, mp_SortBy := ''name'', mp_SortOrder := ''asc''\<rparr>)))) [1..pages])
     = sort_key mm_Name (selected sample_catalog sample_params)
   \<and> map mm_Name (selected sample_catalog sample_params) = [''up'', ''build_info'']"
proof -
  have c: "t_catalog sample_catalog =
      [(''up'', \<lparr>cr_type = ''gauge'', cr_help = ''Target is up'', cr_unit = [], cr_first_seen_at = 0, cr_last_synced_at = 0\<rparr>),
       (''build_info'', \<lparr>cr_type = ''gauge'', cr_help = [], cr_unit = [], cr_first_seen_at = 0, cr_last_synced_at = 0\<rparr>)]"
    by (simp add: sample_catalog_def UpsertMetricsCatalog_def upsert_catalog_def empty_tables_def)
  have wf: "tables_wf sample_catalog"
    by (simp add: tables_wf_def c map_wf_def)
      (simp add: sample_catalog_def UpsertMetricsCatalog_def upsert_catalog_def empty_tables_def)
  have "mp_Usage (metadata_defaults sample_params) = ''all''"
    by (simp add: metadata_defaults_def sample_params_def NormalizeSeriesMetadataUsage_def TrimSpace_printable to_lower_def lower_char_def)
  then have "map mm_Name (selected sample_catalog sample_params) = [''up'', ''build_info'']"
    by (simp add: selected_def c metadata_matches_def usage_matches_def type_matches_def)
      (simp add: metadata_defaults_def sample_params_def like_filter_def next_char_def lower_char_def)
  with GetSeriesMetadata_pages [OF wf insertion_sort_sorts, of 1, OF _ _ _ refl] show ?thesis
    by (fastforce simp: c)
qed

section \<open>The rules that use a metric\<close>

lemma separator_split:
  assumes "CHR ''|'' \<notin> set a" "CHR ''|'' \<notin> set b" "a @ ''|'' @ x = b @ ''|'' @ y"
  shows "a = b \<and> x = y"
proof -
  have "takeWhile (\<lambda>c. c \<noteq> CHR ''|'') (u @ ''|'' @ v) = u" if "CHR ''|'' \<notin> set u" for u v
    using that by (induction u) auto
  with assms have "a = b" by metis
  with assms(3) show ?thesis by simp
qed

lemma length_remdups_inj:
  assumes "\<And>x. x \<in> set xs \<Longrightarrow> f x = h (g x)" "inj_on h (g ` set xs)"
  shows "length (remdups (map f xs)) = length (remdups (map g xs))"
proof -
  have "f ` set xs = h ` g ` set xs" using assms(1) by (auto simp: image_iff)
  then show ?thesis using card_image [OF assms(2)] by (simp add: length_remdups_card_conv)
qed

text \<open>Without the separator in group names the count distinguishes rules as the listing does.\<close>

lemma rule_total:
  assumes "\<forall>((serie, kind, group, rest), row) \<in> set (t_rules t). CHR ''|'' \<notin> set group"
  shows "length (remdups (map rule_count_text (rules_in_window ct t p))) = length (remdups (map rule_identity (rules_in_window ct t p)))"
proof (rule length_remdups_inj)
  let ?h = "\<lambda>(serie, kind, group, name). kind @ ''|'' @ group @ ''|'' @ name"
  show "rule_count_text x = ?h (rule_identity x)" for x
    by (simp add: rule_count_text_def rule_identity_def split: prod.split)
  show "inj_on ?h (rule_identity ` set (rules_in_window ct t p))"
  proof (rule inj_onI, clarsimp simp: rules_in_window_def rule_identity_def)
    fix g n e l row g' n' e' l' row'
    assume "((rp_Serie p, rp_Kind p, g, n, e, l), row) \<in> set (t_rules t)" "((rp_Serie p, rp_Kind p, g', n', e', l'), row') \<in> set (t_rules t)"
      and eq: "g @ CHR ''|'' # n = g' @ CHR ''|'' # n'"
    with assms have "CHR ''|'' \<notin> set g" "CHR ''|'' \<notin> set g'" by fastforce+
    with eq separator_split [of g g' n n'] show "g = g' \<and> n = n'" by simp
  qed
qed

lemma key_order_desc: "key_order ''desc'' key x y \<longleftrightarrow> key y \<le> key x"
  by (simp add: key_order_def)

lemma GetRulesUsage_healthy:
  "GetRulesUsage ct no_read_faults srt now t p =
     (let q = rules_defaults now p in Inr
       \<lparr>pr_TotalPages = pages_of (int (length (remdups (map rule_count_text (rules_in_window ct t q))))) (rp_PageSize q),
        pr_Total = int (length (remdups (map rule_count_text (rules_in_window ct t q)))),
        pr_Data = page_of (rp_Page q) (rp_PageSize q) (map rule_result
          (srt (case_order (rp_SortOrder q) (rule_sort_key ct (rp_SortBy q))) (rules_listed ct srt t q)))\<rparr>)"
  by (simp add: GetRulesUsage_def Let_def page_of_def limit_offset_def take_map drop_map)

text \<open>
  One version of each rule, that seen last by \<open>key\<close>, in any order: every rule appears once, with
  its latest version.
\<close>

lemma latest_versions:
  assumes "sql_sorts srt" "\<forall>((serie, kind, rest), row) \<in> set w. serie = s0 \<and> kind = k0"
    and sorted: "mset es = mset (first_rows srt rule_identity (key_order ''desc'' key) w)"
  defines "rows \<equiv> map rule_result es"
  shows "distinct (map (\<lambda>r. (ru_GroupName r, ru_Name r)) rows)"
    and "e \<in> set w \<Longrightarrow> \<exists>r \<in> set rows. ru_GroupName r = ru_GroupName (rule_result e) \<and> ru_Name r = ru_Name (rule_result e)"
    and "r \<in> set rows \<Longrightarrow> \<exists>e \<in> set w. r = rule_result e \<and> (\<forall>e' \<in> set w. rule_identity e' = rule_identity e \<longrightarrow> key e' \<le> key e)"
proof -
  let ?listed = "first_rows srt rule_identity (key_order ''desc'' key) w"
  note lst = first_rows_spec [where part = rule_identity and rows = w and le = "key_order ''desc'' key", OF assms(1) key_order_preorder]
  have set: "set es = set ?listed" using sorted by (rule mset_eq_setD)
  have "mset (map rule_identity es) = mset (map rule_identity ?listed)" using sorted by simp
  then have "distinct (map rule_identity es)" using lst(1) mset_eq_imp_distinct_iff by (metis distinct_remdups)
  moreover have ident: "rule_identity e = (s0, k0, ru_GroupName (rule_result e), ru_Name (rule_result e))" if "e \<in> set w" for e
    using assms(2) that by (auto simp: rule_identity_def rule_result_def)
  have "map rule_identity es = map (\<lambda>r. (s0, k0, ru_GroupName r, ru_Name r)) rows"
    unfolding rows_def map_map by (intro map_cong) (use ident set lst(2) in auto)
  ultimately show "distinct (map (\<lambda>r. (ru_GroupName r, ru_Name r)) rows)" by (simp add: distinct_map inj_on_def)
  show "\<exists>r \<in> set rows. ru_GroupName r = ru_GroupName (rule_result e) \<and> ru_Name r = ru_Name (rule_result e)" if "e \<in> set w"
  proof -
    have "rule_identity e \<in> set (map rule_identity ?listed)" using that lst(1) by simp
    then obtain e' where e': "e' \<in> set ?listed" "rule_identity e' = rule_identity e" by auto
    with that ident [of e] ident [of e'] lst(2) [OF e'(1)] set show ?thesis by (auto simp: rows_def)
  qed
  show "\<exists>e \<in> set w. r = rule_result e \<and> (\<forall>e' \<in> set w. rule_identity e' = rule_identity e \<longrightarrow> key e' \<le> key e)" if "r \<in> set rows"
  proof -
    from that have "r \<in> rule_result ` set ?listed" by (simp add: rows_def set)
    then obtain e where e: "r = rule_result e" "e \<in> set ?listed" by (rule imageE)
    with lst(2) [OF e(2)] show ?thesis by (auto simp: key_order_desc)
  qed
qed

text \<open>
  The rules that use a metric are listed completely and at their latest version: over all
  pages every rule (group and name) of the kind that was present in the window and matches the
  filter appears exactly once, with the expression, labels and creation time of the version
  that was seen last; the total is their number.
\<close>

lemma GetRulesUsage_latest:
  fixes fetch
  assumes "sql_sorts srt" "\<forall>((serie, kind, group, rest), row) \<in> set (t_rules t). CHR ''|'' \<notin> set group"
    "length (t_rules t) < 2 ^ 62"
    and fetch: "\<And>page. fetch page = projr (GetRulesUsage ct no_read_faults srt now t (p\<lparr>rp_Page := page\<rparr>))"
  defines "q \<equiv> rules_defaults now p"
  defines "rows \<equiv> concat (map (\<lambda>page. pr_Data (fetch page)) [1..pr_TotalPages (fetch 1)])"
  shows "distinct (map (\<lambda>r. (ru_GroupName r, ru_Name r)) rows)
       \<and> (\<forall>e \<in> set (rules_in_window ct t q). \<exists>r \<in> set rows. ru_GroupName r = ru_GroupName (rule_result e) \<and> ru_Name r = ru_Name (rule_result e))
       \<and> (\<forall>r \<in> set rows. \<exists>e \<in> set (rules_in_window ct t q). r = rule_result e \<and>
            (\<forall>e' \<in> set (rules_in_window ct t q). rule_identity e' = rule_identity e \<longrightarrow>
               ct (rr_last_seen_at (snd e')) \<le> ct (rr_last_seen_at (snd e))))
       \<and> pr_Total (fetch 1) = int (length rows)"
proof -
  let ?w = "rules_in_window ct t q"
  let ?listed = "rules_listed ct srt t q"
  let ?sorted = "srt (case_order (rp_SortOrder q) (rule_sort_key ct (rp_SortBy q))) ?listed"
  note lst = first_rows_spec [where part = rule_identity and rows = ?w
      and le = "key_order ''desc'' (\<lambda>(k, row). Text (ct (rr_last_seen_at row)))", OF assms(1) key_order_preorder, folded rules_listed_def]
  have n: "length (remdups (map rule_count_text ?w)) = length ?sorted"
    using rule_total [OF assms(2)] lst(1) sql_sorts_length [OF assms(1)] by (metis length_map)
  have q: "rp_PageSize q > 0" "rp_PageSize q \<le> MaxPageSize"
    by (simp_all add: q_def rules_defaults_def MaxPageSize_def)
  have w: "rules_in_window ct t (rules_defaults now (p\<lparr>rp_Page := page\<rparr>)) = ?w"
      "rules_listed ct srt t (rules_defaults now (p\<lparr>rp_Page := page\<rparr>)) = ?listed" for page
    by (simp_all add: q_def rules_listed_def rules_in_window_def rules_defaults_def cong: filter_cong)
  have f: "fetch page = \<lparr>pr_TotalPages = pages_of (int (length ?sorted)) (rp_PageSize q), pr_Total = int (length ?sorted),
      pr_Data = page_of (if page \<le> 0 then 1 else page) (rp_PageSize q) (map rule_result ?sorted)\<rparr>" for page
    unfolding fetch GetRulesUsage_healthy Let_def w n by (simp add: q_def rules_defaults_def)
  have "length ?sorted \<le> length (t_rules t)"
    using n [symmetric] length_remdups_leq [of "map rule_count_text ?w"] length_filter_le
    by (simp add: rules_in_window_def) (meson le_trans length_filter_le)
  then have "concat (map (\<lambda>page. pr_Data (projr (Inr (fetch page)))) [1..pages_of (int (length (map rule_result ?sorted))) (rp_PageSize q)])
      = map rule_result ?sorted"
    using q assms(3) by (intro complete_pages) (simp_all add: f MaxPageSize_def)
  then have rows: "rows = map rule_result ?sorted" by (simp add: rows_def f)
  have "mset ?sorted = mset (first_rows srt rule_identity (key_order ''desc'' (\<lambda>(k, row). Text (ct (rr_last_seen_at row)))) ?w)"
    unfolding rules_listed_def using assms(1) by (simp add: sql_sorts_def)
  note latest = latest_versions [OF assms(1) _ this, folded rows]
  have "\<forall>((serie, kind, rest), row) \<in> set ?w. serie = rp_Serie q \<and> kind = rp_Kind q" by (auto simp: rules_in_window_def)
  from latest(1) [OF this] latest(2) [OF this] latest(3) [OF this] have
    "distinct (map (\<lambda>r. (ru_GroupName r, ru_Name r)) rows)"
    "\<forall>e \<in> set ?w. \<exists>r \<in> set rows. ru_GroupName r = ru_GroupName (rule_result e) \<and> ru_Name r = ru_Name (rule_result e)"
    "\<forall>r \<in> set rows. \<exists>e \<in> set ?w. r = rule_result e \<and> (\<forall>e' \<in> set ?w. rule_identity e' = rule_identity e \<longrightarrow>
      ct (rr_last_seen_at (snd e')) \<le> ct (rr_last_seen_at (snd e)))"
    by (auto simp: case_prod_unfold)
  then show ?thesis by (simp add: f rows)
qed

definition sample_rules :: tables where
  "sample_rules = empty_tables\<lparr>t_rules :=
     [((''up'', ''alert'', ''g'', ''Down'', ''up == 0'', []), \<lparr>rr_created_at = 0, rr_first_seen_at = 0, rr_last_seen_at = hour\<rparr>),
      ((''up'', ''alert'', ''g'', ''Down'', ''up < 1'', []), \<lparr>rr_created_at = hour, rr_first_seen_at = hour, rr_last_seen_at = 2 * hour\<rparr>)]\<rparr>"

definition sample_rules_params :: RulesUsageParams where
  "sample_rules_params = \<lparr>rp_Serie = ''up'', rp_Kind = ''alert'', rp_Page = 1, rp_PageSize = 10, rp_Filter = [],
     rp_SortBy = ''name'', rp_SortOrder = ''asc'', rp_TimeRange = \<lparr>tr_From = 0, tr_To = 3 * hour\<rparr>\<rparr>"

lemma GetRulesUsage_latest_witness:
  "let fetch = (\<lambda>page. projr (GetRulesUsage utc_text no_read_faults insertion_sort 0 sample_rules (sample_rules_params\<lparr>rp_Page := page\<rparr>)));
       rows = concat (map (\<lambda>page. pr_Data (fetch page)) [1..pr_TotalPages (fetch 1)])
   in map ru_Expression rows = [''up < 1'']"
proof -
  let ?q = "rules_defaults 0 sample_rules_params"
  let ?fetch = "\<lambda>page. projr (GetRulesUsage utc_text no_read_faults insertion_sort 0 sample_rules (sample_rules_params\<lparr>rp_Page := page\<rparr>))"
  let ?rows = "concat (map (\<lambda>page. pr_Data (?fetch page)) [1..pr_TotalPages (?fetch 1)])"
  have tr: "rp_TimeRange ?q = \<lparr>tr_From = 0, tr_To = 3 * hour\<rparr>" "rp_Serie ?q = ''up''" "rp_Kind ?q = ''alert''" "rp_Filter ?q = []"
    by (simp_all add: rules_defaults_def sample_rules_params_def SetDefaultTimeRange_def zero_time_def duration_defs)
  have w: "rules_in_window utc_text sample_rules ?q = t_rules sample_rules"
    unfolding rules_in_window_def tr
    by (simp add: sample_rules_def in_presence_times driver_text_utc four_digit_years_iff day_def optional_filter_def duration_defs)
  have lt: "\<not> utc_text (2 * hour) \<le> utc_text hour" by code_simp
  have a: "\<forall>((serie, kind, group, rest), row) \<in> set (t_rules sample_rules). CHR ''|'' \<notin> set group"
    "length (t_rules sample_rules) < 2 ^ 62" by (simp_all add: sample_rules_def)
  define rows where "rows = ?rows"
  let ?e1 = "((''up'', ''alert'', ''g'', ''Down'', ''up == 0'', []), \<lparr>rr_created_at = 0, rr_first_seen_at = 0, rr_last_seen_at = hour\<rparr>)"
  let ?e2 = "((''up'', ''alert'', ''g'', ''Down'', ''up < 1'', []), \<lparr>rr_created_at = hour, rr_first_seen_at = hour, rr_last_seen_at = 2 * hour\<rparr>)"
  have e: "set (t_rules sample_rules) = {?e1, ?e2}" by (simp add: sample_rules_def)
  note latest = GetRulesUsage_latest [where fetch = "?fetch", OF insertion_sort_sorts a refl, unfolded w e, folded rows_def]
  have all: "ru_GroupName r = ''g'' \<and> ru_Name r = ''Down'' \<and> ru_Expression r = ''up < 1''" if "r \<in> set rows" for r
  proof -
    from that latest obtain e where "e \<in> {?e1, ?e2}" "r = rule_result e" and
      max: "\<forall>e' \<in> {?e1, ?e2}. rule_identity e' = rule_identity e \<longrightarrow>
        utc_text (rr_last_seen_at (snd e')) \<le> utc_text (rr_last_seen_at (snd e))" by blast
    moreover from this lt have "e \<noteq> ?e1" by (auto simp: rule_identity_def)
    ultimately show ?thesis by (auto simp: rule_result_def)
  qed
  have d: "distinct (map (\<lambda>r. (ru_GroupName r, ru_Name r)) rows)" using latest by blast
  have "\<exists>r \<in> set rows. ru_GroupName r = ru_GroupName (rule_result ?e1)" using latest by blast
  then have "rows \<noteq> []" by auto
  moreover have "map (\<lambda>r. (ru_GroupName r, ru_Name r)) rows = map (\<lambda>_. (''g'', ''Down'')) rows"
    by (rule map_cong) (use all in auto)
  with d have "distinct (map (\<lambda>_. (''g'', ''Down'')) rows)" by (simp only:)
  then have "length rows \<le> 1" by (cases rows rule: remdups_adj.cases) auto
  ultimately obtain r where r: "rows = [r]" by (cases rows rule: remdups_adj.cases) auto
  with all [of r] have "map ru_Expression rows = [''up < 1'']" by simp
  then show ?thesis by (simp add: rows_def Let_def)
qed

end
