(* ===== verification/Sqlite_Reports.thy ===== *)
theory Sqlite_Reports
  imports Sqlite_Reads
begin

text \<open>
  The analytics of the SQLite provider (\<open>internal/db/sqlite.go\<close>): totals and rates over a
  window, charts over time buckets, the distribution of range queries by the length of their
  window, and the listings of queries by expression and by execution.

  Three arguments stand for the engine: \<open>ct\<close>, the text the driver stores for a time, \<open>srt\<close>, the
  sort, and \<open>round2\<close>, \<open>ROUND(x, 2)\<close> on floating-point numbers, which are modelled as reals.
  Where an error message quotes the whole statement, the quotation is left out.
\<close>

section \<open>Aggregates\<close>

definition duration_ms :: "Query \<Rightarrow> int" where
  "duration_ms q = q_Duration q div millisecond"

definition sql_avg :: "int list \<Rightarrow> real option" where
  "sql_avg xs = (if xs = [] then None else Some (real_of_int (sum_list xs) / real (length xs)))"

definition sql_max :: "int list \<Rightarrow> int option" where
  "sql_max xs = (if xs = [] then None else Some (Max (set xs)))"

definition count_if :: "('a \<Rightarrow> bool) \<Rightarrow> 'a list \<Rightarrow> int" where
  "count_if P xs = int (length (filter P xs))"

text \<open>\<open>x * 100.0 / n\<close>.\<close>

definition percent :: "int \<Rightarrow> int \<Rightarrow> real" where
  "percent x n = real_of_int x * 100 / real_of_int n"

definition fingerprint_matches :: "string \<Rightarrow> Query \<Rightarrow> bool" where
  "fingerprint_matches fp q \<longleftrightarrow> (if fp \<noteq> [] then q_Fingerprint q = fp else True)"

definition metric_matches :: "string \<Rightarrow> Query \<Rightarrow> bool" where
  "metric_matches metric q \<longleftrightarrow> (if metric \<noteq> [] then first_metric_name q = Some metric else True)"

text \<open>The one row of an aggregate: the statement, \<open>rows.Next\<close>, \<open>Scan\<close> and \<open>rows.Err\<close>.\<close>

definition one_row :: "string \<Rightarrow> string \<times> string \<Rightarrow> read_faults \<Rightarrow> 'r \<Rightarrow> go_error + 'r" where
  "one_row label labels fl r =
     (case rf_query fl of
        Some err \<Rightarrow> Inl (label @ err)
      | None \<Rightarrow> (case scan_rows labels fl 0 [r] of Inl err \<Rightarrow> Inl err | Inr rs \<Rightarrow> Inr (hd rs)))"

definition row_labels :: "string \<times> string" where
  "row_labels = (''failed to scan row: '', ''row iteration error: '')"

definition operation_labels :: "string \<times> string" where
  "operation_labels = (''scanning row: '', ''row iteration: '')"

section \<open>Totals over a window\<close>

record QueryTypesResult =
  qt_TotalQueries :: int
  qt_InstantPercent :: "real option"
  qt_RangePercent :: "real option"

definition GetQueryTypes ::
  "(time \<Rightarrow> string) \<Rightarrow> (real \<Rightarrow> real) \<Rightarrow> read_faults \<Rightarrow> time \<Rightarrow> tables \<Rightarrow> TimeRange \<Rightarrow> string \<Rightarrow> go_error + QueryTypesResult" where
  "GetQueryTypes ct round2 fl now t tr0 fingerprint =
     (let tr = SetDefaultTimeRange now tr0;
          qs = filter (\<lambda>q. in_window ct tr (q_TS q) \<and> fingerprint_matches fingerprint q) (t_queries t);
          n = int (length qs);
          share = (\<lambda>ty. Some (if n > 0 then round2 (percent (count_if (\<lambda>q. q_Type q = ty) qs) n) else 0))
      in one_row ''executing query: '' operation_labels fl
           \<lparr>qt_TotalQueries = n, qt_InstantPercent = share QueryTypeInstant, qt_RangePercent = share QueryTypeRange\<rparr>)"

record AverageDurationResult =
  ad_AvgDuration :: "real option"
  ad_DeltaPercent :: "real option"

definition GetAverageDuration ::
  "(time \<Rightarrow> string) \<Rightarrow> (real \<Rightarrow> real) \<Rightarrow> read_faults \<Rightarrow> tables \<Rightarrow> TimeRange \<Rightarrow> string \<Rightarrow> go_error + AverageDurationResult" where
  "GetAverageDuration ct round2 fl t tr fingerprint =
     (let average = (\<lambda>w. sql_avg (map duration_ms
            (filter (\<lambda>q. in_window ct w (q_TS q) \<and> fingerprint_matches fingerprint q) (t_queries t))));
          avg_current = average tr; avg_previous = average (TimeRange_Previous tr)
      in one_row ''failed to query average duration: '' row_labels fl
           \<lparr>ad_AvgDuration = map_option round2 avg_current,
            ad_DeltaPercent = (case avg_previous of
               None \<Rightarrow> Some 0
             | Some prev \<Rightarrow> if prev = 0 then Some 0
                            else map_option (\<lambda>cur. round2 ((cur - prev) * 100 / prev)) avg_current)\<rparr>)"

record QueryRateResult =
  qr_SuccessTotal :: "int option"
  qr_SuccessRatePercent :: "real option"
  qr_ErrorTotal :: "int option"
  qr_ErrorRatePercent :: "real option"

text \<open>Over no rows \<open>SUM\<close> is \<open>NULL\<close>; \<open>rows.Err\<close> is not asked for.\<close>

definition GetQueryRate ::
  "(time \<Rightarrow> string) \<Rightarrow> (real \<Rightarrow> real) \<Rightarrow> read_faults \<Rightarrow> tables \<Rightarrow> TimeRange \<Rightarrow> string \<Rightarrow> string \<Rightarrow> go_error + QueryRateResult" where
  "GetQueryRate ct round2 fl t tr metricName fingerprint =
     (let qs = filter (\<lambda>q. in_window ct tr (q_TS q) \<and> metric_matches metricName q \<and> fingerprint_matches fingerprint q) (t_queries t);
          n = int (length qs);
          some = (\<lambda>x. if qs = [] then None else Some x);
          good = count_if (\<lambda>q. q_StatusCode q \<ge> 200 \<and> q_StatusCode q < 300) qs;
          bad = count_if (\<lambda>q. q_StatusCode q \<ge> 400) qs
      in one_row ''failed to query query rate: '' row_labels (fl\<lparr>rf_iter := None\<rparr>)
           \<lparr>qr_SuccessTotal = some good,
            qr_SuccessRatePercent = (if qs = [] then None else Some (round2 (percent good n))),
            qr_ErrorTotal = some bad,
            qr_ErrorRatePercent = (if qs = [] then None else Some (round2 (percent bad n)))\<rparr>)"

text \<open>Rules and dashboards of a metric, and of all metrics; dashboards are counted by name.\<close>

definition SqliteGetMetricStatistics ::
  "(time \<Rightarrow> string) \<Rightarrow> read_faults \<Rightarrow> tables \<Rightarrow> string \<Rightarrow> TimeRange \<Rightarrow> go_error + MetricUsageStatics" where
  "SqliteGetMetricStatistics ct fl t metricName tr =
     (let rules = filter (\<lambda>(_, row). in_presence ct tr (rr_first_seen_at row) (rr_last_seen_at row)) (t_rules t);
          dashes = filter (\<lambda>(_, row). in_presence ct tr (dr_first_seen_at row) (dr_last_seen_at row)) (t_dashboards t);
          names = (\<lambda>ds. int (length (remdups (map (dr_name \<circ> snd) ds))))
      in one_row ''failed to query metric statistics: '' row_labels fl
           \<lparr>us_SerieCount = 0, us_LabelCount = 0,
            us_AlertCount = count_if (\<lambda>((serie, kind, _), _). serie = metricName \<and> kind = ''alert'') rules,
            us_RecordCount = count_if (\<lambda>((serie, kind, _), _). serie = metricName \<and> kind = ''record'') rules,
            us_DashboardCount = names (filter (\<lambda>((ident, serie), _). serie = metricName) dashes),
            us_TotalAlerts = count_if (\<lambda>((serie, kind, _), _). kind = ''alert'') rules,
            us_TotalRecords = count_if (\<lambda>((serie, kind, _), _). kind = ''record'') rules,
            us_TotalDashboards = names dashes, us_Producers = []\<rparr>)"

record MetricQueryPerformanceStatistics =
  ps_TotalQueries :: int
  ps_AverageSamples :: "real option"
  ps_PeakSamples :: "int option"
  ps_AverageDuration :: "real option"

definition SqliteGetMetricQueryPerformanceStatistics ::
  "(time \<Rightarrow> string) \<Rightarrow> (real \<Rightarrow> real) \<Rightarrow> read_faults \<Rightarrow> tables \<Rightarrow> string \<Rightarrow> TimeRange \<Rightarrow> go_error + MetricQueryPerformanceStatistics" where
  "SqliteGetMetricQueryPerformanceStatistics ct round2 fl t metricName tr =
     (let qs = filter (\<lambda>q. first_metric_name q = Some metricName \<and> in_window ct tr (q_TS q)) (t_queries t)
      in one_row ''failed to query metric query performance statistics: '' row_labels fl
           \<lparr>ps_TotalQueries = int (length qs),
            ps_AverageSamples = map_option round2 (sql_avg (map q_PeakSamples qs)),
            ps_PeakSamples = sql_max (map q_PeakSamples qs),
            ps_AverageDuration = map_option round2 (sql_avg (map duration_ms qs))\<rparr>)"

section \<open>Listings of queries\<close>

text \<open>
  The total comes with every row of the page (\<open>total_count\<close>), so a page without rows reports
  the total 0.
\<close>

definition paged :: "string \<Rightarrow> string \<times> string \<Rightarrow> read_faults \<Rightarrow> int \<Rightarrow> int \<Rightarrow> 'r list \<Rightarrow> go_error + 'r PagedResult" where
  "paged label labels fl page pageSize rows =
     (case rf_query fl of
        Some err \<Rightarrow> Inl (label @ err)
      | None \<Rightarrow>
          (case scan_rows labels fl 0 (page_of page pageSize rows) of
             Inl err \<Rightarrow> Inl err
           | Inr results \<Rightarrow>
               (let totalCount = (if results = [] then 0 else int (length rows)) in
                Inr \<lparr>pr_TotalPages = CalculateTotalPages totalCount pageSize, pr_Total = totalCount, pr_Data = results\<rparr>)))"

text \<open>\<open>GROUP BY key\<close>: one row per key, built from the rows that have it.\<close>

definition group_by :: "('a \<Rightarrow> 'k) \<Rightarrow> ('k \<Rightarrow> 'a list \<Rightarrow> 'r) \<Rightarrow> 'a list \<Rightarrow> 'r list" where
  "group_by key f rows = map (\<lambda>k. f k (filter (\<lambda>r. key r = k) rows)) (remdups (map key rows))"

record QueriesBySerieNameResult =
  sr_Query :: string
  sr_AvgDuration :: real
  sr_AvgPeakySamples :: real
  sr_MaxPeakSamples :: int

definition avg0 :: "int list \<Rightarrow> real" where
  "avg0 xs = real_of_int (sum_list xs) / real (length xs)"

definition serie_query_row :: "string \<Rightarrow> Query list \<Rightarrow> QueriesBySerieNameResult" where
  "serie_query_row k qs =
     \<lparr>sr_Query = k, sr_AvgDuration = avg0 (map duration_ms qs),
      sr_AvgPeakySamples = avg0 (map q_PeakSamples qs), sr_MaxPeakSamples = Max (set (map q_PeakSamples qs))\<rparr>"

definition serie_query_key :: "string \<Rightarrow> QueriesBySerieNameResult \<Rightarrow> sql_value" where
  "serie_query_key f r =
     (if f = ''queryParam'' then Text (sr_Query r) else if f = ''avgDuration'' then Num (sr_AvgDuration r)
      else if f = ''avgPeakySamples'' then Num (sr_AvgPeakySamples r)
      else if f = ''maxPeakSamples'' then Num (real_of_int (sr_MaxPeakSamples r)) else Null)"

text \<open>The statement is prepared first, to no effect; that call may fail too (\<open>rf_count\<close>).\<close>

definition GetQueriesBySerieName where
  "GetQueriesBySerieName ct fl srt now t params =
     (let (page, pageSize) = ValidatePagination (sp_Page params) (sp_PageSize params) 10;
          (sortBy, sortOrder) = ValidateSortField (sp_SortBy params) (sp_SortOrder params)
            [''queryParam'', ''avgDuration'', ''avgPeakySamples'', ''maxPeakSamples''] ''avgDuration'';
          tr = SetDefaultTimeRange now (sp_TimeRange params);
          qs = filter (\<lambda>q. first_metric_name q = Some (sp_SerieName params) \<and> in_window ct tr (q_TS q) \<and>
                 (sp_Filter params \<noteq> [] \<longrightarrow> like_filter (sp_Filter params) (q_QueryParam q))) (t_queries t)
      in case rf_count fl of
           Some err \<Rightarrow> Inl (''failed to prepare statement: '' @ err)
         | None \<Rightarrow> paged ''executing query: '' operation_labels fl page pageSize
             (srt (case_order sortOrder (serie_query_key sortBy)) (group_by q_QueryParam serie_query_row qs)))"

record QueryExpression =
  qe_Fingerprint :: string
  qe_Query :: string
  qe_Executions :: int
  qe_AvgDuration :: real
  qe_ErrorRatePercent :: real
  qe_PeakSamples :: int

text \<open>The text shown for a fingerprint is that of its latest execution.\<close>

definition expression_row ::
  "(time \<Rightarrow> string) \<Rightarrow> (real \<Rightarrow> real) \<Rightarrow> ((Query \<Rightarrow> Query \<Rightarrow> bool) \<Rightarrow> Query list \<Rightarrow> Query list) \<Rightarrow> string \<Rightarrow> Query list \<Rightarrow> QueryExpression" where
  "expression_row ct round2 srt fp qs =
     \<lparr>qe_Fingerprint = fp,
      qe_Query = q_QueryParam (hd (srt (key_order ''desc'' (\<lambda>q. Text (ct (q_TS q)))) qs)),
      qe_Executions = int (length qs),
      qe_AvgDuration = round2 (avg0 (map duration_ms qs)),
      qe_ErrorRatePercent = round2 (percent (count_if (\<lambda>q. q_StatusCode q \<ge> 400) qs) (int (length qs))),
      qe_PeakSamples = Max (set (map q_PeakSamples qs))\<rparr>"

definition expression_key :: "string \<Rightarrow> QueryExpression \<Rightarrow> sql_value" where
  "expression_key f r =
     (if f = ''query'' then Text (qe_Query r) else if f = ''executions'' then Num (real_of_int (qe_Executions r))
      else if f = ''avgDuration'' then Num (qe_AvgDuration r)
      else if f = ''errorRatePercent'' then Num (qe_ErrorRatePercent r)
      else if f = ''peakSamples'' then Num (real_of_int (qe_PeakSamples r)) else Null)"

definition expressions_listed where
  "expressions_listed ct round2 srt t params =
     group_by q_Fingerprint (expression_row ct round2 srt)
       (filter (\<lambda>q. in_window ct (xp_TimeRange params) (q_TS q) \<and>
          (xp_Filter params \<noteq> [] \<longrightarrow> like_filter (xp_Filter params) (q_QueryParam q))) (t_queries t))"

definition GetQueryExpressions where
  "GetQueryExpressions ct round2 fl srt srt' t params =
     (let page = (if xp_Page params \<le> 0 then 1 else xp_Page params);
          pageSize = (if xp_PageSize params \<le> 0 then 10 else xp_PageSize params);
          (sortBy, sortOrder) = ValidateSortField (xp_SortBy params)
            (if xp_SortOrder params = [] then ''desc'' else xp_SortOrder params)
            [''query'', ''executions'', ''avgDuration'', ''errorRatePercent'', ''peakSamples''] ''executions''
      in paged ''failed to execute query: '' row_labels fl page pageSize
           (srt' (case_order sortOrder (expression_key sortBy)) (expressions_listed ct round2 srt t params)))"

record QueryExecutionRow =
  er_Timestamp :: time
  er_Status :: int
  er_Duration :: int
  er_Samples :: int
  er_Type :: string
  er_Steps :: real
  er_HTTPHeaders :: "(string, string) go_map"
  er_Start :: time
  er_End :: time

text \<open>
  \<open>julianday(substr(REPLACE(REPLACE(ts, 'T', ' '), 'Z', ''), 1, 19))\<close> reads the second of a
  stored time of a four-digit year; both ends of the window count.
\<close>

definition in_julian_window :: "TimeRange \<Rightarrow> time \<Rightarrow> bool" where
  "in_julian_window tr ts \<longleftrightarrow> tr_From tr div second \<le> ts div second \<and> ts div second \<le> tr_To tr div second"

definition execution_row :: "Query \<Rightarrow> QueryExecutionRow" where
  "execution_row q =
     \<lparr>er_Timestamp = q_TS q, er_Status = q_StatusCode q, er_Duration = duration_ms q,
      er_Samples = q_TotalQueryableSamples q, er_Type = q_Type q, er_Steps = q_Step q,
      er_HTTPHeaders = q_HTTPHeaders q, er_Start = q_Start q, er_End = q_End q\<rparr>"

definition execution_key :: "string \<Rightarrow> QueryExecutionRow \<Rightarrow> sql_value" where
  "execution_key f r =
     (if f = ''ts'' then Num (real_of_int (er_Timestamp r div second)) else if f = ''duration'' then Num (real_of_int (er_Duration r))
      else if f = ''samples'' then Num (real_of_int (er_Samples r)) else if f = ''statusCode'' then Num (real_of_int (er_Status r))
      else if f = ''type'' then Text (er_Type r) else if f = ''steps'' then Num (er_Steps r) else Null)"

definition executions_listed :: "tables \<Rightarrow> QueryExecutionsParams \<Rightarrow> QueryExecutionRow list" where
  "executions_listed t params = map execution_row
     (filter (\<lambda>q. in_julian_window (ep_TimeRange params) (q_TS q) \<and> q_Fingerprint q = ep_Fingerprint params \<and>
        (ep_Type params \<noteq> [] \<longrightarrow> q_Type q = ep_Type params)) (t_queries t))"

definition GetQueryExecutions where
  "GetQueryExecutions fl srt t params =
     (let (page, pageSize) = ValidatePagination (ep_Page params) (ep_PageSize params) 10;
          (sortBy, sortOrder) = ValidateSortField (ep_SortBy params)
            (if ep_SortOrder params = [] then ''desc'' else ep_SortOrder params)
            [''ts'', ''duration'', ''samples'', ''statusCode'', ''type'', ''steps''] ''ts''
      in paged ''failed to query executions: '' row_labels fl page pageSize
           (srt (case_order sortOrder (execution_key sortBy)) (executions_listed t params)))"

section \<open>The listings are paged reports\<close>

lemma CalculateTotalPages_div:
  assumes "0 < s"
  shows "CalculateTotalPages n s = (n + s - 1) div s"
proof -
  have "CalculateTotalPages n s = - ((- n) div s)"
    by (simp add: CalculateTotalPages_def ceiling_divide_eq_div)
  also have "\<dots> = (n + s - 1) div s"
  proof (rule sym, rule int_div_pos_eq)
    show "n + s - 1 = s * (- ((- n) div s)) + (s - 1 - (- n) mod s)"
      using mult_div_mod_eq [of s "- n"] by linarith
  qed (use assms pos_mod_sign [of s "- n"] pos_mod_bound [of s "- n"] in linarith)+
  finally show ?thesis .
qed

lemma page_of_first: "0 < psize \<Longrightarrow> psize < 2 ^ 62 \<Longrightarrow> page_of 1 psize rows = take (nat psize) rows"
  by (simp add: page_of_def limit_offset_def wrap64_def)

lemma paged_report_paged:
  assumes "0 < psize" "\<And>page. 0 < page \<Longrightarrow> fetch page = projr (paged l ls no_read_faults page psize rows)"
  shows "paged_report fetch psize rows"
proof
  show "pr_TotalPages (fetch 1) = (int (length rows) + psize - 1) div psize" if "psize < 2 ^ 62"
    using assms that by (simp add: paged_def Let_def page_of_first CalculateTotalPages_div)
qed (use assms in \<open>simp_all add: paged_def Let_def\<close>)

text \<open>The validated sort of a listing.\<close>

definition expression_order :: "QueryExpressionsParams \<Rightarrow> QueryExpression \<Rightarrow> QueryExpression \<Rightarrow> bool" where
  "expression_order p =
     (case ValidateSortField (xp_SortBy p) (if xp_SortOrder p = [] then ''desc'' else xp_SortOrder p)
             [''query'', ''executions'', ''avgDuration'', ''errorRatePercent'', ''peakSamples''] ''executions'' of
        (sortBy, sortOrder) \<Rightarrow> case_order sortOrder (expression_key sortBy))"

definition execution_order :: "QueryExecutionsParams \<Rightarrow> QueryExecutionRow \<Rightarrow> QueryExecutionRow \<Rightarrow> bool" where
  "execution_order p =
     (case ValidateSortField (ep_SortBy p) (if ep_SortOrder p = [] then ''desc'' else ep_SortOrder p)
             [''ts'', ''duration'', ''samples'', ''statusCode'', ''type'', ''steps''] ''ts'' of
        (sortBy, sortOrder) \<Rightarrow> case_order sortOrder (execution_key sortBy))"

interpretation expression_pages: paged_report
  "\<lambda>page. projr (GetQueryExpressions ct round2 no_read_faults srt srt' t (p\<lparr>xp_Page := page\<rparr>))"
  "if xp_PageSize p \<le> 0 then 10 else xp_PageSize p"
  "srt' (expression_order p) (expressions_listed ct round2 srt t p)" for ct round2 srt srt' t p
  by (rule paged_report_paged)
    (auto simp: GetQueryExpressions_def expression_order_def expressions_listed_def split: prod.split)

interpretation execution_pages: paged_report
  "\<lambda>page. projr (GetQueryExecutions no_read_faults srt t (p\<lparr>ep_Page := page\<rparr>))"
  "snd (ValidatePagination 1 (ep_PageSize p) 10)"
  "srt (execution_order p) (executions_listed t p)" for srt t p
  by (rule paged_report_paged)
    (auto simp: GetQueryExecutions_def execution_order_def executions_listed_def ValidatePagination_def MaxPageSize_def Let_def
      split: prod.split)

text \<open>Beyond the last page the total is lost.\<close>

lemma paged_beyond_last:
  "paged l ls no_read_faults page psize rows = Inr r \<Longrightarrow> pr_Data r = [] \<Longrightarrow> pr_Total r = 0"
  by (auto simp: paged_def Let_def)

lemma sum_group_by:
  "(\<Sum>r \<leftarrow> group_by key f rows. g r) = (\<Sum>k \<in> key ` set rows. g (f k (filter (\<lambda>r. key r = k) rows)))"
  by (simp add: group_by_def comp_def sum_list_distinct_conv_sum_set)

lemma sum_length_partition: "(\<Sum>k \<in> key ` set rows. length (filter (\<lambda>r. key r = k) rows)) = length rows"
proof -
  have "length (filter (\<lambda>r. key r = k) rows) = count (mset (map key rows)) k" for k
    by (induction rows) auto
  then show ?thesis using size_multiset_overloaded_eq [of "mset (map key rows)"] by simp
qed

text \<open>
  The list of query expressions accounts for every execution: over all its pages each
  fingerprint with an execution in the window that matches the filter appears once, its
  execution count is the number of those, and the counts add up to the number of recorded
  queries that match.
\<close>

lemma GetQueryExpressions_counts:
  fixes p :: QueryExpressionsParams and ct :: "time \<Rightarrow> string"
    and srt :: "(Query \<Rightarrow> Query \<Rightarrow> bool) \<Rightarrow> Query list \<Rightarrow> Query list" and round2 :: "real \<Rightarrow> real"
  assumes "sql_sorts srt'" "xp_PageSize p < 2 ^ 62" "length (t_queries t) < 2 ^ 62"
  defines "matching \<equiv> filter (\<lambda>q. in_window ct (xp_TimeRange p) (q_TS q) \<and>
      (xp_Filter p \<noteq> [] \<longrightarrow> like_filter (xp_Filter p) (q_QueryParam q))) (t_queries t)"
  defines "fetch \<equiv> \<lambda>page. projr (GetQueryExpressions ct round2 no_read_faults srt srt' t (p\<lparr>xp_Page := page\<rparr>))"
  defines "rows \<equiv> concat (map (\<lambda>page. pr_Data (fetch page)) [1..pr_TotalPages (fetch 1)])"
  shows "distinct (map qe_Fingerprint rows) \<and> qe_Fingerprint ` set rows = q_Fingerprint ` set matching
       \<and> (\<forall>r \<in> set rows. qe_Executions r = int (length (filter (\<lambda>q. q_Fingerprint q = qe_Fingerprint r) matching)))
       \<and> (\<Sum>r \<leftarrow> rows. qe_Executions r) = int (length matching)"
proof -
  let ?listed = "expressions_listed ct round2 srt t p"
  have listed: "?listed = group_by q_Fingerprint (expression_row ct round2 srt) matching"
    by (simp add: expressions_listed_def matching_def)
  have "length ?listed \<le> length (t_queries t)"
    unfolding listed group_by_def matching_def length_map
    by (rule order_trans [OF length_remdups_leq]) simp
  then have len: "length (srt' (expression_order p) ?listed) < 2 ^ 62"
    using assms(1,3) by (simp add: sql_sorts_length)
  have rows: "rows = srt' (expression_order p) ?listed"
    unfolding rows_def fetch_def by (rule expression_pages.all_pages) (use assms(2) len in auto)
  have m: "mset rows = mset ?listed" using assms(1) by (simp add: rows sql_sorts_def)
  have fps: "map qe_Fingerprint ?listed = remdups (map q_Fingerprint matching)"
    by (simp add: listed group_by_def comp_def expression_row_def)
  have "mset (map qe_Fingerprint rows) = mset (remdups (map q_Fingerprint matching))"
    using m fps by (metis mset_map)
  then have d: "distinct (map qe_Fingerprint rows)" "set (map qe_Fingerprint rows) = set (map q_Fingerprint matching)"
    using mset_eq_imp_distinct_iff mset_eq_setD by (metis distinct_remdups, metis set_remdups)
  have "set rows = set ?listed" using m by (rule mset_eq_setD)
  then have e: "\<forall>r \<in> set rows. qe_Executions r = int (length (filter (\<lambda>q. q_Fingerprint q = qe_Fingerprint r) matching))"
    by (auto simp: listed group_by_def expression_row_def)
  have "sum_mset (image_mset qe_Executions (mset rows)) = sum_mset (image_mset qe_Executions (mset ?listed))"
    by (simp only: m)
  then have "(\<Sum>r \<leftarrow> rows. qe_Executions r) = (\<Sum>r \<leftarrow> ?listed. qe_Executions r)"
    by (simp flip: sum_mset_sum_list)
  also have "\<dots> = int (\<Sum>k \<in> q_Fingerprint ` set matching. length (filter (\<lambda>q. q_Fingerprint q = k) matching))"
    by (simp add: listed sum_group_by expression_row_def)
  finally show ?thesis using d e by (simp add: sum_length_partition)
qed

definition sample_expressions :: QueryExpressionsParams where
  "sample_expressions = \<lparr>xp_Filter = [], xp_TimeRange = \<lparr>tr_From = 0, tr_To = 3 * hour\<rparr>, xp_Page = 1, xp_PageSize = 1,
     xp_SortBy = ''executions'', xp_SortOrder = ''desc''\<rparr>"

definition sample_queries :: tables where
  "sample_queries = empty_tables\<lparr>t_queries := [query_at 0, query_at hour, (query_at (2 * hour))\<lparr>q_Fingerprint := ''f''\<rparr>, query_at (4 * hour)]\<rparr>"

lemma GetQueryExpressions_counts_witness:
  "let fetch = (\<lambda>page. projr (GetQueryExpressions utc_text id no_read_faults insertion_sort insertion_sort sample_queries
         (sample_expressions\<lparr>xp_Page := page\<rparr>)));
       rows = concat (map (\<lambda>page. pr_Data (fetch page)) [1..pr_TotalPages (fetch 1)])
   in qe_Fingerprint ` set rows = {[], ''f''} \<and> (\<Sum>r \<leftarrow> rows. qe_Executions r) = 3"
proof -
  have m: "filter (\<lambda>q. in_window utc_text (xp_TimeRange sample_expressions) (q_TS q) \<and>
      (xp_Filter sample_expressions \<noteq> [] \<longrightarrow> like_filter (xp_Filter sample_expressions) (q_QueryParam q))) (t_queries sample_queries)
    = [query_at 0, query_at hour, (query_at (2 * hour))\<lparr>q_Fingerprint := ''f''\<rparr>]"
    by (simp add: sample_queries_def sample_expressions_def in_window_times driver_text_utc four_digit_years_iff day_def duration_defs)
  have a: "xp_PageSize sample_expressions < 2 ^ 62" "length (t_queries sample_queries) < 2 ^ 62"
    by (simp_all add: sample_expressions_def sample_queries_def)
  show ?thesis
    using GetQueryExpressions_counts [OF insertion_sort_sorts a, of utc_text id insertion_sort, unfolded m]
    by (auto simp: Let_def query_at_def)
qed

end
