(* ===== verification/Sqlite_Charts.thy ===== *)
theory Sqlite_Charts
  imports Sqlite_Reports
begin

text \<open>
  The charts of the SQLite provider (\<open>internal/db/sqlite.go\<close>): a recursive common table
  expression cuts the window into buckets of whole minutes, the recorded queries are joined to
  the bucket that holds their time, and each bucket gives one point. The distribution of range
  queries by the length of the window they ask for is here as well.

  The bounds of a bucket are texts and the join compares them with the stored text of a time.
  \<open>datetime\<close> and \<open>strftime\<close> give \<open>NULL\<close> outside the years of four digits, which ends the recursion.
\<close>

section \<open>Buckets\<close>

text \<open>\<open>strftime('%Y-%m-%d %H:%M:00', t)\<close> is the text of the minute.\<close>

definition minute_floor :: "time \<Rightarrow> time" where
  "minute_floor t = t - t mod minute"

text \<open>Every interval is a minute at least; the test makes the recursion end for any argument.\<close>

function time_buckets :: "duration \<Rightarrow> time \<Rightarrow> time \<Rightarrow> (time \<times> time) list" where
  "time_buckets l to start =
     (start, minute_floor (start + l)) #
     (if minute \<le> l \<and> four_digit_years start \<and> four_digit_years to \<and> format_SQLite start < format_SQLite to
      then time_buckets l to (minute_floor (start + l)) else [])"
  by pat_completeness auto
termination
proof (relation "measure (\<lambda>(l, to, start). nat (to - start))")
  fix l to start :: int
  assume "minute \<le> l \<and> four_digit_years start \<and> four_digit_years to \<and> format_SQLite start < format_SQLite to"
  then have "minute \<le> l" "start div second < to div second" using format_SQLite_less [of start to] by simp_all
  moreover have "start < minute_floor (start + l)"
    using \<open>minute \<le> l\<close> pos_mod_bound [of minute "start + l"] by (simp add: minute_floor_def duration_defs)
  moreover have "start < to" using \<open>start div second < to div second\<close> zdiv_mono1 [of to start second] by (force simp: duration_defs)
  ultimately show "((l, to, minute_floor (start + l)), (l, to, start)) \<in> measure (\<lambda>(l, to, start). nat (to - start))"
    by simp
qed simp

declare time_buckets.simps [simp del]

definition bucket_length :: "TimeRange \<Rightarrow> duration" where
  "bucket_length tr = the (interval_length (GetInterval (tr_From tr) (tr_To tr) ''sqlite''))"

definition buckets :: "TimeRange \<Rightarrow> (time \<times> time) list" where
  "buckets tr = time_buckets (bucket_length tr) (minute_floor (tr_To tr)) (minute_floor (tr_From tr))"

definition in_bucket :: "(time \<Rightarrow> string) \<Rightarrow> time \<times> time \<Rightarrow> time \<Rightarrow> bool" where
  "in_bucket ct = (\<lambda>(start, stop) ts. format_SQLite start \<le> ct ts \<and> ct ts < format_SQLite stop)"

text \<open>One point per bucket, in the order of the buckets: its start and a value of the rows joined to it.\<close>

definition chart ::
  "(time \<Rightarrow> string) \<Rightarrow> read_faults \<Rightarrow> TimeRange \<Rightarrow> (string \<Rightarrow> 'q list \<Rightarrow> 'p) \<Rightarrow> ('q \<Rightarrow> time) \<Rightarrow> 'q list \<Rightarrow> go_error + 'p list" where
  "chart ct fl tr point ts rows =
     (case rf_query fl of
        Some err \<Rightarrow> Inl (''executing query: '' @ err)
      | None \<Rightarrow> scan_rows operation_labels fl 0
          (map (\<lambda>b. point (format_SQLite (fst b)) (filter (\<lambda>q. in_bucket ct b (ts q)) rows)) (buckets tr)))"

section \<open>The charts\<close>

record QueryStatusDistributionResult =
  sd_Time :: string
  sd_Status2xx :: int
  sd_Status4xx :: int
  sd_Status5xx :: int

definition status_point :: "string \<Rightarrow> Query list \<Rightarrow> QueryStatusDistributionResult" where
  "status_point time qs =
     \<lparr>sd_Time = time,
      sd_Status2xx = count_if (\<lambda>q. q_StatusCode q \<ge> 200 \<and> q_StatusCode q < 300) qs,
      sd_Status4xx = count_if (\<lambda>q. q_StatusCode q \<ge> 400 \<and> q_StatusCode q < 500) qs,
      sd_Status5xx = count_if (\<lambda>q. q_StatusCode q \<ge> 500 \<and> q_StatusCode q < 600) qs\<rparr>"

definition GetQueryStatusDistribution where
  "GetQueryStatusDistribution ct fl now t tr0 fingerprint =
     (let tr = SetDefaultTimeRange now tr0
      in chart ct fl tr status_point q_TS
           (filter (\<lambda>q. in_julian_window tr (q_TS q) \<and> fingerprint_matches fingerprint q) (t_queries t)))"

record ValueResult =
  vr_Time :: string
  vr_Value :: real

definition GetQueryThroughputAnalysis where
  "GetQueryThroughputAnalysis ct fl now t tr0 =
     chart ct fl (SetDefaultTimeRange now tr0) (\<lambda>time qs. \<lparr>vr_Time = time, vr_Value = real (length qs)\<rparr>) q_TS (t_queries t)"

definition GetQueryErrorAnalysis where
  "GetQueryErrorAnalysis ct fl now t tr0 fingerprint =
     chart ct fl (SetDefaultTimeRange now tr0)
       (\<lambda>time qs. \<lparr>vr_Time = time, vr_Value = real_of_int (count_if (\<lambda>q. q_StatusCode q \<ge> 400) qs)\<rparr>) q_TS
       (filter (fingerprint_matches fingerprint) (t_queries t))"

text \<open>
  \<open>ROW_NUMBER() OVER (PARTITION BY part ORDER BY duration)\<close> and \<open>COUNT( * ) OVER (PARTITION BY part)\<close>:
  each row with its number and the size of its partition. The partition is the minute that
  \<open>strftime\<close> reads from the stored text, or \<open>NULL\<close> if it cannot: the argument \<open>stored_minute\<close>.
\<close>

definition numbered :: "((Query \<Rightarrow> Query \<Rightarrow> bool) \<Rightarrow> Query list \<Rightarrow> Query list) \<Rightarrow> (Query \<Rightarrow> 'k) \<Rightarrow> Query list \<Rightarrow> (Query \<times> nat \<times> nat) list" where
  "numbered srt part rows = concat (map (\<lambda>k.
     let rs = srt (key_order ''asc'' (\<lambda>q. Num (real_of_int (duration_ms q)))) (filter (\<lambda>q. part q = k) rows)
     in zip rs (map (\<lambda>i. (Suc i, length rs)) [0..<length rs])) (remdups (map part rows)))"

record QueryLatencyTrendsResult =
  lt_Value :: real
  lt_P95 :: int
  lt_Time :: string

text \<open>\<open>CAST(total_rows * 0.95 AS INTEGER)\<close> on whole numbers.\<close>

definition latency_point :: "(real \<Rightarrow> real) \<Rightarrow> string \<Rightarrow> (Query \<times> nat \<times> nat) list \<Rightarrow> QueryLatencyTrendsResult" where
  "latency_point round2 time rows =
     \<lparr>lt_Value = (if rows = [] then 0 else round2 (avg0 (map (duration_ms \<circ> fst) rows))),
      lt_P95 = (if rows = [] then 0
                else Max (set (map (\<lambda>(q, row_num, total_rows). if row_num > total_rows * 95 div 100 then duration_ms q else 0) rows))),
      lt_Time = time\<rparr>"

definition GetQueryLatencyTrends where
  "GetQueryLatencyTrends ct stored_minute round2 srt fl now t tr0 metricName fingerprint =
     chart ct fl (SetDefaultTimeRange now tr0) (latency_point round2) (q_TS \<circ> fst)
       (numbered srt (stored_minute \<circ> q_TS)
          (filter (\<lambda>q. metric_matches metricName q \<and> fingerprint_matches fingerprint q) (t_queries t)))"

section \<open>The distribution of range queries\<close>

record QueryTimeRangeDistributionResult =
  rd_Label :: string
  rd_Count :: int
  rd_Percent :: real

text \<open>
  The length of the window of a range query in seconds. The statement computes it in fractions
  of days, exact for whole days, so the limits of the classes are met exactly.
\<close>

definition range_seconds :: "Query \<Rightarrow> int" where
  "range_seconds q = q_End q div second - q_Start q div second"

definition range_classes :: "(string \<times> (int \<Rightarrow> bool)) list" where
  "range_classes =
     [(''<24h'', \<lambda>s. s < 86400), (''24h'', \<lambda>s. s \<ge> 86400 \<and> s < 7 * 86400), (''7d'', \<lambda>s. s \<ge> 7 * 86400 \<and> s < 30 * 86400),
      (''30d'', \<lambda>s. s \<ge> 30 * 86400 \<and> s < 60 * 86400), (''60d'', \<lambda>s. s \<ge> 60 * 86400 \<and> s < 90 * 86400), (''90d+'', \<lambda>s. s \<ge> 90 * 86400)]"

definition range_queries :: "tables \<Rightarrow> TimeRange \<Rightarrow> string \<Rightarrow> Query list" where
  "range_queries t tr fingerprint = filter (\<lambda>q. in_julian_window tr (q_TS q) \<and> fingerprint_matches fingerprint q
     \<and> q_Type q = QueryTypeRange \<and> q_End q div second \<ge> q_Start q div second) (t_queries t)"

definition range_row :: "(real \<Rightarrow> real) \<Rightarrow> int list \<Rightarrow> string \<times> (int \<Rightarrow> bool) \<Rightarrow> QueryTimeRangeDistributionResult" where
  "range_row round2 filtered c =
     (let cnt = count_if (snd c) filtered; n = int (length filtered)
      in \<lparr>rd_Label = fst c, rd_Count = cnt, rd_Percent = (if n > 0 then round2 (percent cnt n) else 0)\<rparr>)"

definition GetQueryTimeRangeDistribution where
  "GetQueryTimeRangeDistribution round2 fl now t tr0 fingerprint =
     (case rf_query fl of
        Some err \<Rightarrow> Inl (''executing query: '' @ err)
      | None \<Rightarrow> scan_rows operation_labels fl 0
          (map (range_row round2 (map range_seconds (range_queries t (SetDefaultTimeRange now tr0) fingerprint))) range_classes))"

section \<open>Buckets partition the window\<close>

lemma four_digit_years_between: "four_digit_years a \<Longrightarrow> four_digit_years c \<Longrightarrow> a \<le> b \<Longrightarrow> b \<le> c \<Longrightarrow> four_digit_years b"
  by (simp add: four_digit_years_iff)

lemma minute_floor_le: "minute_floor t \<le> t" "t < minute_floor t + minute"
  using pos_mod_sign [of minute t] pos_mod_bound [of minute t] by (simp_all add: minute_floor_def duration_defs)

lemma minute_floor_dvd [simp]: "minute dvd minute_floor t"
  by (simp add: minute_floor_def dvd_minus_mod)

lemma minute_floor_id: "minute dvd t \<Longrightarrow> minute_floor t = t"
  by (simp add: minute_floor_def)

lemma minute_floor_four_digit: "four_digit_years t \<Longrightarrow> four_digit_years (minute_floor t)"
proof -
  assume t: "four_digit_years t"
  have "minute dvd - 719528 * day" by (simp add: day_def duration_defs)
  then obtain k where k: "- 719528 * day = minute * k" by (rule dvdE)
  with t have "minute * k \<le> t" by (simp add: four_digit_years_iff)
  then have "k \<le> t div minute" using zdiv_mono1 [of "minute * k" t minute] by (simp add: duration_defs)
  then have "minute * k \<le> minute_floor t"
    by (simp add: minute_floor_def minus_mod_eq_mult_div mult_le_cancel_left duration_defs)
  with t k minute_floor_le(1) [of t] show ?thesis by (simp add: four_digit_years_iff)
qed

lemma second_aligned: "minute dvd b \<Longrightarrow> b = (b div second) * second"
proof -
  assume "minute dvd b"
  then have "second dvd b" by (rule dvd_trans [rotated]) (simp add: minute_def)
  then show ?thesis by simp
qed

lemma in_bucket_times:
  assumes "driver_text ct" "four_digit_years ts" "four_digit_years b" "four_digit_years e" "minute dvd b" "minute dvd e"
  shows "in_bucket ct (b, e) ts \<longleftrightarrow> b \<le> ts \<and> ts < e"
proof -
  obtain rest where "rest \<noteq> []" "ct ts = format_SQLite ts @ rest" using driver_textD [OF assms(1)] by blast
  then have "in_bucket ct (b, e) ts \<longleftrightarrow> b div second \<le> ts div second \<and> ts div second < e div second"
    using assms(2-4) by (simp add: in_bucket_def second_text_le less_second_text format_SQLite_less format_SQLite_le)
  moreover have "b div second \<le> ts div second \<longleftrightarrow> b \<le> ts"
    using second_aligned [OF assms(5)] pos_mod_bound [of second ts] pos_mod_sign [of second ts] mult_div_mod_eq [of second ts]
    by (auto simp: duration_defs)
  moreover have "ts div second < e div second \<longleftrightarrow> ts < e"
    using second_aligned [OF assms(6)] pos_mod_bound [of second ts] pos_mod_sign [of second ts] mult_div_mod_eq [of second ts]
    by (auto simp: duration_defs)
  ultimately show ?thesis by simp
qed

lemma bucket_length_values: "bucket_length tr \<in> {minute, 5 * minute, 15 * minute, hour, 6 * hour, 24 * hour}"
  by (simp add: bucket_length_def GetInterval_def interval_length_def Let_def)

lemma bucket_length_minutes: "minute \<le> bucket_length tr" "minute dvd bucket_length tr" "bucket_length tr \<le> day"
  using bucket_length_values [of tr] by (auto simp: day_def duration_defs)

text \<open>The buckets are consecutive; the last is the first one that starts at or after the end.\<close>

lemma time_buckets_consecutive:
  assumes "minute \<le> l" "minute dvd l" "minute dvd start" "minute dvd to"
    "four_digit_years start" "four_digit_years (to + l)"
  shows "\<exists>n. time_buckets l to start = map (\<lambda>i. (start + int i * l, start + (int i + 1) * l)) [0..<Suc n]
     \<and> to \<le> start + int n * l \<and> (n = 0 \<or> start + (int n - 1) * l < to)"
  using assms
proof (induction l to start rule: time_buckets.induct)
  case (1 l to start)
  have next_start: "minute_floor (start + l) = start + l" using 1(3,4) by (intro minute_floor_id) simp
  show ?case
  proof (cases "start < to")
    case True
    have l: "0 < l" using 1(2) by (simp add: duration_defs)
    have to: "four_digit_years to" using four_digit_years_between [OF 1(6,7)] True l by auto
    have "(start div second) * second < (to div second) * second"
      using True by (simp only: second_aligned [OF 1(4), symmetric] second_aligned [OF 1(5), symmetric])
    then have "start div second < to div second" by (simp add: mult_less_cancel_right duration_defs)
    then have lt: "format_SQLite start < format_SQLite to" using format_SQLite_less [OF 1(6) to] by simp
    have next4: "four_digit_years (start + l)" by (rule four_digit_years_between [OF 1(6,7)]) (use True l in auto)
    have guard: "minute \<le> l \<and> four_digit_years start \<and> four_digit_years to \<and> format_SQLite start < format_SQLite to"
      using 1(2,6) to lt by blast
    from 1(1) [OF guard] 1(2-7) next4 obtain n where n:
      "time_buckets l to (start + l) = map (\<lambda>i. (start + l + int i * l, start + l + (int i + 1) * l)) [0..<Suc n]"
      "to \<le> start + l + int n * l" "n = 0 \<or> start + l + (int n - 1) * l < to"
      unfolding next_start by fastforce
    have "time_buckets l to start = (start, start + l) # map (\<lambda>i. (start + l + int i * l, start + l + (int i + 1) * l)) [0..<Suc n]"
      using guard by (subst time_buckets.simps) (simp add: next_start n(1) del: upt_Suc)
    also have "\<dots> = map (\<lambda>i. (start + int i * l, start + (int i + 1) * l)) [0..<Suc (Suc n)]"
      by (subst (2) upt_conv_Cons, simp) (simp add: map_Suc_upt [symmetric] comp_def algebra_simps del: map_Suc_upt upt_Suc)
    finally show ?thesis using n(2,3) True by (intro exI [of _ "Suc n"]) (auto simp: algebra_simps)
  next
    case False
    then have "\<not> format_SQLite start < format_SQLite to" if "four_digit_years to"
      using format_SQLite_less [OF 1(6) that] zdiv_mono1 [of to start second] by (simp add: duration_defs)
    then have "time_buckets l to start = [(start, start + l)]" by (subst time_buckets.simps) (auto simp: next_start)
    with False show ?thesis by (intro exI [of _ 0]) simp
  qed
qed

lemma count_consecutive:
  fixes f :: "'q \<Rightarrow> int"
  assumes "0 \<le> l"
  shows "(\<Sum>i \<leftarrow> [0..<n]. length (filter (\<lambda>q. start + int i * l \<le> f q \<and> f q < start + (int i + 1) * l) qs))
    = length (filter (\<lambda>q. start \<le> f q \<and> f q < start + int n * l) qs)"
proof (induction n)
  case (Suc n)
  have mono: "int n * l \<le> (int n + 1) * l" "0 \<le> int n * l" using assms by (simp_all add: mult_right_mono)
  have "length (filter (\<lambda>q. start \<le> f q \<and> f q < start + int n * l) qs)
      + length (filter (\<lambda>q. start + int n * l \<le> f q \<and> f q < start + (int n + 1) * l) qs)
      = length (filter (\<lambda>q. start \<le> f q \<and> f q < start + (int n + 1) * l) qs)"
    using mono by (induction qs) auto
  with Suc show ?case by (simp add: add.commute)
qed simp

text \<open>The number of buckets and the end of the last one.\<close>

lemma buckets_shape:
  assumes "tr_From tr \<le> tr_To tr" "four_digit_years (tr_From tr)" "four_digit_years (tr_To tr + 2 * day)"
  defines "start \<equiv> minute_floor (tr_From tr)" and "l \<equiv> bucket_length tr"
  obtains n where "buckets tr = map (\<lambda>i. (start + int i * l, start + (int i + 1) * l)) [0..<Suc n]"
    "tr_To tr < start + (int n + 1) * l" "start + (int n + 1) * l \<le> tr_To tr + 2 * l"
    "(int n - 1) * l \<le> tr_To tr - tr_From tr + minute"
proof -
  let ?T = "minute_floor (tr_To tr)"
  have l: "minute \<le> l" "minute dvd l" "l \<le> day" "0 < l" using bucket_length_minutes [of tr] by (auto simp: l_def duration_defs)
  note f = minute_floor_le [of "tr_From tr", folded start_def] minute_floor_le [of "tr_To tr"]
  have start4: "four_digit_years start" using assms(2) by (simp add: start_def minute_floor_four_digit)
  have "four_digit_years (?T + l)"
    by (rule four_digit_years_between [OF assms(2,3)]) (use f assms(1) l in \<open>auto simp: duration_defs\<close>)
  then obtain n where n: "buckets tr = map (\<lambda>i. (start + int i * l, start + (int i + 1) * l)) [0..<Suc n]"
      "?T \<le> start + int n * l" "n = 0 \<or> start + (int n - 1) * l < ?T"
    using time_buckets_consecutive [OF l(1,2), of start ?T] start4 by (auto simp: buckets_def start_def l_def)
  show ?thesis
  proof (rule that [OF n(1)])
    have "(int n + 1) * l = int n * l + l" "(int n - 1) * l = int n * l - l" by (simp_all add: algebra_simps)
    with n(2,3) f l assms(1) show "tr_To tr < start + (int n + 1) * l" "start + (int n + 1) * l \<le> tr_To tr + 2 * l"
      "(int n - 1) * l \<le> tr_To tr - tr_From tr + minute"
      by (auto simp: duration_defs)
  qed
qed

lemma sum_list_real: "(\<Sum>x \<leftarrow> xs. real (f x)) = real (\<Sum>x \<leftarrow> xs. f x)"
  by (induction xs) simp_all

lemma chart_healthy:
  "chart ct no_read_faults tr point ts rows =
     Inr (map (\<lambda>b. point (format_SQLite (fst b)) (filter (\<lambda>q. in_bucket ct b (ts q)) rows)) (buckets tr))"
  by (simp add: chart_def)

lemma chart_total:
  assumes "driver_text ct" "\<forall>q \<in> set rows. four_digit_years (ts q)"
    "buckets tr = map (\<lambda>i. (start + int i * l, start + (int i + 1) * l)) [0..<n]"
    "minute dvd start" "minute dvd l" "0 \<le> l" "four_digit_years start" "four_digit_years (start + int n * l)"
  shows "(\<Sum>b \<leftarrow> buckets tr. length (filter P (filter (\<lambda>q. in_bucket ct b (ts q)) rows)))
       = length (filter (\<lambda>q. start \<le> ts q \<and> ts q < start + int n * l) (filter P rows))"
proof -
  have "filter P (filter (\<lambda>q. in_bucket ct (start + int i * l, start + (int i + 1) * l) (ts q)) rows)
      = filter (\<lambda>q. start + int i * l \<le> ts q \<and> ts q < start + (int i + 1) * l) (filter P rows)" if "i < n" for i
  proof -
    have i: "0 \<le> int i * l" "int i * l \<le> (int i + 1) * l" "(int i + 1) * l \<le> int n * l"
      using that assms(6) by (simp_all add: mult_right_mono)
    have b: "four_digit_years (start + int i * l)" "four_digit_years (start + (int i + 1) * l)"
      by (rule four_digit_years_between [OF assms(7,8)]; use i in linarith)+
    have "in_bucket ct (start + int i * l, start + (int i + 1) * l) (ts q) \<longleftrightarrow> start + int i * l \<le> ts q \<and> ts q < start + (int i + 1) * l"
      if "q \<in> set rows" for q
      using that assms(2,4,5) b by (intro in_bucket_times [OF assms(1)]) auto
    then show ?thesis by (simp add: filter_filter conj_commute cong: filter_cong conj_cong)
  qed
  then have "(\<Sum>b \<leftarrow> buckets tr. length (filter P (filter (\<lambda>q. in_bucket ct b (ts q)) rows)))
      = (\<Sum>i \<leftarrow> [0..<n]. length (filter (\<lambda>q. start + int i * l \<le> ts q \<and> ts q < start + (int i + 1) * l) (filter P rows)))"
    unfolding assms(3) map_map comp_def by (intro arg_cong [where f = sum_list] map_cong) simp_all
  then show ?thesis by (simp only: count_consecutive [OF assms(6)])
qed

text \<open>
  C30. A chart loses no query and counts none twice: for any window in the years of four digits
  the points of the throughput chart add up to the number of recorded queries between the
  minute of the start and a moment after the end, at most two buckets later; those of the
  error chart to the number of failed ones of the fingerprint in the same span. Each point is
  labelled with the start of its bucket, one bucket after the previous, and a window of up to
  168 days has at most 171 points.
\<close>

theorem charts_count_every_query_once:
  assumes "driver_text ct" "\<forall>q \<in> set (t_queries t). four_digit_years (q_TS q)"
    "tr_From tr \<le> tr_To tr" "four_digit_years (tr_From tr)" "four_digit_years (tr_To tr + 2 * day)"
    "SetDefaultTimeRange now tr0 = tr"
  shows "\<exists>stop points errors. tr_To tr < stop \<and> stop \<le> tr_To tr + 2 * bucket_length tr
       \<and> GetQueryThroughputAnalysis ct no_read_faults now t tr0 = Inr points
       \<and> GetQueryErrorAnalysis ct no_read_faults now t tr0 fp = Inr errors
       \<and> (\<Sum>p \<leftarrow> points. vr_Value p) = real (length (filter (\<lambda>q. minute_floor (tr_From tr) \<le> q_TS q \<and> q_TS q < stop) (t_queries t)))
       \<and> (\<Sum>p \<leftarrow> errors. vr_Value p) = real (length (filter (\<lambda>q. minute_floor (tr_From tr) \<le> q_TS q \<and> q_TS q < stop)
            (filter (\<lambda>q. fingerprint_matches fp q \<and> q_StatusCode q \<ge> 400) (t_queries t))))
       \<and> map vr_Time points = map (\<lambda>i. format_SQLite (minute_floor (tr_From tr) + int i * bucket_length tr)) [0..<length points]
       \<and> (tr_To tr - tr_From tr \<le> 168 * 24 * hour \<longrightarrow> length points \<le> 171)"
proof -
  let ?s = "minute_floor (tr_From tr)" and ?l = "bucket_length tr"
  obtain n where n: "buckets tr = map (\<lambda>i. (?s + int i * ?l, ?s + (int i + 1) * ?l)) [0..<Suc n]"
    "tr_To tr < ?s + (int n + 1) * ?l" "?s + (int n + 1) * ?l \<le> tr_To tr + 2 * ?l"
    "(int n - 1) * ?l \<le> tr_To tr - tr_From tr + minute"
    by (rule buckets_shape [OF assms(3-5)])
  let ?stop = "?s + int (Suc n) * ?l"
  have l: "0 \<le> ?l" "minute \<le> ?l" "minute dvd ?l" "?l \<le> day" using bucket_length_minutes [of tr] by (auto simp: duration_defs)
  have s4: "four_digit_years ?s" using assms(4) by (rule minute_floor_four_digit)
  have stop4: "four_digit_years ?stop"
    by (rule four_digit_years_between [OF assms(4,5)]) (use n(2,3) assms(3) l in \<open>auto simp: algebra_simps\<close>)
  note total = chart_total [OF assms(1) _ n(1) minute_floor_dvd l(3,1) s4 stop4, where ts = q_TS]
  define points where "points = map (\<lambda>b. \<lparr>vr_Time = format_SQLite (fst b),
      vr_Value = real (length (filter (\<lambda>q. in_bucket ct b (q_TS q)) (t_queries t)))\<rparr>) (buckets tr)"
  define errors where "errors = map (\<lambda>b. \<lparr>vr_Time = format_SQLite (fst b), vr_Value = real_of_int (count_if (\<lambda>q. q_StatusCode q \<ge> 400)
      (filter (\<lambda>q. in_bucket ct b (q_TS q)) (filter (fingerprint_matches fp) (t_queries t))))\<rparr>) (buckets tr)"
  have 1: "GetQueryThroughputAnalysis ct no_read_faults now t tr0 = Inr points"
    by (simp add: GetQueryThroughputAnalysis_def assms(6) chart_healthy points_def)
  have 2: "GetQueryErrorAnalysis ct no_read_faults now t tr0 fp = Inr errors"
    by (simp add: GetQueryErrorAnalysis_def assms(6) chart_healthy errors_def)
  have 3: "(\<Sum>p \<leftarrow> points. vr_Value p) = real (length (filter (\<lambda>q. ?s \<le> q_TS q \<and> q_TS q < ?stop) (t_queries t)))"
    using total [of "t_queries t" "\<lambda>_. True"] assms(2) by (simp add: points_def comp_def sum_list_real)
  have 4: "(\<Sum>p \<leftarrow> errors. vr_Value p) = real (length (filter (\<lambda>q. ?s \<le> q_TS q \<and> q_TS q < ?stop)
      (filter (\<lambda>q. fingerprint_matches fp q \<and> q_StatusCode q \<ge> 400) (t_queries t))))"
    using total [of "filter (fingerprint_matches fp) (t_queries t)" "\<lambda>q. q_StatusCode q \<ge> 400"] assms(2)
    by (simp add: errors_def comp_def count_if_def sum_list_real)
  have 5: "map vr_Time points = map (\<lambda>i. format_SQLite (?s + int i * ?l)) [0..<length points]"
    by (simp add: points_def n(1) comp_def del: upt_Suc)
  have 6: "length points \<le> 171" if w: "tr_To tr - tr_From tr \<le> 168 * 24 * hour"
  proof -
    have "tr_To tr - tr_From tr \<le> 168 * ?l"
      using GetInterval_buckets [of "tr_To tr" "tr_From tr"] assms(3) w by (auto simp: bucket_length_def)
    then have "(int n - 1) * ?l \<le> 169 * ?l" using n(4) l(2) by linarith
    then have "int n - 1 \<le> 169" using l(2) by (simp add: mult_le_cancel_right duration_defs)
    then show ?thesis by (simp add: points_def n(1) del: upt_Suc)
  qed
  show ?thesis
    by (rule exI [of _ ?stop], rule exI [of _ points], rule exI [of _ errors])
      (use 1 2 3 4 5 6 n(2,3) in \<open>auto simp: algebra_simps\<close>)
qed

theorem charts_count_every_query_once_witness:
  "\<exists>stop points. hour < stop \<and> stop \<le> hour + 2 * minute
     \<and> GetQueryThroughputAnalysis utc_text no_read_faults 0 sample_queries \<lparr>tr_From = 0, tr_To = hour\<rparr> = Inr points
     \<and> (\<Sum>p \<leftarrow> points. vr_Value p) = 2"
proof -
  let ?tr = "\<lparr>tr_From = 0, tr_To = hour\<rparr>"
  have tr: "SetDefaultTimeRange 0 ?tr = ?tr"
    by (simp add: SetDefaultTimeRange_def zero_time_def duration_defs)
  have l: "bucket_length ?tr = minute"
    by (simp add: bucket_length_def GetInterval_def interval_length_def time_sub_exact maxDuration_def duration_defs)
  have q: "\<forall>q \<in> set (t_queries sample_queries). four_digit_years (q_TS q)"
    and w: "tr_From ?tr \<le> tr_To ?tr" "four_digit_years (tr_From ?tr)" "four_digit_years (tr_To ?tr + 2 * day)"
    by (simp_all add: sample_queries_def four_digit_years_iff day_def duration_defs)
  obtain stop points where r: "hour < stop" "stop \<le> hour + 2 * minute"
    "GetQueryThroughputAnalysis utc_text no_read_faults 0 sample_queries ?tr = Inr points"
    "(\<Sum>p \<leftarrow> points. vr_Value p) = real (length (filter (\<lambda>q. minute_floor 0 \<le> q_TS q \<and> q_TS q < stop) (t_queries sample_queries)))"
    using charts_count_every_query_once [OF driver_text_utc q w tr, of "[]"] by (auto simp: l)
  have "filter (\<lambda>q. minute_floor 0 \<le> q_TS q \<and> q_TS q < stop) (t_queries sample_queries) = [query_at 0, query_at hour]"
    using r(1,2) by (simp add: sample_queries_def minute_floor_def duration_defs)
  with r show ?thesis by auto
qed

section \<open>The latency chart\<close>

text \<open>
  Every partition has its longest duration in the last row, whose number exceeds 95 percent of
  the size, so where the partition is the minute the value called \<open>p95\<close> is the maximum.
\<close>

lemma Max_map_le: "xs \<noteq> [] \<Longrightarrow> (\<And>x. x \<in> set xs \<Longrightarrow> f x \<le> m) \<Longrightarrow> Max (set (map f xs)) \<le> m" for m :: int
  by (intro Max.boundedI) auto

lemma sorted_wrt_last:
  assumes "total_preorder le" "sorted_wrt le xs" "x \<in> set xs"
  shows "le x (last xs)"
proof -
  have "le x x" using assms(1) by (auto simp: total_preorder_def)
  with assms(2,3) show ?thesis by (cases xs rule: rev_cases) (auto simp: sorted_wrt_append)
qed

lemma numbered_last:
  assumes "sql_sorts srt" "q \<in> set rows"
  shows "\<exists>(q', i, n) \<in> set (numbered srt part rows). part q' = part q \<and> q' \<in> set rows
    \<and> duration_ms q \<le> duration_ms q' \<and> i = n \<and> 0 < n"
proof -
  let ?le = "key_order ''asc'' (\<lambda>q. Num (real_of_int (duration_ms q)))"
  let ?rs = "srt ?le (filter (\<lambda>r. part r = part q) rows)"
  have set: "set ?rs = {r \<in> set rows. part r = part q}" using sql_sorts_set [OF assms(1)] by simp
  have sorted: "sorted_wrt ?le ?rs" using assms(1) key_order_preorder by (auto simp: sql_sorts_def)
  have ne: "?rs \<noteq> []" using set assms(2) by auto
  have "q \<in> set ?rs" unfolding set using assms(2) by simp
  then have "?le q (last ?rs)" by (rule sorted_wrt_last [OF key_order_preorder sorted])
  then have "duration_ms q \<le> duration_ms (last ?rs)" by (simp add: key_order_def)
  moreover have "(last ?rs, length ?rs, length ?rs) \<in> set (zip ?rs (map (\<lambda>i. (Suc i, length ?rs)) [0..<length ?rs]))"
    unfolding in_set_zip by (rule exI [of _ "length ?rs - 1"]) (use ne in \<open>simp add: last_conv_nth\<close>)
  then have "(last ?rs, length ?rs, length ?rs) \<in> set (numbered srt part rows)"
    using assms(2) by (auto simp: numbered_def Let_def)
  moreover have "last ?rs \<in> set rows" "part (last ?rs) = part q" using last_in_set [OF ne] set by auto
  ultimately show ?thesis using ne by (intro bexI [of _ "(last ?rs, length ?rs, length ?rs)"]) auto
qed

lemma numbered_rows: "sql_sorts srt \<Longrightarrow> (q, i, n) \<in> set (numbered srt part rows) \<Longrightarrow> q \<in> set rows"
  by (auto simp: numbered_def Let_def sql_sorts_set dest!: set_zip_leftD)

text \<open>
  What the latency chart calls \<open>p95\<close> is the maximum wherever a bucket is made of whole partitions:
  the longest duration of the queries in it (durations are not negative).
\<close>

lemma latency_p95_is_maximum:
  assumes "sql_sorts srt" "\<forall>q \<in> set rows. 0 \<le> duration_ms q"
    "\<And>q q'. q \<in> set rows \<Longrightarrow> q' \<in> set rows \<Longrightarrow> part q = part q' \<Longrightarrow> inside q \<Longrightarrow> inside q'"
  shows "lt_P95 (latency_point round2 time (filter (\<lambda>r. inside (fst r)) (numbered srt part rows)))
    = (if filter inside rows = [] then 0 else Max (set (map duration_ms (filter inside rows))))"
proof -
  let ?rs = "filter (\<lambda>r. inside (fst r)) (numbered srt part rows)" and ?qs = "filter inside rows"
  let ?v = "\<lambda>(q, row_num, total_rows). if row_num > total_rows * 95 div 100 then duration_ms q else 0"
  have sub: "q \<in> set ?qs" if "(q, i, n) \<in> set ?rs" for q i n
    using that numbered_rows [OF assms(1)] by auto
  have top: "\<exists>r \<in> set ?rs. duration_ms q \<le> ?v r" if q: "q \<in> set ?qs" for q
  proof -
    from q obtain q' i n where r: "(q', i, n) \<in> set (numbered srt part rows)" "part q' = part q" "q' \<in> set rows"
      "duration_ms q \<le> duration_ms q'" "i = n" "0 < n"
      using numbered_last [OF assms(1), of q rows part] by auto
    then have "inside q'" using q assms(3) [of q q'] by auto
    with r show ?thesis by (intro bexI [of _ "(q', i, n)"]) auto
  qed
  show ?thesis
  proof (cases "?qs = []")
    case True
    have "?rs = []"
    proof (rule ccontr)
      assume "?rs \<noteq> []"
      then obtain q i n where "(q, i, n) \<in> set ?rs" by (metis prod_cases3 list.set_intros(1) neq_Nil_conv)
      with sub have "q \<in> set ?qs" by blast
      with True show False by simp
    qed
    with True show ?thesis by (simp add: latency_point_def)
  next
    case False
    then have ne: "?rs \<noteq> []" using top by (metis bexE list.set_intros(1) list.exhaust empty_iff list.set(1))
    have "Max (set (map ?v ?rs)) = Max (set (map duration_ms ?qs))"
    proof (rule antisym)
      have "?v r \<le> Max (set (map duration_ms ?qs))" if "r \<in> set ?rs" for r
      proof -
        obtain q i n where r: "r = (q, i, n)" by (cases r)
        with that sub have "q \<in> set ?qs" by blast
        moreover from this have "?v r \<le> duration_ms q" using assms(2) by (auto simp: r)
        ultimately show ?thesis by (metis (no_types, lifting) List.finite_set Max_ge image_eqI list.set_map order_trans)
      qed
      then show "Max (set (map ?v ?rs)) \<le> Max (set (map duration_ms ?qs))" by (rule Max_map_le [OF ne])
      have "duration_ms q \<le> Max (set (map ?v ?rs))" if q: "q \<in> set ?qs" for q
      proof -
        from top [OF q] obtain r where "r \<in> set ?rs" "duration_ms q \<le> ?v r" by blast
        then show ?thesis by (metis (no_types, lifting) List.finite_set Max_ge image_eqI list.set_map order_trans)
      qed
      then show "Max (set (map duration_ms ?qs)) \<le> Max (set (map ?v ?rs))" by (rule Max_map_le [OF False])
    qed
    then show ?thesis using ne False by (simp add: latency_point_def)
  qed
qed

section \<open>The classes of range queries\<close>

text \<open>
  The distribution of range queries is a partition: there are six classes, every range query
  of the window whose end is not before its start is counted in exactly one of them, so the
  counts add up to their number.
\<close>

lemma GetQueryTimeRangeDistribution_partition:
  assumes "GetQueryTimeRangeDistribution round2 fl now t tr0 fp = Inr rows"
  shows "map rd_Label rows = [''<24h'', ''24h'', ''7d'', ''30d'', ''60d'', ''90d+'']
       \<and> (\<Sum>r \<leftarrow> rows. rd_Count r) = int (length (range_queries t (SetDefaultTimeRange now tr0) fp))
       \<and> (\<forall>s. length (filter (\<lambda>c. snd c s) range_classes) = 1)"
proof -
  have classes: "\<forall>s. length (filter (\<lambda>c. snd c s) range_classes) = 1" by (auto simp: range_classes_def)
  have part: "(\<Sum>c \<leftarrow> range_classes. count_if (snd c) xs) = int (length xs)" for xs
    by (induction xs) (auto simp: range_classes_def count_if_def)
  have rows: "rows = map (range_row round2 (map range_seconds (range_queries t (SetDefaultTimeRange now tr0) fp))) range_classes"
    using assms by (auto simp: GetQueryTimeRangeDistribution_def dest!: scan_rows_Inr split: option.splits)
  have "(\<Sum>r \<leftarrow> rows. rd_Count r) = (\<Sum>c \<leftarrow> range_classes. count_if (snd c) (map range_seconds (range_queries t (SetDefaultTimeRange now tr0) fp)))"
    by (simp add: rows comp_def range_row_def Let_def)
  moreover have "map rd_Label rows = map fst range_classes"
    by (simp add: rows comp_def range_row_def Let_def)
  then have "map rd_Label rows = [''<24h'', ''24h'', ''7d'', ''30d'', ''60d'', ''90d+'']" by (simp add: range_classes_def)
  ultimately show ?thesis using classes by (simp add: part)
qed

lemma GetQueryTimeRangeDistribution_partition_witness:
  "\<exists>rows. GetQueryTimeRangeDistribution id no_read_faults 0 empty_tables \<lparr>tr_From = 0, tr_To = hour\<rparr> [] = Inr rows
     \<and> map rd_Label rows = [''<24h'', ''24h'', ''7d'', ''30d'', ''60d'', ''90d+'']"
proof -
  obtain rows where r: "GetQueryTimeRangeDistribution id no_read_faults 0 empty_tables \<lparr>tr_From = 0, tr_To = hour\<rparr> [] = Inr rows"
    by (simp add: GetQueryTimeRangeDistribution_def)
  from GetQueryTimeRangeDistribution_partition [OF r]
  have "map rd_Label rows = [''<24h'', ''24h'', ''7d'', ''30d'', ''60d'', ''90d+'']" by (rule conjunct1)
  with r show ?thesis by (intro exI conjI)
qed

end
