(* ===== verification/Pg_Server.thy ===== *)
theory Pg_Server
  imports Sqlite_Charts
begin

text \<open>
  What the PostgreSQL provider (\<open>internal/db/postgresql.go\<close>) relies on in the server: how a bound
  time reaches a \<open>TIMESTAMP\<close> column, how the text of a bound is read back as a time, which rows
  the column types refuse, text comparison, JSON containment and rounding. They are the fields
  of \<open>pg_server\<close>, an argument of every operation; \<open>documented\<close> states what the manual of the
  server and of the driver promise of them. Patterns (\<open>ILIKE\<close>) and windows over columns are
  defined here on top of it.
\<close>

section \<open>Reading a time back\<close>

definition days_from_civil :: "int \<Rightarrow> int \<Rightarrow> int \<Rightarrow> int" where
  "days_from_civil y m d =
     (let y' = (if m \<le> 2 then y - 1 else y)
      in 146097 * (y' div 400) + year_start (y' mod 400) + ((153 * ((m + 9) mod 12) + 2) div 5 + d - 1) - 719468)"

lemma days_from_civil_inverse:
  assumes "civil_from_days z = (y, m, d)"
  shows "days_from_civil y m d = z"
proof -
  obtain era yoe doy where c: "z + 719468 = 146097 * era + (year_start yoe + doy)" "0 \<le> yoe" "yoe < 400"
    "12 * y + m = 4800 * era + 12 * yoe + month_of doy + 3" "d = day_of doy" "0 \<le> month_of doy" "month_of doy \<le> 11"
    "1 \<le> m" "m \<le> 12"
    using civil_from_days_cases [OF assms] by metis
  let ?y = "if m \<le> 2 then y - 1 else y"
  let ?mp = "if m \<le> 2 then m + 9 else m - 3"
  have mp: "(m + 9) mod 12 = ?mp"
    using c(8,9) by (auto intro!: int_mod_pos_eq [where q = 1] mod_pos_pos_trivial)
  define k where "k = ?y - 400 * era - yoe"
  have k: "12 * k = month_of doy - ?mp" using c(4) by (auto simp: k_def)
  moreover have "- 12 < month_of doy - ?mp" "month_of doy - ?mp < 12" using c(6-9) by auto
  ultimately have "k = 0" by linarith
  with k have "?y = 400 * era + yoe \<and> (m + 9) mod 12 = month_of doy" unfolding mp by (simp add: k_def)
  moreover from this have "?y div 400 = era" "?y mod 400 = yoe"
    using c(2,3) by (simp_all add: int_div_pos_eq [where r = yoe] int_mod_pos_eq [where q = era])
  ultimately show ?thesis using c(1,5) by (simp add: days_from_civil_def Let_def day_of_def)
qed

definition digit_value :: "char \<Rightarrow> int" where
  "digit_value c = int (of_char c) - 48"

definition read_number :: "string \<Rightarrow> int" where
  "read_number = foldl (\<lambda>n c. 10 * n + digit_value c) 0"

text \<open>A text in the layout \<open>2006-01-02T15:04:05Z\<close>, by position.\<close>

definition read_timestamp :: "string \<Rightarrow> time" where
  "read_timestamp s =
     (let day = days_from_civil (read_number (take 4 s)) (read_number (take 2 (drop 5 s))) (read_number (take 2 (drop 8 s)));
          seconds = read_number (take 2 (drop 11 s)) * 3600 + read_number (take 2 (drop 14 s)) * 60 + read_number (take 2 (drop 17 s))
      in (day * 86400 + seconds) * second)"

lemma digit_value_digit [simp]: "digit_value (digit n) = n mod 10"
  by (simp add: digit_value_def digit_def of_char_of take_bit_eq_mod)

lemma read_pad2: "0 \<le> n \<Longrightarrow> n < 100 \<Longrightarrow> read_number (pad2 n) = n"
  by (simp add: read_number_def pad2_def mod_pos_pos_trivial)

lemma read_pad4: "0 \<le> n \<Longrightarrow> n < 10000 \<Longrightarrow> read_number (pad4 n) = n"
proof -
  assume n: "0 \<le> n" "n < 10000"
  have "read_number (x @ pad2 k) = 100 * read_number x + read_number (pad2 k)" for x k
    by (simp add: read_number_def pad2_def)
  then have "read_number (pad4 n) = 100 * read_number (pad2 (n div 100)) + read_number (pad2 (n mod 100))"
    by (simp add: pad4_pad2)
  also have "\<dots> = 100 * (n div 100) + n mod 100"
    using n by (subst (1 2) read_pad2) auto
  finally show ?thesis by simp
qed

lemma read_timestamp_text:
  assumes "four_digit_years t"
  shows "read_timestamp (format_RFC3339 t) = t div second * second"
proof -
  obtain y m d where c: "civil_from_days (t div day) = (y, m, d)" by (metis prod_cases3)
  define s where "s = (t div second) mod 86400"
  have y: "0 \<le> y" "y < 10000" using assms c by (simp_all add: four_digit_years_def)
  have m: "1 \<le> m" "m \<le> 12" "1 \<le> d" "d \<le> 31" using civil_from_days_cases [OF c] by metis+
  have s: "0 \<le> s" "s < 86400" by (simp_all add: s_def)
  have layout: "format_RFC3339 t = pad4 y @ ''-'' @ pad2 m @ ''-'' @ pad2 d @ ''T'' @ pad2 (s div 3600) @ '':'' @ pad2 (s div 60 mod 60) @ '':'' @ pad2 (s mod 60) @ ''Z''"
    using c by (simp add: format_RFC3339_def date_text_def clock_text_def day_def s_def Let_def)
  have len: "length (pad4 n) = 4" "length (pad2 n) = 2" for n by (simp_all add: pad4_def pad2_def)
  have clock: "0 \<le> s div 3600" "s div 3600 < 100" "0 \<le> s div 60 mod 60" "s div 60 mod 60 < 100" "0 \<le> s mod 60" "s mod 60 < 100"
    using s pos_mod_bound [of 60 "s div 60"] pos_mod_bound [of 60 s] by (simp_all del: pos_mod_bound)
  have m100: "m < 100" "d < 100" "0 \<le> m" "0 \<le> d" using m by simp_all
  note num = read_pad4 [OF y] read_pad2 [OF m100(3,1)] read_pad2 [OF m100(4,2)] read_pad2 [OF clock(1,2)]
    read_pad2 [OF clock(3,4)] read_pad2 [OF clock(5,6)]
  have "s div 3600 * 3600 + s div 60 mod 60 * 60 + s mod 60 = s"
  proof -
    define a b where "a = s div 60" and "b = s mod 60"
    have "s = a * 60 + b" "a = a div 60 * 60 + a mod 60" by (simp_all add: a_def b_def)
    moreover have "s div 3600 = a div 60" using zdiv_zmult2_eq [of 60 s 60] by (simp add: a_def)
    ultimately show ?thesis unfolding a_def [symmetric] b_def [symmetric] by linarith
  qed
  moreover have "t div second = t div day * 86400 + s" by (simp add: day_of_second s_def)
  ultimately show ?thesis
    by (simp add: read_timestamp_def layout len num days_from_civil_inverse [OF c])
qed

section \<open>The server\<close>

record pg_server =
  sv_timestamp :: "time \<Rightarrow> time" \<comment> \<open>the value of a bound time in a \<open>TIMESTAMP\<close> column\<close>
  sv_literal :: "string \<Rightarrow> time" \<comment> \<open>a text where a \<open>TIMESTAMP\<close> is expected\<close>
  sv_reject :: "Query \<Rightarrow> go_error option" \<comment> \<open>the error for a row whose values do not fit the columns\<close>
  sv_json_error :: "string \<Rightarrow> go_error option" \<comment> \<open>the error of \<open>$1::jsonb\<close>\<close>
  sv_contains :: "(string, string) go_map list \<Rightarrow> string \<Rightarrow> bool" \<comment> \<open>\<open>labelMatchers @> $1::jsonb\<close>\<close>
  sv_lower :: "string \<Rightarrow> string" \<comment> \<open>\<open>lower\<close>\<close>
  sv_collate :: "string \<Rightarrow> string" \<comment> \<open>the sort key of a text in the collation of the database\<close>
  sv_round2 :: "real \<Rightarrow> real" \<comment> \<open>\<open>ROUND(x::numeric, 2)\<close>\<close>

text \<open>The widths of the integer columns: \<open>SMALLINT\<close> for the status, \<open>INTEGER\<close> for sizes and samples.\<close>

definition fits_columns :: "Query \<Rightarrow> bool" where
  "fits_columns q \<longleftrightarrow> - (2 ^ 15) \<le> q_StatusCode q \<and> q_StatusCode q < 2 ^ 15
     \<and> - (2 ^ 31) \<le> q_BodySize q \<and> q_BodySize q < 2 ^ 31
     \<and> - (2 ^ 31) \<le> q_TotalQueryableSamples q \<and> q_TotalQueryableSamples q < 2 ^ 31
     \<and> - (2 ^ 31) \<le> q_PeakSamples q \<and> q_PeakSamples q < 2 ^ 31"

text \<open>\<open>[{"__name__": "metric"}]\<close>, without escaping.\<close>

definition metricMatcherJSON :: "string \<Rightarrow> string" where
  "metricMatcherJSON metric = ''[{\"__name__\": \"'' @ metric @ ''\"}]''"

definition plain_json :: "string \<Rightarrow> bool" where
  "plain_json s \<longleftrightarrow> (\<forall>c \<in> set s. c \<noteq> CHR 0x22 \<and> c \<noteq> CHR 0x5C \<and> (32 :: nat) \<le> of_char c)"

definition names_metric :: "string \<Rightarrow> (string, string) go_map list \<Rightarrow> bool" where
  "names_metric metric lms \<longleftrightarrow> (\<exists>lm \<in> set lms. map_of lm ''__name__'' = Some metric)"

definition microsecond :: duration where "microsecond = 1000"

definition documented :: "pg_server \<Rightarrow> bool" where
  "documented sv \<longleftrightarrow>
     (\<forall>t. sv_timestamp sv t mod microsecond = 0 \<and> 2 * \<bar>sv_timestamp sv t - t\<bar> \<le> microsecond)
   \<and> (\<forall>t. four_digit_years t \<longrightarrow> sv_literal sv (format_RFC3339 t) = t div second * second)
   \<and> (\<forall>q. sv_reject sv q = None \<longrightarrow> fits_columns q)
   \<and> (\<forall>m lms. plain_json m \<longrightarrow> sv_json_error sv (metricMatcherJSON m) = None
        \<and> sv_contains sv lms (metricMatcherJSON m) = names_metric m lms)
   \<and> (\<forall>s. ascii s \<longrightarrow> sv_lower sv s = map lower_char s)
   \<and> inj (sv_collate sv)"

lemma documentedD:
  assumes "documented sv"
  shows "sv_timestamp sv t mod microsecond = 0" "2 * \<bar>sv_timestamp sv t - t\<bar> \<le> microsecond"
    and "four_digit_years t \<Longrightarrow> sv_literal sv (format_RFC3339 t) = t div second * second"
    and "sv_reject sv q = None \<Longrightarrow> fits_columns q"
    and "plain_json m \<Longrightarrow> sv_json_error sv (metricMatcherJSON m) = None"
    and "plain_json m \<Longrightarrow> sv_contains sv lms (metricMatcherJSON m) = names_metric m lms"
    and "ascii s \<Longrightarrow> sv_lower sv s = map lower_char s" and "inj (sv_collate sv)"
  using assms by (auto simp: documented_def)

text \<open>Rounding to microseconds keeps the order of times.\<close>

lemma timestamp_mono:
  assumes "documented sv" "t \<le> u"
  shows "sv_timestamp sv t \<le> sv_timestamp sv u"
proof (rule ccontr)
  let ?f = "sv_timestamp sv"
  assume "\<not> ?f t \<le> ?f u"
  moreover have "microsecond dvd ?f t - ?f u"
    using documentedD(1) [OF assms(1)] by (simp add: dvd_eq_mod_eq_0 mod_diff_eq [symmetric])
  ultimately have "microsecond \<le> ?f t - ?f u" by (intro zdvd_imp_le) auto
  with documentedD(2) [OF assms(1), of t] documentedD(2) [OF assms(1), of u] assms(2)
  show False by (cases "t = u") (auto simp: microsecond_def)
qed

section \<open>Patterns\<close>

text \<open>
  \<open>LIKE\<close> in PostgreSQL has an escape character, the backslash. \<open>ILIKE\<close> compares the lower-case
  forms of pattern and text. A pattern here always ends with \<open>%\<close>, so the error for a pattern
  that ends in an escape does not arise; such a pattern matches nothing below.
\<close>

function pg_like :: "string \<Rightarrow> string \<Rightarrow> bool" where
  "pg_like [] s = (s = [])"
| "pg_like (c # p) s =
     (if c = CHR ''%'' then pg_like p s \<or> (if s = [] then False else pg_like (c # p) (next_char s))
      else if c = CHR 0x5C then (case p of [] \<Rightarrow> False | d # p' \<Rightarrow> if s = [] then False else hd s = d \<and> pg_like p' (tl s))
      else if s = [] then False
      else if c = CHR ''_'' then pg_like p (next_char s)
      else c = hd s \<and> pg_like p (tl s))"
  by pat_completeness auto
termination
  by (relation "measure (\<lambda>(p, s). length p + length s)") (auto simp: length_next_char less_SucI)

declare pg_like.simps(2) [simp del]

definition ilike :: "pg_server \<Rightarrow> string \<Rightarrow> string \<Rightarrow> bool" where
  "ilike sv p s \<longleftrightarrow> pg_like (sv_lower sv p) (sv_lower sv s)"

text \<open>The filter of a request between two \<open>%\<close> signs, or between two pairs of them.\<close>

definition ilike_filter :: "pg_server \<Rightarrow> string \<Rightarrow> string \<Rightarrow> bool" where
  "ilike_filter sv f s \<longleftrightarrow> ilike sv (''%'' @ f @ ''%'') s"

definition ilike_filter2 :: "pg_server \<Rightarrow> string \<Rightarrow> string \<Rightarrow> bool" where
  "ilike_filter2 sv f s \<longleftrightarrow> ilike sv (''%%'' @ f @ ''%%'') s"

text \<open>On ASCII texts and filters without a backslash \<open>ILIKE\<close> is the \<open>LIKE\<close> of SQLite.\<close>

lemma lower_char_cases:
  obtains "lower_char c = c" "\<not> ((65 :: nat) \<le> of_char c \<and> of_char c \<le> (90 :: nat))"
  | "of_char (lower_char c) = (of_char c + 32 :: nat)" "(65 :: nat) \<le> of_char c" "of_char c \<le> (90 :: nat)"
  by (cases "(65 :: nat) \<le> of_char c \<and> of_char c \<le> (90 :: nat)") (auto simp: lower_char_def of_char_of)

lemma lower_char_eq:
  assumes "d \<in> {CHR ''%'', CHR ''_'', CHR 0x5C}"
  shows "lower_char c = d \<longleftrightarrow> c = d"
  by (cases rule: lower_char_cases [of c]) (use assms in auto)

lemma lower_char_fixed: "lower_char (CHR ''%'') = CHR ''%''" "lower_char (CHR ''_'') = CHR ''_''"
  by (simp_all add: lower_char_eq)

lemma lower_char_bytes: "of_char (lower_char c) < (192 :: nat) \<longleftrightarrow> of_char c < (192 :: nat)"
  "is_continuation (lower_char c) = is_continuation c"
  by (cases rule: lower_char_cases [of c]; simp add: is_continuation_def)+

lemma next_char_lower: "next_char (map lower_char s) = map lower_char (next_char s)"
  by (cases s) (simp_all add: next_char_def lower_char_bytes dropWhile_map comp_def)

lemma pg_like_lower:
  "CHR 0x5C \<notin> set p \<Longrightarrow> pg_like (map lower_char p) (map lower_char s) \<longleftrightarrow> like p s"
proof (induction p s rule: like.induct)
  case (2 c p s)
  have c: "lower_char c = CHR ''%'' \<longleftrightarrow> c = CHR ''%''" "lower_char c = CHR ''_'' \<longleftrightarrow> c = CHR ''_''"
    "lower_char c = CHR 0x5C \<longleftrightarrow> c = CHR 0x5C" by (simp_all add: lower_char_eq)
  have ne: "c \<noteq> CHR 0x5C" "CHR 0x5C \<notin> set p" using 2(5) by auto
  consider (any) "c = CHR ''%''" | (one) "c = CHR ''_''" | (char) "c \<noteq> CHR ''%''" "c \<noteq> CHR ''_''" by blast
  then show ?case
  proof cases
    case any
    then show ?thesis
      using 2(1) [OF any ne(2)] 2(2) [OF any] 2(5) unfolding list.map
      by (subst pg_like.simps(2), subst like.simps(2)) (simp add: lower_char_fixed next_char_lower)
  next
    case one
    then show ?thesis
      using 2(3) ne unfolding list.map
      by (subst pg_like.simps(2), subst like.simps(2)) (simp add: lower_char_fixed next_char_lower)
  next
    case char
    then show ?thesis
      using 2(4) ne unfolding list.map
      by (subst pg_like.simps(2), subst like.simps(2)) (cases s; simp add: c)
  qed
qed simp

lemma ilike_filter_like:
  assumes "documented sv" "ascii f" "ascii s" "CHR 0x5C \<notin> set f"
  shows "ilike_filter sv f s \<longleftrightarrow> like_filter f s" "ilike_filter2 sv f s \<longleftrightarrow> like_filter f s"
proof -
  have "ilike sv p s \<longleftrightarrow> like p s" if "ascii p" "CHR 0x5C \<notin> set p" for p
    using that assms(1,3) by (simp add: ilike_def documentedD(7) pg_like_lower)
  from this [of "''%%'' @ f @ ''%%''"] this [of "''%'' @ f @ ''%''"]
  have "ilike_filter2 sv f s \<longleftrightarrow> like_filter2 f s" "ilike_filter sv f s \<longleftrightarrow> like_filter f s"
    unfolding ilike_filter2_def ilike_filter_def like_filter2_def like_filter_def
    using assms(2,4) by (simp_all add: ascii_def)
  then show "ilike_filter sv f s \<longleftrightarrow> like_filter f s" "ilike_filter2 sv f s \<longleftrightarrow> like_filter f s" by simp_all
qed

section \<open>Windows\<close>

text \<open>The bounds are sent as RFC 3339 texts, whole seconds; both ends count.\<close>

definition pg_in_window :: "pg_server \<Rightarrow> TimeRange \<Rightarrow> time \<Rightarrow> bool" where
  "pg_in_window sv tr ts \<longleftrightarrow>
     (case PrepareTimeRange tr ''postgresql'' of (from, to) \<Rightarrow> sv_literal sv from \<le> ts \<and> ts \<le> sv_literal sv to)"

definition pg_in_presence :: "pg_server \<Rightarrow> TimeRange \<Rightarrow> time \<Rightarrow> time \<Rightarrow> bool" where
  "pg_in_presence sv tr first_seen last_seen \<longleftrightarrow>
     (case PrepareTimeRange tr ''postgresql'' of (from, to) \<Rightarrow>
        first_seen \<le> sv_literal sv to \<and> last_seen \<ge> sv_literal sv from)"

definition whole_second :: "time \<Rightarrow> time" where
  "whole_second t = t div second * second"

lemma pg_in_window_times:
  assumes "documented sv" "four_digit_years (tr_From tr)" "four_digit_years (tr_To tr)"
  shows "pg_in_window sv tr ts \<longleftrightarrow> whole_second (tr_From tr) \<le> ts \<and> ts \<le> whole_second (tr_To tr)"
  using assms by (simp add: pg_in_window_def PrepareTimeRange_def TimeRange_Format_def documentedD(3) whole_second_def)

lemma pg_in_presence_times:
  assumes "documented sv" "four_digit_years (tr_From tr)" "four_digit_years (tr_To tr)"
  shows "pg_in_presence sv tr a b \<longleftrightarrow> a \<le> whole_second (tr_To tr) \<and> whole_second (tr_From tr) \<le> b"
  using assms by (simp add: pg_in_presence_def PrepareTimeRange_def TimeRange_Format_def documentedD(3) whole_second_def)

text \<open>A server that keeps what is documented, for closed examples.\<close>

definition sample_server :: pg_server where
  "sample_server = \<lparr>sv_timestamp = (\<lambda>t. (t + 500) div microsecond * microsecond), sv_literal = read_timestamp,
     sv_reject = (\<lambda>q. if fits_columns q then None else Some ''pq: value out of range''),
     sv_json_error = (\<lambda>_. None),
     sv_contains = (\<lambda>lms j. \<exists>lm \<in> set lms. map_option metricMatcherJSON (map_of lm ''__name__'') = Some j),
     sv_lower = map lower_char, sv_collate = id, sv_round2 = id\<rparr>"

lemma metricMatcherJSON_inject [simp]: "metricMatcherJSON a = metricMatcherJSON b \<longleftrightarrow> a = b"
  by (simp add: metricMatcherJSON_def)

lemma documented_sample: "documented sample_server"
proof -
  have "2 * \<bar>(t + 500) div microsecond * microsecond - t\<bar> \<le> microsecond" for t
  proof -
    define a b where "a = (t + 500) div 1000" and "b = (t + 500) mod 1000"
    have "t + 500 = a * 1000 + b" "0 \<le> b" "b < 1000" by (simp_all add: a_def b_def)
    then show ?thesis unfolding microsecond_def a_def [symmetric] by (simp add: abs_if)
  qed
  then show ?thesis
    by (auto simp: documented_def sample_server_def read_timestamp_text names_metric_def split: if_splits)
qed

end
