(* ===== verification/Retention.thy ===== *)
theory Retention
  imports Sqlite_Store Config
begin

text \<open>
  The retention worker (\<open>internal/retention/retention.go\<close>): it deletes recorded queries older
  than the configured age, at start and then at every tick. The clock, the random jitter and
  the leadership test are arguments.
\<close>

section \<open>The worker\<close>

record Worker =
  w_interval :: duration
  w_runTimeout :: duration
  w_queriesMaxAge :: duration

text \<open>The text of a duration in the messages (\<open>%v\<close>) is left out.\<close>

definition NewWorker :: "ProxyConfig option \<Rightarrow> go_error + Worker" where
  "NewWorker config =
     (case config of
        None \<Rightarrow> Inl ''config is required''
      | Some cfg \<Rightarrow>
          (let r = cfg_Retention cfg in
           if ret_Interval r \<le> 0 then Inl ''retention.interval must be positive''
           else if ret_RunTimeout r \<le> 0 then Inl ''retention.run_timeout must be positive''
           else if ret_QueriesMaxAge r \<le> 0 then Inl ''retention.queries_max_age must be positive''
           else Inr \<lparr>w_interval = ret_Interval r, w_runTimeout = ret_RunTimeout r, w_queriesMaxAge = ret_QueriesMaxAge r\<rparr>))"

lemma NewWorker_positive:
  "NewWorker config = Inr w \<Longrightarrow> 0 < w_interval w \<and> 0 < w_runTimeout w \<and> 0 < w_queriesMaxAge w"
  by (auto simp: NewWorker_def Let_def split: option.splits if_splits)

text \<open>
  One run: the status observed in the duration histogram (none when the run is skipped) and the
  number of deleted queries that is logged.
\<close>

definition runOnce ::
  "('s \<Rightarrow> time \<Rightarrow> (go_error + int) \<times> 's) \<Rightarrow> Worker \<Rightarrow> time \<Rightarrow> 's \<Rightarrow> string option \<times> int option \<times> 's" where
  "runOnce del w now s =
     (if w_queriesMaxAge w \<le> 0 then (None, None, s)
      else (let cutoff = now + duration_neg (w_queriesMaxAge w) in
            case del s cutoff of
              (Inl err, s') \<Rightarrow> (Some ''failure'', None, s')
            | (Inr deleted, s') \<Rightarrow> (Some ''success'', Some deleted, s')))"

text \<open>\<open>rnd n\<close> is the result of \<open>rand.Int63n(n)\<close>: the period of the ticker of the loop.\<close>

definition tick_period :: "(int \<Rightarrow> int) \<Rightarrow> Worker \<Rightarrow> duration" where
  "tick_period rnd w =
     (let jitterBase = w_interval w sdiv 5;
          jitterBase = (if jitterBase = 0 then 1 else jitterBase)
      in w_interval w + rnd jitterBase)"

text \<open>The runs of the loop until the context ends, given the time and the database of each.\<close>

fun runLoop ::
  "(go_error option \<Rightarrow> 's \<Rightarrow> time \<Rightarrow> (go_error + int) \<times> 's) \<Rightarrow> Worker \<Rightarrow> (time \<times> go_error option) list \<Rightarrow> 's \<Rightarrow> 's" where
  "runLoop del w [] s = s"
| "runLoop del w ((now, ferr) # runs) s = runLoop del w runs (snd (snd (runOnce (del ferr) w now s)))"

text \<open>The waits of \<open>RunWithLeader\<close> while another instance leads: the backoff and its growth.\<close>

definition next_backoff :: "duration \<Rightarrow> duration" where
  "next_backoff backoff = (if backoff < 10 * second then backoff * 2 else backoff)"

definition leader_wait :: "(int \<Rightarrow> int) \<Rightarrow> duration \<Rightarrow> duration" where
  "leader_wait rnd backoff = backoff + rnd backoff"

section \<open>Bounds on waiting\<close>

lemma backoff_values: "(next_backoff ^^ n) second \<in> {second, 2 * second, 4 * second, 8 * second, 16 * second}"
  by (induction n) (auto simp: next_backoff_def duration_defs)

text \<open>
  Waiting is bounded: a non-leader asks again after at least one and less than 32 seconds,
  however often it has been refused, and a leader's period exceeds the configured interval by
  less than a fifth of it (or one nanosecond).
\<close>

lemma retention_waits_bounded:
  assumes "\<And>n. 0 < n \<Longrightarrow> 0 \<le> rnd n \<and> rnd n < n" "0 < w_interval w"
  shows "second \<le> leader_wait rnd ((next_backoff ^^ k) second) \<and> leader_wait rnd ((next_backoff ^^ k) second) < 32 * second
       \<and> w_interval w \<le> tick_period rnd w \<and> tick_period rnd w \<le> w_interval w + max 1 (w_interval w div 5)"
proof -
  let ?b = "(next_backoff ^^ k) second"
  have b: "second \<le> ?b" "?b \<le> 16 * second" using backoff_values [of k] by (auto simp: duration_defs)
  then have "0 < ?b" by (simp add: duration_defs)
  with assms(1) [of ?b] b have 1: "second \<le> leader_wait rnd ?b \<and> leader_wait rnd ?b < 32 * second"
    by (simp add: leader_wait_def)
  have d: "w_interval w sdiv 5 = w_interval w div 5"
    using assms(2) by (simp add: signed_divide_int_def)
  have "0 \<le> w_interval w div 5" using assms(2) by (simp add: pos_imp_zdiv_nonneg_iff)
  then have "0 < (if w_interval w div 5 = 0 then 1 else w_interval w div 5)" by auto
  from assms(1) [OF this] show ?thesis
    using 1 \<open>0 \<le> w_interval w div 5\<close> by (auto simp: tick_period_def Let_def d split: if_splits)
qed

lemma retention_waits_bounded_witness:
  "tick_period (\<lambda>n. n - 1) \<lparr>w_interval = hour, w_runTimeout = minute, w_queriesMaxAge = ThirtyDays\<rparr> \<le> hour + max 1 (hour div 5)"
  using retention_waits_bounded [of "\<lambda>n. n - 1" "\<lparr>w_interval = hour, w_runTimeout = minute, w_queriesMaxAge = ThirtyDays\<rparr>" 0]
  by (simp add: duration_defs)

section \<open>What a run deletes\<close>

text \<open>
  The contract of a store with retention: a failed deletion changes nothing, a successful one
  keeps exactly the queries that are not expired at the cutoff and returns how many went.
\<close>

locale retention_store =
  fixes del :: "go_error option \<Rightarrow> 's \<Rightarrow> time \<Rightarrow> (go_error + int) \<times> 's"
    and contents :: "'s \<Rightarrow> Query list"
    and expired :: "time \<Rightarrow> Query \<Rightarrow> bool"
  assumes del_failed: "\<exists>e. del (Some err) s cutoff = (Inl e, s)"
    and del_ok: "\<exists>s'. del None s cutoff = (Inr (int (length (filter (expired cutoff) (contents s)))), s') \<and>
      contents s' = filter (\<lambda>q. \<not> expired cutoff q) (contents s)"
begin

lemma runOnce_failed: "0 < w_queriesMaxAge w \<Longrightarrow> runOnce (del (Some err)) w now s = (Some ''failure'', None, s)"
  using del_failed [of err s "now + duration_neg (w_queriesMaxAge w)"] by (auto simp: runOnce_def Let_def)

lemma runOnce_ok:
  fixes now :: time
  assumes "0 < w_queriesMaxAge w"
  defines "cutoff \<equiv> now + duration_neg (w_queriesMaxAge w)"
  shows "\<exists>s'. runOnce (del None) w now s = (Some ''success'', Some (int (length (filter (expired cutoff) (contents s)))), s') \<and>
    contents s' = filter (\<lambda>q. \<not> expired cutoff q) (contents s)"
  using assms(1) del_ok [of s cutoff] by (auto simp: runOnce_def Let_def cutoff_def)

text \<open>Over any number of runs exactly the queries disappear that were expired at a successful one.\<close>

lemma runLoop_contents:
  assumes "0 < w_queriesMaxAge w"
  shows "contents (runLoop del w runs s) = filter (\<lambda>q. \<forall>now. (now, None) \<in> set runs \<longrightarrow>
     \<not> expired (now + duration_neg (w_queriesMaxAge w)) q) (contents s)"
proof (induction runs arbitrary: s)
  case (Cons run runs)
  obtain now f where run: "run = (now, f)" by fastforce
  show ?case
  proof (cases f)
    case None
    obtain st d s' where r: "runOnce (del None) w now s = (st, d, s')"
      "contents s' = filter (\<lambda>q. \<not> expired (now + duration_neg (w_queriesMaxAge w)) q) (contents s)"
      using runOnce_ok [OF assms, of now s] by blast
    show ?thesis by (simp add: run None r Cons.IH) (rule filter_cong, auto)
  next
    case (Some err)
    show ?thesis by (simp add: run Some runOnce_failed [OF assms] Cons.IH)
  qed
qed simp

end

definition sqlite_expired :: "(time \<Rightarrow> string) \<Rightarrow> time \<Rightarrow> Query \<Rightarrow> bool" where
  "sqlite_expired ct cutoff q \<longleftrightarrow> ct (q_TS q) < format_RFC3339 cutoff"

lemma removed_count: "int (length xs) - int (length (filter (\<lambda>x. \<not> P x) xs)) = int (length (filter P xs))"
  using sum_length_filter_compl [of P xs] by linarith

interpretation sqlite_retention: retention_store "DeleteQueriesBefore ct" t_queries "sqlite_expired ct" for ct
proof
  fix s cutoff
  show "\<exists>s'. DeleteQueriesBefore ct None s cutoff = (Inr (int (length (filter (sqlite_expired ct cutoff) (t_queries s)))), s') \<and>
      t_queries s' = filter (\<lambda>q. \<not> sqlite_expired ct cutoff q) (t_queries s)"
    by (simp add: removed_count DeleteQueriesBefore_def Let_def sqlite_expired_def [abs_def])
qed (simp add: DeleteQueriesBefore_def)

text \<open>
  C23. Retention removes exactly what is expired: after any number of runs, failing or not, the
  queries left are, in order, those dated after the day of the cutoff of every successful run.
  So nothing older than the configured age plus a day stays once a run succeeded, and nothing
  goes that is younger than the configured age less a day.
\<close>

theorem retention_removes_only_expired:
  assumes "driver_text ct" "NewWorker config = Inr w" "\<forall>q \<in> set (t_queries t). four_digit_years (q_TS q)"
    "\<forall>(now, f) \<in> set runs. four_digit_years (now + duration_neg (w_queriesMaxAge w))"
  shows "t_queries (runLoop (DeleteQueriesBefore ct) w runs t) = filter (\<lambda>q. \<forall>now. (now, None) \<in> set runs \<longrightarrow>
     (now + duration_neg (w_queriesMaxAge w)) div day < q_TS q div day) (t_queries t)"
proof -
  have "sqlite_expired ct cutoff q \<longleftrightarrow> q_TS q div day \<le> cutoff div day"
    if "four_digit_years (q_TS q)" "four_digit_years cutoff" for cutoff q
    using driver_textD [OF assms(1), of "q_TS q"] less_RFC3339_text date_text_le_iff [OF that]
    by (auto simp: sqlite_expired_def)
  with assms(3,4) have "(\<forall>now. (now, None) \<in> set runs \<longrightarrow> \<not> sqlite_expired ct (now + duration_neg (w_queriesMaxAge w)) q)
      \<longleftrightarrow> (\<forall>now. (now, None) \<in> set runs \<longrightarrow> (now + duration_neg (w_queriesMaxAge w)) div day < q_TS q div day)"
    if "q \<in> set (t_queries t)" for q
    using that by (fastforce simp: not_le [symmetric])
  with sqlite_retention.runLoop_contents [of w ct runs t] NewWorker_positive [OF assms(2)] show ?thesis
    by (simp cong: filter_cong)
qed

theorem retention_removes_only_expired_witness:
  "t_queries (runLoop (DeleteQueriesBefore utc_text) \<lparr>w_interval = hour, w_runTimeout = 5 * minute, w_queriesMaxAge = 30 * 24 * hour\<rparr>
        [(60 * 24 * hour, None)] (empty_tables\<lparr>t_queries := [query_at 0, query_at (31 * 24 * hour)]\<rparr>)) = [query_at (31 * 24 * hour)]"
proof -
  let ?t = "empty_tables\<lparr>t_queries := [query_at 0, query_at (31 * 24 * hour)]\<rparr>"
  let ?w = "\<lparr>w_interval = hour, w_runTimeout = 5 * minute, w_queriesMaxAge = 30 * 24 * hour\<rparr>"
  have w: "NewWorker (Some DefaultConfig) = Inr ?w"
    by (simp add: NewWorker_def DefaultConfig_def duration_defs)
  have "t_queries (runLoop (DeleteQueriesBefore utc_text) ?w [(60 * 24 * hour, None)] ?t) = filter (\<lambda>q. \<forall>now. (now, None) \<in> set [(60 * 24 * hour, None :: go_error option)] \<longrightarrow>
     (now + duration_neg (w_queriesMaxAge ?w)) div day < q_TS q div day) (t_queries ?t)"
    by (rule retention_removes_only_expired [OF driver_text_utc w])
      (simp_all add: four_digit_years_iff day_def duration_defs duration_neg_def minDuration_def)
  then show ?thesis by (simp add: day_def duration_defs duration_neg_def minDuration_def)
qed

end
