(* ===== verification/Routes.thy ===== *)
theory Routes
  imports Query_Ingester Usage_Lookup Db_Common
begin

text \<open>
  The HTTP handlers (\<open>api/routes/routes.go\<close>) and the recording response writer
  (\<open>api/response/responseWriter.go\<close>).

  A request is what the handlers read of it: its method and the values \<open>net/http\<close> finds in the
  form, the URL, the path and the headers. The decoders of bodies (JSON, CSV, gzip), the
  parsers of times and floating-point numbers and the proxied upstream are arguments, given by
  their results; the texts of numbers in error messages are left out. The database is the
  provider's operation, passed to the handler. A reply is a JSON value, an error with its
  status, an empty answer, or \<open>Panic\<close> where the handler dereferences a nil pointer.
\<close>

section \<open>Requests and replies\<close>

record http_request =
  rq_Method :: string
  rq_FormValue :: "string \<Rightarrow> string"
  rq_URLQuery :: "string \<Rightarrow> string"
  rq_PathValue :: "string \<Rightarrow> string"
  rq_Header :: "string \<Rightarrow> string"

datatype 'd reply = JSON 'd | ErrorReply nat string | Empty | Panic

definition StatusBadRequest :: nat where "StatusBadRequest = 400"
definition StatusMethodNotAllowed :: nat where "StatusMethodNotAllowed = 405"
definition StatusInternalServerError :: nat where "StatusInternalServerError = 500"

text \<open>The answer of the provider, as the handlers pass it on.\<close>

definition respond :: "string \<Rightarrow> go_error + 'd \<Rightarrow> 'd reply" where
  "respond label res =
     (case res of Inl err \<Rightarrow> ErrorReply StatusInternalServerError (label @ err) | Inr data \<Rightarrow> JSON data)"

section \<open>Parameters\<close>

text \<open>\<open>strconv.ParseInt(s, 10, 64)\<close>, which \<open>Atoi\<close> is on 64-bit machines.\<close>

definition is_digit :: "char \<Rightarrow> bool" where
  "is_digit c \<longleftrightarrow> 48 \<le> (of_char c :: nat) \<and> of_char c \<le> (57 :: nat)"

definition digits_value :: "string \<Rightarrow> nat" where
  "digits_value ds = fold (\<lambda>c n. 10 * n + (of_char c - 48)) ds 0"

definition Atoi :: "string \<Rightarrow> go_error + int" where
  "Atoi s =
     (let (neg, ds) = (case s of
          [] \<Rightarrow> (False, [])
        | c # rest \<Rightarrow> if c = CHR ''-'' then (True, rest) else if c = CHR ''+'' then (False, rest) else (False, s));
          v = (if neg then - int (digits_value ds) else int (digits_value ds)) in
      if ds = [] \<or> \<not> list_all is_digit ds then Inl ''invalid syntax''
      else if - (2 ^ 63) \<le> v \<and> v < 2 ^ 63 then Inr v
      else Inl ''value out of range'')"

record text_parsers =
  tp_RFC3339 :: "string \<Rightarrow> time option"
  tp_UnixFloat :: "string \<Rightarrow> time option" \<comment> \<open>\<open>ParseFloat\<close> and the split into seconds and nanoseconds\<close>
  tp_Float :: "string \<Rightarrow> real" \<comment> \<open>the value \<open>ParseFloat\<close> returns, errors ignored\<close>

definition getTimeParam :: "text_parsers \<Rightarrow> time \<Rightarrow> http_request \<Rightarrow> string \<Rightarrow> time" where
  "getTimeParam tp now req param =
     (let timeParam = rq_FormValue req param in
      if timeParam \<noteq> []
      then (case tp_RFC3339 tp timeParam of
              Some t \<Rightarrow> t
            | None \<Rightarrow>
                (case Atoi timeParam of
                   Inr ts \<Rightarrow> ts * second
                 | Inl _ \<Rightarrow> (case tp_UnixFloat tp timeParam of Some t \<Rightarrow> t | None \<Rightarrow> now)))
      else now)"

definition defaultStep :: real where "defaultStep = 15"

definition getStepParam :: "text_parsers \<Rightarrow> http_request \<Rightarrow> real" where
  "getStepParam tp req =
     (let stepParam = rq_FormValue req ''step'' in if stepParam \<noteq> [] then tp_Float tp stepParam else defaultStep)"

definition getQueryParamAsInt :: "http_request \<Rightarrow> string \<Rightarrow> int \<Rightarrow> go_error + int" where
  "getQueryParamAsInt req param defaultValue =
     (let val = rq_URLQuery req param in if val = [] then Inr defaultValue else Atoi val)"

section \<open>Pushed queries\<close>

text \<open>The codes \<open>http.StatusText\<close> knows.\<close>

definition status_known :: "int \<Rightarrow> bool" where
  "status_known c \<longleftrightarrow> c \<in> {100..103} \<union> {200..208} \<union> {226} \<union> {300..305} \<union> {307, 308} \<union> {400..418} \<union> {421..426}
     \<union> {428, 429, 431, 451} \<union> {500..508} \<union> {510, 511}"

text \<open>\<open>ck\<close> has the two readings of the clock.\<close>

definition validateQuery :: "time \<times> time \<Rightarrow> Query \<Rightarrow> go_error + Query" where
  "validateQuery ck q0 =
     (let q1 = q0\<lparr>q_TS := fst ck\<rparr> in
      if q_QueryParam q1 = [] then Inl ''missing query parameter''
      else
        let q2 = (if q_TimeParam q1 = zero_time then q1\<lparr>q_TimeParam := snd ck\<rparr> else q1) in
        if q_BodySize q2 < 0 then Inl ''invalid body size''
        else if q_Duration q2 < 0 then Inl ''invalid duration''
        else if q_Type q2 \<notin> set KnownQueryTypes then Inl ''invalid query type''
        else if \<not> status_known (q_StatusCode q2) then Inl ''invalid status code''
        else if q_Step q2 < 0 then Inl ''invalid step''
        else if q_Type q2 = QueryTypeRange then
          (let q3 = (if q_Step q2 \<le> 0 then q2\<lparr>q_Step := defaultStep\<rparr> else q2) in
           if q_Start q3 = zero_time then Inl ''missing start parameter''
           else if q_End q3 = zero_time then Inl ''missing end parameter''
           else if q_End q3 < q_Start q3 then Inl ''invalid range: end before start''
           else Inr q3)
        else if q_Type q2 = QueryTypeInstant then
          (let q3 = (if q_Start q2 = zero_time then q2\<lparr>q_Start := q_TimeParam q2\<rparr> else q2) in
           Inr (if q_End q3 = zero_time then q3\<lparr>q_End := q_TimeParam q3\<rparr> else q3))
        else Inr q2)"

text \<open>The loop over the pushed queries: the validated ones and the collected errors.\<close>

fun validate_all :: "(nat \<Rightarrow> time \<times> time) \<Rightarrow> nat \<Rightarrow> Query list \<Rightarrow> Query list \<times> string list" where
  "validate_all ck i [] = ([], [])"
| "validate_all ck i (q # qs) =
     (case validate_all ck (Suc i) qs of
        (ok, errs) \<Rightarrow>
          (case validateQuery (ck i) q of
             Inr q' \<Rightarrow> (q' # ok, errs)
           | Inl err \<Rightarrow> (ok, (''query id '' @ itoa i @ '': '' @ err) # errs)))"

definition queryPush ::
  "QueryIngester \<Rightarrow> http_request \<Rightarrow> (nat \<Rightarrow> time \<times> time) \<Rightarrow> go_error + Query list \<Rightarrow> 's qi_state \<Rightarrow> unit reply \<times> 's qi_state" where
  "queryPush qi req ck body st =
     (if rq_Method req \<noteq> ''POST''
      then (ErrorReply StatusMethodNotAllowed (''invalid request method: '' @ rq_Method req), st)
      else (case body of
              Inl err \<Rightarrow> (ErrorReply StatusBadRequest (''invalid request body: '' @ err), st)
            | Inr queries \<Rightarrow>
                (case validate_all ck 0 queries of
                   (valid, errs) \<Rightarrow>
                     if length errs > 0
                     then (ErrorReply StatusBadRequest (''validation errors: '' @ join '', '' errs), st)
                     else (Empty, fold (Ingest qi) valid st))))"

section \<open>Proxied queries\<close>

record responseWriter =
  rw_statusCode :: int
  rw_body :: string \<comment> \<open>what has not been read of the buffer\<close>

definition NewResponseWriter :: responseWriter where
  "NewResponseWriter = \<lparr>rw_statusCode = 200, rw_body = []\<rparr>"

datatype upstream_event = WriteHeader int | Write string

fun serve_event :: "upstream_event \<Rightarrow> responseWriter \<Rightarrow> responseWriter" where
  "serve_event (WriteHeader c) rw = rw\<lparr>rw_statusCode := c\<rparr>"
| "serve_event (Write b) rw = rw\<lparr>rw_body := rw_body rw @ b\<rparr>"

record query_response =
  qr_Status :: string
  qr_TotalQueryableSamples :: int
  qr_PeakSamples :: int

text \<open>
  Decoding reads from the buffer: the result and what is left unread, for a plain and for a
  compressed body.
\<close>

record decoders =
  dc_json :: "string \<Rightarrow> (go_error + query_response) \<times> string"
  dc_gzip :: "string \<Rightarrow> (go_error + query_response) \<times> string"

definition ParseQueryResponse ::
  "decoders \<Rightarrow> bool \<Rightarrow> string \<Rightarrow> responseWriter \<Rightarrow> query_response option \<times> responseWriter" where
  "ParseQueryResponse dc includeQueryStats contentEncoding rw =
     (if \<not> includeQueryStats then (None, rw)
      else (case (if contains contentEncoding ''gzip'' then dc_gzip dc (rw_body rw) else dc_json dc (rw_body rw)) of
              (res, rest) \<Rightarrow>
                ((case res of
                    Inl err \<Rightarrow> None
                  | Inr response \<Rightarrow> if qr_Status response \<noteq> ''success'' then None else Some response),
                 rw\<lparr>rw_body := rest\<rparr>)))"

definition GetStatusCode :: "responseWriter \<Rightarrow> int" where
  "GetStatusCode rw = rw_statusCode rw"

definition GetBodySize :: "responseWriter \<Rightarrow> int" where
  "GetBodySize rw = int (length (rw_body rw))"

definition extract_header :: "http_request \<Rightarrow> (string \<Rightarrow> string) \<Rightarrow> string \<Rightarrow> (string, string) go_map \<Rightarrow> (string, string) go_map" where
  "extract_header req respHeader header headers =
     (let val = rq_Header req header in
      if val \<noteq> [] then AList.update header val headers
      else (let val = respHeader header in
            if val \<noteq> [] then AList.update header val headers else headers))"

definition extractHeaders :: "http_request \<Rightarrow> (string \<Rightarrow> string) \<Rightarrow> string list \<Rightarrow> (string, string) go_map" where
  "extractHeaders req respHeader headerNames = fold (extract_header req respHeader) headerNames []"

text \<open>
  One proxied exchange: the times at its start and its end, what the upstream writes and the
  headers of its response.
\<close>

record exchange =
  ex_start :: time
  ex_now :: time
  ex_end :: time
  ex_events :: "upstream_event list"
  ex_respHeader :: "string \<Rightarrow> string"

record routes =
  rt_includeQueryStats :: bool
  rt_headerNames :: "string list"
  rt_parsers :: text_parsers
  rt_decoders :: decoders

definition empty_query :: Query where
  "empty_query = \<lparr>q_TS = zero_time, q_QueryParam = [], q_TimeParam = zero_time, q_Duration = 0, q_StatusCode = 0,
     q_BodySize = 0, q_LabelMatchers = [], q_Fingerprint = [], q_Type = [], q_Step = 0, q_Start = zero_time,
     q_End = zero_time, q_TotalQueryableSamples = 0, q_PeakSamples = 0, q_HTTPHeaders = []\<rparr>"

text \<open>What both handlers do after reading their parameters: proxy the request and record the outcome.\<close>

definition record_exchange :: "routes \<Rightarrow> http_request \<Rightarrow> exchange \<Rightarrow> Query \<Rightarrow> Query" where
  "record_exchange r req ex query =
     (let recw = fold serve_event (ex_events ex) NewResponseWriter;
          (response, recw') = ParseQueryResponse (rt_decoders r) (rt_includeQueryStats r) (ex_respHeader ex ''Content-Encoding'') recw;
          query1 = (case response of
                      None \<Rightarrow> query
                    | Some resp \<Rightarrow> query\<lparr>q_TotalQueryableSamples := qr_TotalQueryableSamples resp, q_PeakSamples := qr_PeakSamples resp\<rparr>)
      in query1\<lparr>q_Duration := time_sub (ex_end ex) (ex_start ex), q_StatusCode := GetStatusCode recw',
                q_BodySize := GetBodySize recw', q_HTTPHeaders := extractHeaders req (ex_respHeader ex) (rt_headerNames r)\<rparr>)"

definition routes_query :: "routes \<Rightarrow> QueryIngester \<Rightarrow> http_request \<Rightarrow> exchange \<Rightarrow> 's qi_state \<Rightarrow> 's qi_state" where
  "routes_query r qi req ex st =
     (let query = empty_query\<lparr>q_TS := ex_start ex, q_Type := QueryTypeInstant\<rparr>;
          query1 = (if rq_Method req = ''POST'' \<or> rq_Method req = ''GET''
                    then query\<lparr>q_QueryParam := rq_FormValue req ''query'',
                               q_TimeParam := getTimeParam (rt_parsers r) (ex_now ex) req ''time''\<rparr>
                    else query)
      in Ingest qi (record_exchange r req ex query1) st)"

definition routes_query_range :: "routes \<Rightarrow> QueryIngester \<Rightarrow> http_request \<Rightarrow> exchange \<Rightarrow> 's qi_state \<Rightarrow> 's qi_state" where
  "routes_query_range r qi req ex st =
     (let query = empty_query\<lparr>q_TS := ex_start ex, q_Type := QueryTypeRange\<rparr>;
          query1 = (if rq_Method req = ''POST'' \<or> rq_Method req = ''GET''
                    then query\<lparr>q_QueryParam := rq_FormValue req ''query'', q_Step := getStepParam (rt_parsers r) req,
                               q_Start := getTimeParam (rt_parsers r) (ex_now ex) req ''start'',
                               q_End := getTimeParam (rt_parsers r) (ex_now ex) req ''end''\<rparr>
                    else query)
      in Ingest qi (record_exchange r req ex query1) st)"

section \<open>Pushed queries are validated\<close>

text \<open>What a validated query is known to satisfy.\<close>

definition acceptable :: "Query \<Rightarrow> bool" where
  "acceptable q \<longleftrightarrow> q_QueryParam q \<noteq> [] \<and> 0 \<le> q_BodySize q \<and> 0 \<le> q_Duration q \<and> status_known (q_StatusCode q) \<and>
     (q_Type q = QueryTypeInstant \<and> 0 \<le> q_Step q \<or>
      q_Type q = QueryTypeRange \<and> 0 < q_Step q \<and> q_Start q \<noteq> zero_time \<and> q_End q \<noteq> zero_time \<and> q_Start q \<le> q_End q)"

lemma validateQuery_acceptable: "validateQuery ck q = Inr q' \<Longrightarrow> acceptable q' \<and> q_TS q' = fst ck"
  by (auto simp: validateQuery_def acceptable_def Let_def KnownQueryTypes_def QueryTypeRange_def QueryTypeInstant_def
      defaultStep_def split: if_splits)

lemma validate_all_ok:
  "validate_all ck i qs = (ok, []) \<Longrightarrow>
     length ok = length qs \<and> (\<forall>j < length qs. validateQuery (ck (i + j)) (qs ! j) = Inr (ok ! j))"
proof (induction ck i qs arbitrary: ok rule: validate_all.induct)
  case (2 ck i q qs)
  obtain ok' q' where "validate_all ck (Suc i) qs = (ok', [])" "validateQuery (ck i) q = Inr q'" "ok = q' # ok'"
    using 2(2) by (auto split: prod.splits sum.splits)
  with 2(1) [of ok'] show ?case by (auto simp: less_Suc_eq_0_disj)
qed simp

text \<open>
  C27. A push is all or nothing and stores only sound records: unless it is answered with
  success, nothing reaches the query ingester; a successful push hands over every pushed query,
  in order and stamped with the time of its validation, each with a query text, a known status,
  no negative sizes, and, for range queries, a positive step and a start that is not after the end.
\<close>

theorem queryPush_all_or_nothing:
  assumes "queryPush qi req ck body st = (rep, st')"
  shows "(rep \<noteq> Empty \<longrightarrow> st' = st)
       \<and> (rep = Empty \<longrightarrow> (\<exists>queries valid. body = Inr queries \<and> length valid = length queries
            \<and> st' = fold (Ingest qi) valid st
            \<and> (\<forall>i < length queries. validateQuery (ck i) (queries ! i) = Inr (valid ! i) \<and> acceptable (valid ! i)
                 \<and> q_TS (valid ! i) = fst (ck i))))"
proof (intro conjI impI)
  assume "rep = Empty"
  with assms obtain queries valid where b: "body = Inr queries" and v: "validate_all ck 0 queries = (valid, [])"
    and st': "st' = fold (Ingest qi) valid st"
    by (auto simp: queryPush_def split: if_splits sum.splits prod.splits)
  from validate_all_ok [OF v] have "length valid = length queries"
    "\<forall>i < length queries. validateQuery (ck i) (queries ! i) = Inr (valid ! i)" by simp_all
  with b st' validateQuery_acceptable show "\<exists>queries valid. body = Inr queries \<and> length valid = length queries
      \<and> st' = fold (Ingest qi) valid st
      \<and> (\<forall>i < length queries. validateQuery (ck i) (queries ! i) = Inr (valid ! i) \<and> acceptable (valid ! i)
           \<and> q_TS (valid ! i) = fst (ck i))" by blast
qed (use assms in \<open>auto simp: queryPush_def split: if_splits sum.splits prod.splits\<close>)

definition push_request :: http_request where
  "push_request = \<lparr>rq_Method = ''POST'', rq_FormValue = (\<lambda>_. []), rq_URLQuery = (\<lambda>_. []), rq_PathValue = (\<lambda>_. []), rq_Header = (\<lambda>_. [])\<rparr>"

theorem queryPush_all_or_nothing_witness:
  "\<exists>st'. queryPush small_ingester push_request (\<lambda>_. (hour, hour)) (Inr [query_at 0]) (qi_init empty_tables) = (Empty, st')
     \<and> (\<exists>q. acceptable q \<and> q_TS q = hour \<and> st' = Ingest small_ingester q (qi_init empty_tables))"
proof -
  obtain q' where "validateQuery (hour, hour) (query_at 0) = Inr q'"
    by (simp add: validateQuery_def query_at_def KnownQueryTypes_def QueryTypeRange_def QueryTypeInstant_def
        status_known_def Let_def zero_time_def duration_defs)
  then obtain st' where r: "queryPush small_ingester push_request (\<lambda>_. (hour, hour)) (Inr [query_at 0]) (qi_init empty_tables) = (Empty, st')"
    by (simp add: queryPush_def push_request_def)
  from queryPush_all_or_nothing [OF r] obtain valid where v: "length valid = 1" "st' = fold (Ingest small_ingester) valid (qi_init empty_tables)"
    "acceptable (valid ! 0)" "q_TS (valid ! 0) = hour" by auto
  then obtain q where "valid = [q]" by (auto simp: length_Suc_conv)
  with r v show ?thesis by auto
qed

section \<open>What is recorded of a proxied query\<close>

fun written :: "upstream_event \<Rightarrow> nat" where
  "written (WriteHeader c) = 0"
| "written (Write b) = length b"

fun last_status :: "int \<Rightarrow> upstream_event list \<Rightarrow> int" where
  "last_status c [] = c"
| "last_status c (WriteHeader c' # es) = last_status c' es"
| "last_status c (Write b # es) = last_status c es"

lemma serve_events:
  "rw_statusCode (fold serve_event es rw) = last_status (rw_statusCode rw) es
   \<and> length (rw_body (fold serve_event es rw)) = length (rw_body rw) + sum_list (map written es)"
proof (induction es arbitrary: rw)
  case (Cons e es)
  then show ?case by (cases e) simp_all
qed simp


definition greedy_routes :: routes where
  "greedy_routes = \<lparr>rt_includeQueryStats = True, rt_headerNames = [],
     rt_parsers = \<lparr>tp_RFC3339 = (\<lambda>_. None), tp_UnixFloat = (\<lambda>_. None), tp_Float = (\<lambda>_. 0)\<rparr>,
     rt_decoders = \<lparr>dc_json = (\<lambda>_. (Inl ''eof'', [])), dc_gzip = (\<lambda>_. (Inl ''eof'', []))\<rparr>\<rparr>"


end
