(* ===== verification/Routes_Reports.thy ===== *)
theory Routes_Reports
  imports Routes Sql_Query
begin

text \<open>
  The handlers that report and receive usage (\<open>api/routes/routes.go\<close>): analytics over a time
  window, series metadata, statistics of a metric, pushed usage, the job list and the check for
  unused metrics. The operation of the provider a handler calls is its first argument.
\<close>

section \<open>Analytics\<close>

text \<open>The window of a report; \<open>ck\<close> has the readings of the clock for a missing start and end.\<close>

definition report_window :: "text_parsers \<Rightarrow> time \<times> time \<Rightarrow> http_request \<Rightarrow> TimeRange" where
  "report_window tp ck req =
     \<lparr>tr_From = getTimeParam tp (fst ck) req ''from'', tr_To = getTimeParam tp (snd ck) req ''to''\<rparr>"

definition queryTypes ::
  "(TimeRange \<Rightarrow> string \<Rightarrow> go_error + 'd) \<Rightarrow> text_parsers \<Rightarrow> time \<times> time \<Rightarrow> time \<times> time \<Rightarrow> http_request \<Rightarrow> 'd reply" where
  "queryTypes db tp ck ck' req =
     (let tr = report_window tp ck req;
          from = (if tr_From tr = zero_time then fst ck' - 7 * 24 * hour else tr_From tr);
          to = (if tr_To tr = zero_time then snd ck' else tr_To tr)
      in respond ''unable to execute query: '' (db \<lparr>tr_From = from, tr_To = to\<rparr> (rq_FormValue req ''fingerprint'')))"

definition averageDuration ::
  "(TimeRange \<Rightarrow> string \<Rightarrow> go_error + 'd) \<Rightarrow> text_parsers \<Rightarrow> time \<times> time \<Rightarrow> http_request \<Rightarrow> 'd reply" where
  "averageDuration db tp ck req =
     respond ''unable to execute query: '' (db (report_window tp ck req) (rq_FormValue req ''fingerprint''))"

definition queryRate ::
  "(TimeRange \<Rightarrow> string \<Rightarrow> string \<Rightarrow> go_error + 'd) \<Rightarrow> text_parsers \<Rightarrow> time \<times> time \<Rightarrow> http_request \<Rightarrow> 'd reply" where
  "queryRate db tp ck req =
     respond ''unable to execute query: '' (db (report_window tp ck req) [] (rq_FormValue req ''fingerprint''))"

definition queryStatusDistribution ::
  "(TimeRange \<Rightarrow> string \<Rightarrow> go_error + 'd) \<Rightarrow> text_parsers \<Rightarrow> time \<times> time \<Rightarrow> http_request \<Rightarrow> 'd reply" where
  "queryStatusDistribution db tp ck req =
     respond ''unable to execute query: '' (db (report_window tp ck req) (rq_FormValue req ''fingerprint''))"

definition queryLatencyTrends ::
  "(TimeRange \<Rightarrow> string \<Rightarrow> string \<Rightarrow> go_error + 'd) \<Rightarrow> text_parsers \<Rightarrow> time \<times> time \<Rightarrow> http_request \<Rightarrow> 'd reply" where
  "queryLatencyTrends db tp ck req =
     respond ''unable to execute query: ''
       (db (report_window tp ck req) (rq_FormValue req ''metricName'') (rq_FormValue req ''fingerprint''))"

definition queryThroughputAnalysis ::
  "(TimeRange \<Rightarrow> go_error + 'd) \<Rightarrow> text_parsers \<Rightarrow> time \<times> time \<Rightarrow> http_request \<Rightarrow> 'd reply" where
  "queryThroughputAnalysis db tp ck req = respond ''unable to execute query: '' (db (report_window tp ck req))"

definition queryErrorAnalysis ::
  "(TimeRange \<Rightarrow> string \<Rightarrow> go_error + 'd) \<Rightarrow> text_parsers \<Rightarrow> time \<times> time \<Rightarrow> http_request \<Rightarrow> 'd reply" where
  "queryErrorAnalysis db tp ck req =
     respond ''unable to execute query: '' (db (report_window tp ck req) (rq_FormValue req ''fingerprint''))"

definition queryTimeRangeDistribution ::
  "(TimeRange \<Rightarrow> string \<Rightarrow> go_error + 'd) \<Rightarrow> text_parsers \<Rightarrow> time \<times> time \<Rightarrow> http_request \<Rightarrow> 'd reply" where
  "queryTimeRangeDistribution db tp ck req =
     respond ''unable to execute query: '' (db (report_window tp ck req) (rq_FormValue req ''fingerprint''))"

text \<open>The page parameters, read before the request is executed.\<close>

definition with_page :: "http_request \<Rightarrow> int \<Rightarrow> (int \<Rightarrow> int \<Rightarrow> 'd reply) \<Rightarrow> 'd reply" where
  "with_page req defaultSize k =
     (case getQueryParamAsInt req ''page'' 1 of
        Inl err \<Rightarrow> ErrorReply StatusBadRequest (''invalid page parameter: '' @ err)
      | Inr page \<Rightarrow>
          (case getQueryParamAsInt req ''pageSize'' defaultSize of
             Inl err \<Rightarrow> ErrorReply StatusBadRequest (''invalid pageSize parameter: '' @ err)
           | Inr pageSize \<Rightarrow> k page pageSize))"

definition queryExpressions ::
  "(QueryExpressionsParams \<Rightarrow> go_error + 'd) \<Rightarrow> text_parsers \<Rightarrow> time \<times> time \<Rightarrow> http_request \<Rightarrow> 'd reply" where
  "queryExpressions db tp ck req =
     with_page req 10 (\<lambda>page pageSize.
       respond ''unable to execute query: ''
         (db \<lparr>xp_Filter = rq_FormValue req ''filter'', xp_TimeRange = report_window tp ck req, xp_Page = page,
              xp_PageSize = pageSize, xp_SortBy = rq_FormValue req ''sortBy'', xp_SortOrder = rq_FormValue req ''sortOrder''\<rparr>))"

definition queryExecutions ::
  "(QueryExecutionsParams \<Rightarrow> go_error + 'd) \<Rightarrow> text_parsers \<Rightarrow> time \<times> time \<Rightarrow> http_request \<Rightarrow> 'd reply" where
  "queryExecutions db tp ck req =
     (let fingerprint = rq_FormValue req ''fingerprint'' in
      if fingerprint = [] then ErrorReply StatusBadRequest ''missing fingerprint parameter''
      else with_page req 10 (\<lambda>page pageSize.
        let typ = rq_FormValue req ''type'';
            typ' = (if typ \<noteq> ''instant'' \<and> typ \<noteq> ''range'' then [] else typ) in
        respond ''unable to execute query: ''
          (db \<lparr>ep_Fingerprint = fingerprint, ep_TimeRange = report_window tp ck req, ep_Type = typ', ep_Page = page,
               ep_PageSize = pageSize, ep_SortBy = rq_FormValue req ''sortBy'', ep_SortOrder = rq_FormValue req ''sortOrder''\<rparr>)))"

definition serieExpressions ::
  "(QueriesBySerieNameParams \<Rightarrow> go_error + 'd) \<Rightarrow> text_parsers \<Rightarrow> time \<times> time \<Rightarrow> http_request \<Rightarrow> 'd reply" where
  "serieExpressions db tp ck req =
     with_page req 1 (\<lambda>page pageSize.
       respond ''failed to retrieve series expressions: ''
         (db \<lparr>sp_SerieName = rq_PathValue req ''name'', sp_Filter = rq_URLQuery req ''filter'',
              sp_TimeRange = report_window tp ck req, sp_Page = page, sp_PageSize = pageSize,
              sp_SortBy = rq_URLQuery req ''sortBy'', sp_SortOrder = rq_URLQuery req ''sortOrder''\<rparr>))"

section \<open>Series metadata\<close>

definition seriesMetadata_params :: "http_request \<Rightarrow> SeriesMetadataParams" where
  "seriesMetadata_params req =
     (let sortBy = rq_FormValue req ''sortBy''; sortOrder = rq_FormValue req ''sortOrder'';
          normalizedOrder = to_lower (TrimSpace sortOrder);
          usage = rq_FormValue req ''usage''; normalizedUsage = to_lower (TrimSpace usage) in
      \<lparr>mp_Page = (case getQueryParamAsInt req ''page'' 1 of Inr page \<Rightarrow> page | Inl _ \<Rightarrow> 1),
       mp_PageSize = (case getQueryParamAsInt req ''pageSize'' 10 of
                        Inr pageSize \<Rightarrow> if pageSize < 1 then 1 else if pageSize > MaxPageSize then MaxPageSize else pageSize
                      | Inl _ \<Rightarrow> 10),
       mp_SortBy = (if sortBy \<noteq> [] then (if sortBy \<in> set ValidSeriesMetadataSortFields then sortBy else ''queryCount'') else ''queryCount''),
       mp_SortOrder = (if sortOrder \<noteq> [] then (if normalizedOrder \<in> set ValidSortDirections then normalizedOrder else ''desc'') else ''desc''),
       mp_Filter = rq_FormValue req ''filter'',
       mp_Type = rq_FormValue req ''type'',
       mp_Usage = (if usage \<noteq> []
                   then (if normalizedUsage \<in> set [''all'', ''used'', ''unused''] then normalizedUsage else ''all'')
                   else if rq_FormValue req ''unused'' = ''true'' then ''unused'' else ''all''),
       mp_Job = rq_FormValue req ''job''\<rparr>)"

definition seriesMetadata :: "(SeriesMetadataParams \<Rightarrow> go_error + 'd) \<Rightarrow> http_request \<Rightarrow> 'd reply" where
  "seriesMetadata db req = respond ''unable to retrieve series metadata: '' (db (seriesMetadata_params req))"

section \<open>Statistics of a metric\<close>

record series_api =
  sa_Series :: "string \<Rightarrow> time \<Rightarrow> time \<Rightarrow> nat \<Rightarrow> go_error + (string, string) go_map list"
  sa_LabelNames :: "string \<Rightarrow> time \<Rightarrow> time \<Rightarrow> go_error + string list"

definition job_series_count :: "(string, string) go_map list \<Rightarrow> (string, int) go_map" where
  "job_series_count series =
     fold (\<lambda>serie m. case map_of serie ''job'' of
              None \<Rightarrow> m
            | Some job \<Rightarrow> AList.update job ((case map_of m job of None \<Rightarrow> 0 | Some n \<Rightarrow> n) + 1) m) series []"

text \<open>\<open>seriesLimit\<close> is a pointer; the order of the producers is that of a map.\<close>

definition GetMetricStatistics ::
  "(string \<Rightarrow> TimeRange \<Rightarrow> go_error + MetricUsageStatics) \<Rightarrow> series_api \<Rightarrow> nat option \<Rightarrow> text_parsers \<Rightarrow> time \<times> time
   \<Rightarrow> time \<times> time \<Rightarrow> http_request \<Rightarrow> MetricUsageStatics reply" where
  "GetMetricStatistics db sa seriesLimit tp ck ck' req =
     (let name = rq_PathValue req ''name''; tr = report_window tp ck req in
      if name = [] then ErrorReply StatusBadRequest ''missing name parameter''
      else (case db name tr of
              Inl err \<Rightarrow> ErrorReply StatusInternalServerError (''unable to retrieve metric statistics: '' @ err)
            | Inr statistics \<Rightarrow>
                (case seriesLimit of
                   None \<Rightarrow> Panic
                 | Some l \<Rightarrow>
                     (case sa_Series sa name (fst ck' - 5 * minute) (snd ck') l of
                        Inl err \<Rightarrow> ErrorReply StatusInternalServerError (''unable to retrieve series data: '' @ err)
                      | Inr series \<Rightarrow>
                          (case sa_LabelNames sa name (tr_From tr) (tr_To tr) of
                             Inl err \<Rightarrow> ErrorReply StatusInternalServerError (''unable to retrieve label names: '' @ err)
                           | Inr labels \<Rightarrow>
                               JSON (statistics\<lparr>us_SerieCount := int (length series), us_LabelCount := int (length labels),
                                       us_Producers := job_series_count series\<rparr>))))))"

definition GetMetricQueryPerformanceStatistics ::
  "(TimeRange \<Rightarrow> string \<Rightarrow> string \<Rightarrow> go_error + 'r) \<Rightarrow> (string \<Rightarrow> TimeRange \<Rightarrow> go_error + 'p) \<Rightarrow> text_parsers \<Rightarrow> time \<times> time
   \<Rightarrow> http_request \<Rightarrow> ('r \<times> 'p) reply" where
  "GetMetricQueryPerformanceStatistics rate perf tp ck req =
     (let name = rq_PathValue req ''name''; tr = report_window tp ck req;
          label = ''unable to retrieve metric query performance statistics: '' in
      if name = [] then ErrorReply StatusBadRequest ''missing name parameter''
      else (case rate tr name [] of
              Inl err \<Rightarrow> ErrorReply StatusInternalServerError (label @ err)
            | Inr qrate \<Rightarrow>
                (case perf name tr of
                   Inl err \<Rightarrow> ErrorReply StatusInternalServerError (label @ err)
                 | Inr statistics \<Rightarrow> JSON (qrate, statistics))))"

section \<open>Pushed usage\<close>

record rule_ref =
  rf_GroupName :: string
  rf_Name :: string
  rf_Expression :: string

record dashboard_ref =
  df_ID :: string
  df_Name :: string
  df_URL :: string

text \<open>The sets of a metric's usage, in the order they are ranged over.\<close>

record metric_usage =
  mu_AlertRules :: "rule_ref list"
  mu_RecordingRules :: "rule_ref list"
  mu_Dashboards :: "dashboard_ref list"

definition rule_usage :: "string \<Rightarrow> string \<Rightarrow> rule_ref \<Rightarrow> RulesUsage" where
  "rule_usage name kind ref =
     \<lparr>ru_Serie = name, ru_GroupName = rf_GroupName ref, ru_Name = rf_Name ref, ru_Expression = rf_Expression ref,
      ru_Kind = kind, ru_Labels = [], ru_CreatedAt = zero_time\<rparr>"

definition dashboard_usage :: "string \<Rightarrow> dashboard_ref \<Rightarrow> DashboardUsage" where
  "dashboard_usage name ref =
     \<lparr>du_Id = df_ID ref, du_Serie = name, du_Name = df_Name ref, du_URL = df_URL ref, du_CreatedAt = zero_time\<rparr>"

text \<open>
  The loop over the pushed metrics; a value of the map is a pointer. The first arguments are the
  two writes, which may fail differently for each metric.
\<close>

fun push_usage ::
  "(string \<Rightarrow> 's \<Rightarrow> RulesUsage list \<Rightarrow> go_error option \<times> 's) \<Rightarrow> (string \<Rightarrow> 's \<Rightarrow> DashboardUsage list \<Rightarrow> go_error option \<times> 's)
   \<Rightarrow> (string \<times> metric_usage option) list \<Rightarrow> 's \<Rightarrow> unit reply \<times> 's" where
  "push_usage insR insD [] s = (Empty, s)"
| "push_usage insR insD ((name, None) # rest) s = (Panic, s)"
| "push_usage insR insD ((name, Some mu) # rest) s =
     (case insR name s (map (rule_usage name RuleUsageKindAlert) (mu_AlertRules mu) @
                        map (rule_usage name RuleUsageKindRecord) (mu_RecordingRules mu)) of
        (Some err, s1) \<Rightarrow> (ErrorReply StatusInternalServerError (''unable to insert rules usage: '' @ err), s1)
      | (None, s1) \<Rightarrow>
          (case insD name s1 (map (dashboard_usage name) (mu_Dashboards mu)) of
             (Some err, s2) \<Rightarrow> (ErrorReply StatusInternalServerError (''unable to insert dashboard usage: '' @ err), s2)
           | (None, s2) \<Rightarrow> push_usage insR insD rest s2))"

definition PushMetricsUsage where
  "PushMetricsUsage insR insD body s =
     (case body of
        Inl err \<Rightarrow> (ErrorReply StatusBadRequest (''invalid request body: '' @ err), s)
      | Inr usage \<Rightarrow> push_usage insR insD usage s)"

text \<open>The time a push may take.\<close>

definition push_timeout :: "duration option \<Rightarrow> duration" where
  "push_timeout configured = (case configured of Some d \<Rightarrow> if d > 0 then d else 10 * second | None \<Rightarrow> 10 * second)"

definition GetMetricUsage ::
  "(DashboardUsageParams \<Rightarrow> go_error + 'd) \<Rightarrow> (RulesUsageParams \<Rightarrow> go_error + 'd) \<Rightarrow> text_parsers \<Rightarrow> time \<times> time
   \<Rightarrow> http_request \<Rightarrow> 'd reply" where
  "GetMetricUsage dashboards rules tp ck req =
     (let name = rq_PathValue req ''name''; kind = rq_URLQuery req ''kind'' in
      if name = [] then ErrorReply StatusBadRequest ''missing name parameter''
      else if kind = [] then ErrorReply StatusBadRequest ''missing kind parameter''
      else (case getQueryParamAsInt req ''page'' 1 of
        Inl err \<Rightarrow> ErrorReply StatusBadRequest (''invalid page parameter: '' @ err)
      | Inr page \<Rightarrow>
          (case getQueryParamAsInt req ''pageSize'' 1 of
             Inl err \<Rightarrow> ErrorReply StatusBadRequest ''invalid pageSize parameter''
           | Inr pageSize \<Rightarrow>
               (let fltr = rq_URLQuery req ''filter''; sortBy = rq_URLQuery req ''sortBy'';
                    sortOrder = rq_URLQuery req ''sortOrder''; tr = report_window tp ck req in
                if kind = ''dashboard''
                then (case dashboards \<lparr>dp_Serie = name, dp_Page = page, dp_PageSize = pageSize, dp_Filter = fltr,
                               dp_SortBy = sortBy, dp_SortOrder = sortOrder, dp_TimeRange = tr\<rparr> of
                        Inl err \<Rightarrow> ErrorReply StatusInternalServerError ''unable to retrieve dashboard usage''
                      | Inr d \<Rightarrow> JSON d)
                else (case rules \<lparr>rp_Serie = name, rp_Kind = kind, rp_Page = page, rp_PageSize = pageSize, rp_Filter = fltr,
                               rp_SortBy = sortBy, rp_SortOrder = sortOrder, rp_TimeRange = tr\<rparr> of
                        Inl err \<Rightarrow> ErrorReply StatusInternalServerError ''unable to retrieve rules usage''
                      | Inr d \<Rightarrow> JSON d)))))"

section \<open>Jobs and unused metrics\<close>

definition routes_listJobs :: "go_error + string list \<Rightarrow> string list reply" where
  "routes_listJobs res = respond ''unable to list jobs: '' res"

text \<open>The configuration is served as YAML; \<open>yaml\<close> is the marshaller.\<close>

definition getConfigs :: "(ProxyConfig \<Rightarrow> go_error + 'd) \<Rightarrow> ProxyConfig option \<Rightarrow> 'd reply" where
  "getConfigs yaml config =
     (case config of
        None \<Rightarrow> ErrorReply StatusInternalServerError ''configuration not available''
      | Some c \<Rightarrow> respond ''failed to marshal YAML: '' (yaml (GetSanitizedConfig c)))"

text \<open>\<open>strings.Trim\<close> with the two quote characters.\<close>

definition quotes :: "char list" where "quotes = [CHR 0x22, CHR 0x27]"

definition trim_quotes :: "string \<Rightarrow> string" where
  "trim_quotes s = rev (dropWhile (\<lambda>c. c \<in> set quotes) (rev (dropWhile (\<lambda>c. c \<in> set quotes) s)))"

record UnusedMetric =
  um_Name :: string
  um_Unused :: bool
  um_AlertCount :: int
  um_RecordCount :: int
  um_DashboardCount :: int
  um_QueryCount :: int

definition unused_metric :: "MetricMetadata \<Rightarrow> UnusedMetric" where
  "unused_metric m =
     \<lparr>um_Name = mm_Name m,
      um_Unused = (mm_AlertCount m = 0 \<and> mm_RecordCount m = 0 \<and> mm_DashboardCount m = 0 \<and> mm_QueryCount m = 0),
      um_AlertCount = mm_AlertCount m, um_RecordCount = mm_RecordCount m, um_DashboardCount = mm_DashboardCount m,
      um_QueryCount = mm_QueryCount m\<rparr>"

definition metricsUnused ::
  "(string list \<Rightarrow> string \<Rightarrow> go_error + MetricMetadata list) \<Rightarrow> (string \<Rightarrow> go_error + string list) \<Rightarrow> http_request
   \<Rightarrow> UnusedMetric list reply" where
  "metricsUnused db csv req =
     (let name = rq_URLQuery req ''name'' in
      if name = [] then ErrorReply StatusBadRequest ''missing name parameter''
      else (case csv name of
              Inl err \<Rightarrow> ErrorReply StatusBadRequest (''invalid name CSV: '' @ err)
            | Inr flds \<Rightarrow>
                (let names = filter (\<lambda>n. n \<noteq> []) (map (\<lambda>f. trim_quotes (TrimSpace f)) flds) in
                 if length names = 0 then ErrorReply StatusBadRequest ''no valid names provided''
                 else if length names > 100 then ErrorReply StatusBadRequest ''too many names; max 100''
                 else (case db names (trim_quotes (TrimSpace (rq_URLQuery req ''job''))) of
                         Inl err \<Rightarrow> ErrorReply StatusInternalServerError ''unable to retrieve series metadata''
                       | Inr mm \<Rightarrow> JSON (map unused_metric mm)))))"

section \<open>Safe parameters\<close>

text \<open>
  Whatever a client sends, the database is asked for series metadata with a page size
  between 1 and \<open>MaxPageSize\<close>, a sort field and a direction from the whitelists and one of
  the three usage filters; the filters for name, type and job are passed on as they are.
\<close>

lemma seriesMetadata_params_safe:
  "(let p = seriesMetadata_params req in
      1 \<le> mp_PageSize p \<and> mp_PageSize p \<le> MaxPageSize \<and> mp_SortBy p \<in> set ValidSeriesMetadataSortFields
      \<and> mp_SortOrder p \<in> set ValidSortDirections \<and> mp_Usage p \<in> {''all'', ''used'', ''unused''}
      \<and> mp_Filter p = rq_FormValue req ''filter'' \<and> mp_Type p = rq_FormValue req ''type'' \<and> mp_Job p = rq_FormValue req ''job'')"
proof -
  have "''desc'' \<in> set ValidSortDirections" "''queryCount'' \<in> set ValidSeriesMetadataSortFields"
    by (simp_all add: ValidSortDirections_def ValidSeriesMetadataSortFields_def)
  then show ?thesis by (simp add: seriesMetadata_params_def Let_def MaxPageSize_def split: sum.split)
qed

section \<open>Pushed usage is recorded\<close>

text \<open>
  What the push relies on: a successful write records everything it was given, and no write
  forgets what was recorded.
\<close>

locale usage_recorder =
  fixes insR :: "string \<Rightarrow> 's \<Rightarrow> RulesUsage list \<Rightarrow> go_error option \<times> 's"
    and insD :: "string \<Rightarrow> 's \<Rightarrow> DashboardUsage list \<Rightarrow> go_error option \<times> 's"
    and rule_seen :: "'s \<Rightarrow> rule_key \<Rightarrow> bool"
    and dash_seen :: "'s \<Rightarrow> dash_key \<Rightarrow> bool"
  assumes rules_recorded: "insR n s rs = (None, s') \<Longrightarrow> r \<in> set rs \<Longrightarrow> rule_seen s' (rule_key_of r)"
    and rules_keep: "insR n s rs = (e, s') \<Longrightarrow> (rule_seen s k \<longrightarrow> rule_seen s' k) \<and> (dash_seen s dk \<longrightarrow> dash_seen s' dk)"
    and dashboards_recorded: "insD n s ds = (None, s') \<Longrightarrow> d \<in> set ds \<Longrightarrow> dash_seen s' (du_Id d, du_Serie d)"
    and dashboards_keep: "insD n s ds = (e, s') \<Longrightarrow> (rule_seen s k \<longrightarrow> rule_seen s' k) \<and> (dash_seen s dk \<longrightarrow> dash_seen s' dk)"
begin

text \<open>One metric of a successful push.\<close>

lemma push_step:
  assumes "push_usage insR insD ((name, mu) # us) s = (rep, s')"
  obtains "rep \<noteq> Empty" "\<And>k. rule_seen s k \<Longrightarrow> rule_seen s' k" "\<And>k. dash_seen s k \<Longrightarrow> dash_seen s' k"
  | m s1 s2 where "mu = Some m"
    "insR name s (map (rule_usage name RuleUsageKindAlert) (mu_AlertRules m) @ map (rule_usage name RuleUsageKindRecord) (mu_RecordingRules m)) = (None, s1)"
    "insD name s1 (map (dashboard_usage name) (mu_Dashboards m)) = (None, s2)" "push_usage insR insD us s2 = (rep, s')"
proof (cases mu)
  case None
  with assms that(1) show thesis by simp
next
  case (Some m)
  let ?rs = "map (rule_usage name RuleUsageKindAlert) (mu_AlertRules m) @ map (rule_usage name RuleUsageKindRecord) (mu_RecordingRules m)"
  obtain e1 s1 where r: "insR name s ?rs = (e1, s1)" by (rule prod.exhaust)
  obtain e2 s2 where d: "insD name s1 (map (dashboard_usage name) (mu_Dashboards m)) = (e2, s2)" by (rule prod.exhaust)
  show thesis
  proof (cases "e1 = None \<and> e2 = None")
    case True
    with assms r d Some show thesis by (intro that(2) [of m s1 s2]) auto
  next
    case False
    then have "rep \<noteq> Empty" "s' = (if e1 = None then s2 else s1)"
      using assms r d Some by (auto split: option.splits)
    then show thesis using rules_keep [OF r] dashboards_keep [OF d] by (intro that(1)) (auto split: if_splits)
  qed
qed

lemma push_keeps:
  "push_usage insR insD us s = (rep, s') \<Longrightarrow> (rule_seen s k \<longrightarrow> rule_seen s' k) \<and> (dash_seen s d \<longrightarrow> dash_seen s' d)"
proof (induction us arbitrary: s)
  case (Cons u us)
  obtain name mu where u: "u = (name, mu)" by (rule prod.exhaust)
  from Cons.prems [unfolded u] show ?case
  proof (cases rule: push_step)
    case 1
    then show ?thesis by blast
  next
    case (2 m s1 s2)
    with Cons.IH [of s2] rules_keep [OF 2(2)] dashboards_keep [OF 2(3)] show ?thesis by blast
  qed
qed simp

lemma push_records:
  assumes "push_usage insR insD us s = (Empty, s')" "(name, mu) \<in> set us"
  shows "\<exists>m. mu = Some m
     \<and> (\<forall>ref \<in> set (mu_AlertRules m). rule_seen s' (rule_key_of (rule_usage name RuleUsageKindAlert ref)))
     \<and> (\<forall>ref \<in> set (mu_RecordingRules m). rule_seen s' (rule_key_of (rule_usage name RuleUsageKindRecord ref)))
     \<and> (\<forall>ref \<in> set (mu_Dashboards m). dash_seen s' (df_ID ref, name))"
  using assms
proof (induction us arbitrary: s)
  case (Cons u us)
  obtain n0 mu0 where u: "u = (n0, mu0)" by (rule prod.exhaust)
  from Cons.prems(1) [unfolded u] show ?case
  proof (cases rule: push_step)
    case (2 m s1 s2)
    show ?thesis
    proof (cases "(name, mu) = u")
      case True
      have "rule_seen s2 (rule_key_of r)" if "r \<in> set (map (rule_usage n0 RuleUsageKindAlert) (mu_AlertRules m) @
          map (rule_usage n0 RuleUsageKindRecord) (mu_RecordingRules m))" for r
        using rules_recorded [OF 2(2) that] dashboards_keep [OF 2(3)] by blast
      moreover have "dash_seen s2 (df_ID ref, n0)" if "ref \<in> set (mu_Dashboards m)" for ref
        using dashboards_recorded [OF 2(3), of "dashboard_usage n0 ref"] that by (simp add: dashboard_usage_def)
      ultimately show ?thesis using True 2(1) push_keeps [OF 2(4)] by (auto simp: u)
    next
      case False
      then show ?thesis using Cons.IH [OF 2(4)] Cons.prems(2) by simp
    qed
  qed simp
qed simp

end

lemma dedup_rules_keys:
  "rule_key_of ` set (dedup_rules seen rs) = rule_key_of ` set rs - set seen"
proof (induction seen rs rule: dedup_rules.induct)
  case (2 seen r rs)
  have k: "rule_key_of (r\<lparr>ru_Labels := sort (ru_Labels r)\<rparr>) = rule_key_of r" by (simp add: rule_key_of_def sorted_sort_id)
  show ?case
  proof (cases "rule_key_of r \<in> set seen")
    case True
    then show ?thesis using 2(1) [OF refl] by auto
  next
    case False
    then show ?thesis using 2(2) [OF refl] k by auto
  qed
qed simp

lemma dedup_dashboards_keys:
  "(\<lambda>d. (du_Id d, du_Serie d)) ` snd ` set (dedup_dashboards ds) = (\<lambda>d. (du_Id d, du_Serie d)) ` set ds"
proof -
  let ?k = "\<lambda>d. (du_Id d, du_Serie d)"
  have "(\<forall>(k, d) \<in> set m. k = ?k d) \<Longrightarrow>
      (\<forall>(k, d) \<in> set (fold (\<lambda>d m. AList.update (?k d) d m) ds m). k = ?k d) \<and>
      fst ` set (fold (\<lambda>d m. AList.update (?k d) d m) ds m) = fst ` set m \<union> ?k ` set ds" for m
  proof (induction ds arbitrary: m)
    case (Cons d ds)
    have "\<forall>(k, d') \<in> set (AList.update (?k d) d m). k = ?k d'"
      using Cons.prems by (auto dest!: update_in_set)
    from Cons.IH [OF this] show ?case by (simp add: dom_update)
  qed simp
  from this [of "[]"] have k: "\<forall>(k, d) \<in> set (dedup_dashboards ds). k = ?k d"
    and "fst ` set (dedup_dashboards ds) = ?k ` set ds" by (simp_all add: dedup_dashboards_def)
  moreover have "?k ` snd ` set (dedup_dashboards ds) = fst ` set (dedup_dashboards ds)"
    unfolding image_image by (rule image_cong [OF refl]) (use k in auto)
  ultimately show ?thesis by simp
qed

text \<open>A row that was written or confirmed at a given time.\<close>

definition rule_seen_at :: "time \<Rightarrow> tables \<Rightarrow> rule_key \<Rightarrow> bool" where
  "rule_seen_at now t k \<longleftrightarrow> (\<exists>row. map_of (t_rules t) k = Some row \<and> rr_last_seen_at row = now)"

definition dash_seen_at :: "time \<Rightarrow> tables \<Rightarrow> dash_key \<Rightarrow> bool" where
  "dash_seen_at now t k \<longleftrightarrow> (\<exists>row. map_of (t_dashboards t) k = Some row \<and> dr_last_seen_at row = now)"

lemma upsert_rule_seen:
  "rule_seen_at now (upsert_rule now r t) k \<longleftrightarrow> k = rule_key_of r \<or> rule_seen_at now t k"
  by (auto simp: rule_seen_at_def upsert_rule_def Let_def split: option.split)

lemma upsert_dashboard_seen:
  "dash_seen_at now (upsert_dashboard now d t) k \<longleftrightarrow> k = (du_Id d, du_Serie d) \<or> dash_seen_at now t k"
  by (auto simp: dash_seen_at_def upsert_dashboard_def Let_def split: option.split)

lemma fold_upsert_rule_seen:
  "(rule_seen_at now (fold (upsert_rule now) rs t) k \<longleftrightarrow> k \<in> rule_key_of ` set rs \<or> rule_seen_at now t k)
   \<and> t_dashboards (fold (upsert_rule now) rs t) = t_dashboards t"
  by (induction rs arbitrary: t) (auto simp: upsert_rule_seen, simp add: upsert_rule_def Let_def)

lemma fold_upsert_dashboard_seen:
  "(dash_seen_at now (fold (upsert_dashboard now) ds t) k \<longleftrightarrow> k \<in> (\<lambda>d. (du_Id d, du_Serie d)) ` set ds \<or> dash_seen_at now t k)
   \<and> t_rules (fold (upsert_dashboard now) ds t) = t_rules t"
  by (induction ds arbitrary: t) (auto simp: upsert_dashboard_seen, simp add: upsert_dashboard_def Let_def)

lemma InsertRulesUsage_seen:
  assumes "InsertRulesUsage fl now t rs = (err, t')"
  shows "(rule_seen_at now t' k \<longleftrightarrow> err = None \<and> k \<in> rule_key_of ` set rs \<or> rule_seen_at now t k) \<and> t_dashboards t' = t_dashboards t"
proof -
  have "t' = (if err = None then fold (upsert_rule now) (dedup_rules [] rs) t else t)"
    using assms by (auto simp: InsertRulesUsage_def Let_def dest: run_tx_result split: if_splits)
  then show ?thesis using fold_upsert_rule_seen [of now "dedup_rules [] rs" t k] dedup_rules_keys [of "[]" rs] by (cases err) simp_all
qed

lemma InsertDashboardUsage_seen:
  assumes "InsertDashboardUsage fl now t ds = (err, t')"
  shows "(dash_seen_at now t' k \<longleftrightarrow> err = None \<and> k \<in> (\<lambda>d. (du_Id d, du_Serie d)) ` set ds \<or> dash_seen_at now t k)
     \<and> t_rules t' = t_rules t"
proof -
  have "t' = (if err = None then fold (upsert_dashboard now) (map snd (dedup_dashboards ds)) t else t)"
    using assms by (auto simp: InsertDashboardUsage_def Let_def dest: run_tx_result split: if_splits)
  then show ?thesis
    using fold_upsert_dashboard_seen [of now "map snd (dedup_dashboards ds)" t k] dedup_dashboards_keys [of ds]
    by (cases err) (simp_all add: image_image)
qed

interpretation sqlite_usage_recorder: usage_recorder "\<lambda>n. InsertRulesUsage (fr n) now" "\<lambda>n. InsertDashboardUsage (fd n) now"
  "rule_seen_at now" "dash_seen_at now" for fr fd now
proof (unfold_locales, goal_cases)
  case (1 n t rs t' r)
  then show ?case using InsertRulesUsage_seen [OF 1(1)] by blast
next
  case (2 n t rs e t' k dk)
  then show ?case using InsertRulesUsage_seen [OF 2] by (simp add: dash_seen_at_def)
next
  case (3 n t ds t' d)
  then show ?case using InsertDashboardUsage_seen [OF 3(1)] by blast
next
  case (4 n t ds e t' k dk)
  then show ?case using InsertDashboardUsage_seen [OF 4] by (simp add: rule_seen_at_def)
qed

text \<open>
  C26. Pushed usage is recorded: when a push is answered with success, every alert rule, recording
  rule and dashboard of every pushed metric has a row that was last seen at the time of the push.
\<close>

theorem pushed_usage_is_recorded:
  assumes "PushMetricsUsage (\<lambda>n. InsertRulesUsage (fr n) now) (\<lambda>n. InsertDashboardUsage (fd n) now) (Inr usage) t = (Empty, t')"
    and "(name, mu) \<in> set usage"
  shows "\<exists>m. mu = Some m
     \<and> (\<forall>ref \<in> set (mu_AlertRules m). rule_seen_at now t' (rule_key_of (rule_usage name RuleUsageKindAlert ref)))
     \<and> (\<forall>ref \<in> set (mu_RecordingRules m). rule_seen_at now t' (rule_key_of (rule_usage name RuleUsageKindRecord ref)))
     \<and> (\<forall>ref \<in> set (mu_Dashboards m). dash_seen_at now t' (df_ID ref, name))"
  using sqlite_usage_recorder.push_records [OF _ assms(2)] assms(1) by (simp add: PushMetricsUsage_def)

definition sample_usage :: "(string \<times> metric_usage option) list" where
  "sample_usage = [(''up'', Some \<lparr>mu_AlertRules = [\<lparr>rf_GroupName = ''g'', rf_Name = ''down'', rf_Expression = ''up == 0''\<rparr>],
     mu_RecordingRules = [], mu_Dashboards = [\<lparr>df_ID = ''d1'', df_Name = ''home'', df_URL = []\<rparr>]\<rparr>)]"

theorem pushed_usage_is_recorded_witness:
  "\<exists>t'. PushMetricsUsage (\<lambda>_. InsertRulesUsage no_faults 7) (\<lambda>_. InsertDashboardUsage no_faults 7) (Inr sample_usage) empty_tables = (Empty, t')
     \<and> dash_seen_at 7 t' (''d1'', ''up'')"
proof -
  obtain t' where r: "PushMetricsUsage (\<lambda>_. InsertRulesUsage no_faults 7) (\<lambda>_. InsertDashboardUsage no_faults 7) (Inr sample_usage) empty_tables = (Empty, t')"
    by (simp add: PushMetricsUsage_def sample_usage_def InsertRulesUsage_def InsertDashboardUsage_def Let_def dedup_dashboards_def)
  have "(''up'', snd (hd sample_usage)) \<in> set sample_usage" by (simp add: sample_usage_def)
  from pushed_usage_is_recorded [where fr = "\<lambda>_. no_faults" and fd = "\<lambda>_. no_faults", OF r this] r
  show ?thesis by (auto simp: sample_usage_def)
qed

section \<open>The check for unused metrics\<close>

text \<open>
  The API and the ingester agree: each metric the check reports is one that was asked for,
  with the verdict on which the ingester drops; and without a job filter every metric asked for
  that the catalog knows is reported.
\<close>

lemma metricsUnused_agrees:
  assumes "tables_wf t" "metricsUnused (GetSeriesMetadataByNames None t) csv req = JSON items"
    and "csv (rq_URLQuery req ''name'') = Inr flds"
  shows "(\<forall>it \<in> set items. verdict (catalog_view t) (um_Name it) = Some (um_Unused it) \<and>
            um_Name it \<in> (\<lambda>f. trim_quotes (TrimSpace f)) ` set flds)
       \<and> (trim_quotes (TrimSpace (rq_URLQuery req ''job'')) = [] \<longrightarrow>
            um_Name ` set items = {n \<in> (\<lambda>f. trim_quotes (TrimSpace f)) ` set flds. n \<noteq> [] \<and> catalog_view t n \<noteq> None})"
proof -
  define names where "names = filter (\<lambda>n. n \<noteq> []) (map (\<lambda>f. trim_quotes (TrimSpace f)) flds)"
  define job where "job = trim_quotes (TrimSpace (rq_URLQuery req ''job''))"
  obtain mm where mm: "GetSeriesMetadataByNames None t names job = Inr mm" and items: "items = map unused_metric mm"
    using assms(2,3) by (auto simp: metricsUnused_def Let_def names_def job_def split: if_splits sum.splits)
  have un: "um_Name (unused_metric m) = mm_Name m" "um_Unused (unused_metric m) = metricMetadataUnused m" for m
    by (simp_all add: unused_metric_def metricMetadataUnused_def)
  have sub: "\<exists>all. GetSeriesMetadataByNames None t names [] = Inr all \<and> set mm \<subseteq> set all"
    using mm by (auto simp: GetSeriesMetadataByNames_def split: if_splits)
  then have "m \<in> set mm \<Longrightarrow> mm_Name m \<in> set names \<and> catalog_view t (mm_Name m) = Some m" for m
    using sqlite.query_exact [OF assms(1)] by blast
  then have 1: "\<forall>it \<in> set items. verdict (catalog_view t) (um_Name it) = Some (um_Unused it) \<and> um_Name it \<in> set names"
    by (auto simp: items un verdict_def)
  have 2: "job = [] \<Longrightarrow> um_Name ` set items = {n \<in> set names. catalog_view t n \<noteq> None}"
    using sqlite.answer_names [OF assms(1)] mm by (simp add: items un image_image)
  from 1 2 show ?thesis by (auto simp: names_def job_def)
qed

lemma metricsUnused_agrees_witness:
  "\<exists>items. metricsUnused (GetSeriesMetadataByNames None sample_tables) (\<lambda>s. Inr [s])
       (push_request\<lparr>rq_URLQuery := (\<lambda>p. if p = ''name'' then ''up'' else [])\<rparr>) = JSON items
     \<and> (\<forall>it \<in> set items. verdict (catalog_view sample_tables) (um_Name it) = Some (um_Unused it))"
proof -
  let ?req = "push_request\<lparr>rq_URLQuery := (\<lambda>p. if p = ''name'' then ''up'' else [])\<rparr>"
  have "TrimSpace ''up'' = ''up''" by (rule TrimSpace_printable) simp
  then have "trim_quotes (TrimSpace ''up'') \<noteq> []" by (simp add: trim_quotes_def quotes_def)
  then obtain items where r: "metricsUnused (GetSeriesMetadataByNames None sample_tables) (\<lambda>s. Inr [s]) ?req = JSON items"
    by (simp add: metricsUnused_def GetSeriesMetadataByNames_def Let_def)
  show ?thesis by (intro exI [of _ items] conjI r) (use metricsUnused_agrees [OF sample_tables_wf r refl] in blast)
qed

end
