(* ===== verification/Pg_Store.thy ===== *)
theory Pg_Store
  imports Pg_Server Usage_Verdict Retention Routes_Reports
begin

text \<open>
  The writes of the PostgreSQL provider (\<open>internal/db/postgresql.go\<close>), its refresh of the usage
  summary and its reading of metadata by name, over the same \<open>tables\<close> as the SQLite provider: the
  schemas differ in types only. A stored time is the value of the \<open>TIMESTAMP\<close> column, so
  comparisons are of times, not of texts.

  The interfaces the other components state (inventory, usage, retention, recording) are
  interpreted on these definitions too, so what is proved of the clients holds with either
  provider.
\<close>

section \<open>Recorded queries\<close>

definition pg_stored_query :: "pg_server \<Rightarrow> Query \<Rightarrow> Query" where
  "pg_stored_query sv q = (stored_query q)\<lparr>q_TS := sv_timestamp sv (q_TS q), q_TimeParam := sv_timestamp sv (q_TimeParam q),
     q_Start := sv_timestamp sv (q_Start q), q_End := sv_timestamp sv (q_End q)\<rparr>"

record insert_faults = db_faults +
  f_close :: "go_error option"

text \<open>
  One execution of the prepared statement per query, in one transaction; it fails when the
  connection does or when a value does not fit its column. Marshalling maps of strings to JSON
  does not fail.
\<close>

fun insert_rows :: "pg_server \<Rightarrow> (nat \<Rightarrow> go_error option) \<Rightarrow> nat \<Rightarrow> Query list \<Rightarrow> tables \<Rightarrow> go_error + tables" where
  "insert_rows sv flt i [] t = Inr t"
| "insert_rows sv flt i (q # qs) t =
     (case (case flt i of Some err \<Rightarrow> Some err | None \<Rightarrow> sv_reject sv q) of
        Some err \<Rightarrow> Inl err
      | None \<Rightarrow> insert_rows sv flt (Suc i) qs (t\<lparr>t_queries := t_queries t @ [pg_stored_query sv q]\<rparr>))"

definition PgInsert :: "pg_server \<Rightarrow> insert_faults \<Rightarrow> tables \<Rightarrow> Query list \<Rightarrow> go_error option \<times> tables" where
  "PgInsert sv fl t queries =
     (if queries = [] then (None, t)
      else (case f_begin fl of
        Some err \<Rightarrow> (Some (''begin insert tx: '' @ err), t)
      | None \<Rightarrow> (case f_prepare fl of
          Some err \<Rightarrow> (Some (''prepare insert: '' @ err), t)
        | None \<Rightarrow> (case insert_rows sv (f_exec fl) 0 queries t of
            Inl err \<Rightarrow> (Some (''insert exec: '' @ err), t)
          | Inr t' \<Rightarrow> (case f_close fl of
              Some err \<Rightarrow> (Some (''insert close: '' @ err), t)
            | None \<Rightarrow> (case f_commit fl of
                Some err \<Rightarrow> (Some (''insert commit: '' @ err), t)
              | None \<Rightarrow> (None, t')))))))"

text \<open>\<open>DELETE FROM queries WHERE ts < $1\<close>; asking for the number of rows may fail afterwards.\<close>

definition PgDeleteQueriesBefore ::
  "pg_server \<Rightarrow> go_error option \<times> go_error option \<Rightarrow> tables \<Rightarrow> time \<Rightarrow> (go_error + int) \<times> tables" where
  "PgDeleteQueriesBefore sv ferr t cutoff =
     (case fst ferr of
        Some err \<Rightarrow> (Inl (''delete old queries: '' @ err), t)
      | None \<Rightarrow>
          (let keep = filter (\<lambda>q. \<not> q_TS q < sv_timestamp sv cutoff) (t_queries t);
               t' = t\<lparr>t_queries := keep\<rparr> in
           case snd ferr of
             Some err \<Rightarrow> (Inl (''get rows affected: '' @ err), t')
           | None \<Rightarrow> (Inr (int (length (t_queries t)) - int (length keep)), t')))"

section \<open>Rules, dashboards, catalog and job index\<close>

definition PgInsertRulesUsage ::
  "pg_server \<Rightarrow> db_faults \<Rightarrow> time \<Rightarrow> tables \<Rightarrow> RulesUsage list \<Rightarrow> go_error option \<times> tables" where
  "PgInsertRulesUsage sv fl now t rulesUsage =
     (let normalized = dedup_rules [] rulesUsage in
      if normalized = [] then (None, t)
      else run_tx (''failed to begin transaction: '', ''failed to prepare statement: '',
                   ''failed to execute upsert: '', ''failed to commit transaction: '')
             fl (upsert_rule (sv_timestamp sv now)) normalized t)"

definition PgInsertDashboardUsage ::
  "pg_server \<Rightarrow> db_faults \<Rightarrow> time \<Rightarrow> tables \<Rightarrow> DashboardUsage list \<Rightarrow> go_error option \<times> tables" where
  "PgInsertDashboardUsage sv fl now t dashboardUsage =
     (let dedup = dedup_dashboards dashboardUsage in
      if dedup = [] then (None, t)
      else run_tx (''failed to begin transaction: '', ''failed to prepare statement: '',
                   ''failed to execute upsert: '', ''failed to commit transaction: '')
             fl (upsert_dashboard (sv_timestamp sv now)) (map snd dedup) t)"

text \<open>\<open>NOW()\<close> is the time of the transaction.\<close>

definition PgUpsertMetricsCatalog ::
  "db_faults \<Rightarrow> time \<Rightarrow> tables \<Rightarrow> MetricCatalogItem list \<Rightarrow> go_error option \<times> tables" where
  "PgUpsertMetricsCatalog fl NOW t items =
     (if items = [] then (None, t)
      else run_tx (''begin tx: '', ''prepare: '', ''exec: '', ''commit: '') fl (upsert_catalog NOW) items t)"

definition PgUpsertMetricsJobIndex ::
  "db_faults \<Rightarrow> time \<Rightarrow> tables \<Rightarrow> MetricJobIndexItem list \<Rightarrow> go_error option \<times> tables" where
  "PgUpsertMetricsJobIndex fl NOW t items =
     (if items = [] then (None, t)
      else run_tx (''begin tx: '', ''prepare: '', ''exec: '', ''commit: '') fl (upsert_job NOW) items t)"

text \<open>\<open>ORDER BY job\<close> follows the collation of the database.\<close>

definition PgListJobs :: "pg_server \<Rightarrow> read_faults \<Rightarrow> tables \<Rightarrow> go_error + string list" where
  "PgListJobs sv fl t =
     (case rf_query fl of
        Some err \<Rightarrow> Inl (''executing query: '' @ err)
      | None \<Rightarrow> scan_rows (''scan job: '', ''iter jobs: '') fl 0
          (sort_key (sv_collate sv) (remdups (map (snd \<circ> fst) (t_jobs t)))))"

definition PgGetSeriesMetadataByNames ::
  "read_faults \<Rightarrow> tables \<Rightarrow> string list \<Rightarrow> string \<Rightarrow> go_error + MetricMetadata list" where
  "PgGetSeriesMetadataByNames fl t names job =
     (if names = [] then Inr []
      else (case rf_query fl of
              Some err \<Rightarrow> Inl (''executing query: '' @ err)
            | None \<Rightarrow> scan_rows (''scan: '', ''iter: '') fl 0
                (map (metadata_row t)
                  (filter (\<lambda>(n, c). n \<in> set names \<and> (job = '''' \<or> (n, job) \<in> fst ` set (t_jobs t))) (t_catalog t)))))"

section \<open>The usage summary\<close>

definition pg_rules_of :: "pg_server \<Rightarrow> tables \<Rightarrow> TimeRange \<Rightarrow> string \<Rightarrow> string \<Rightarrow> (rule_key \<times> rule_row) list" where
  "pg_rules_of sv t tr kind name = filter (\<lambda>((serie, k, _), row). serie = name \<and> k = kind \<and>
     pg_in_presence sv tr (rr_first_seen_at row) (rr_last_seen_at row)) (t_rules t)"

definition pg_dashboards_of :: "pg_server \<Rightarrow> tables \<Rightarrow> TimeRange \<Rightarrow> string \<Rightarrow> string list" where
  "pg_dashboards_of sv t tr name = remdups (map (fst \<circ> fst) (filter (\<lambda>((ident, serie), row). serie = name \<and>
     pg_in_presence sv tr (dr_first_seen_at row) (dr_last_seen_at row)) (t_dashboards t)))"

text \<open>\<open>labelMatchers->0->>'__name__'\<close> is the name of the first selector.\<close>

definition pg_queries_of :: "pg_server \<Rightarrow> tables \<Rightarrow> TimeRange \<Rightarrow> string \<Rightarrow> Query list" where
  "pg_queries_of sv t tr name = filter (\<lambda>q. first_metric_name q = Some name \<and> pg_in_window sv tr (q_TS q)) (t_queries t)"

definition pg_summary_of :: "pg_server \<Rightarrow> tables \<Rightarrow> TimeRange \<Rightarrow> time \<Rightarrow> string \<Rightarrow> summary_row" where
  "pg_summary_of sv t tr NOW name =
     (let qs = pg_queries_of sv t tr name in
      \<lparr>su_alert_count = int (length (pg_rules_of sv t tr ''alert'' name)),
       su_record_count = int (length (pg_rules_of sv t tr ''record'' name)),
       su_dashboard_count = int (length (pg_dashboards_of sv t tr name)),
       su_query_count = int (length qs),
       su_last_queried_at = (if qs = [] then None else Some (Max (set (map q_TS qs)))),
       su_updated_at = NOW\<rparr>)"

definition PgRefreshMetricsUsageSummary ::
  "pg_server \<Rightarrow> go_error option \<Rightarrow> time \<Rightarrow> tables \<Rightarrow> TimeRange \<Rightarrow> go_error option \<times> tables" where
  "PgRefreshMetricsUsageSummary sv ferr NOW t tr =
     (case ferr of
        Some err \<Rightarrow> (Some (''refresh summary: '' @ err), t)
      | None \<Rightarrow> (None, t\<lparr>t_summary := fold (\<lambda>(name, _) s. AList.update name (pg_summary_of sv t tr NOW name) s)
                                          (t_catalog t) (t_summary t)\<rparr>))"

section \<open>The writes keep the schema and are atomic\<close>

lemma insert_rows_all:
  "insert_rows sv flt i qs t = Inr t' \<Longrightarrow>
     t' = t\<lparr>t_queries := t_queries t @ map (pg_stored_query sv) qs\<rparr> \<and> (\<forall>q \<in> set qs. sv_reject sv q = None)"
proof (induction qs arbitrary: i t)
  case (Cons q qs)
  then have "sv_reject sv q = None" "insert_rows sv flt (Suc i) qs (t\<lparr>t_queries := t_queries t @ [pg_stored_query sv q]\<rparr>) = Inr t'"
    by (auto split: option.splits)
  with Cons.IH [OF this(2)] show ?case by simp
qed simp

lemma PgInsert_result:
  "PgInsert sv fl t qs = (err, t') \<Longrightarrow>
     (if err = None then t' = t\<lparr>t_queries := t_queries t @ map (pg_stored_query sv) qs\<rparr> \<and> (\<forall>q \<in> set qs. sv_reject sv q = None)
      else t' = t)"
  by (auto simp: PgInsert_def dest: insert_rows_all split: if_splits option.splits sum.splits)

lemma PgUpsertMetricsCatalog_same [simp]: "PgUpsertMetricsCatalog = UpsertMetricsCatalog"
  by (simp add: fun_eq_iff PgUpsertMetricsCatalog_def UpsertMetricsCatalog_def)

lemma PgUpsertMetricsJobIndex_same [simp]: "PgUpsertMetricsJobIndex = UpsertMetricsJobIndex"
  by (simp add: fun_eq_iff PgUpsertMetricsJobIndex_def UpsertMetricsJobIndex_def)

lemma PgInsertRulesUsage_same [simp]: "PgInsertRulesUsage sv fl now = InsertRulesUsage fl (sv_timestamp sv now)"
  by (simp add: fun_eq_iff PgInsertRulesUsage_def InsertRulesUsage_def)

lemma PgInsertDashboardUsage_same [simp]: "PgInsertDashboardUsage sv fl now = InsertDashboardUsage fl (sv_timestamp sv now)"
  by (simp add: fun_eq_iff PgInsertDashboardUsage_def InsertDashboardUsage_def)

lemma PgGetSeriesMetadataByNames_healthy: "PgGetSeriesMetadataByNames no_read_faults = GetSeriesMetadataByNames None"
  by (simp add: fun_eq_iff PgGetSeriesMetadataByNames_def GetSeriesMetadataByNames_def)

lemma PgGetSeriesMetadataByNames_Inr:
  assumes "PgGetSeriesMetadataByNames fl t names job = Inr ms"
  shows "GetSeriesMetadataByNames None t names job = Inr ms"
proof -
  have "PgGetSeriesMetadataByNames no_read_faults t names job = Inr ms"
    using assms by (auto simp: PgGetSeriesMetadataByNames_def split: if_splits option.splits dest!: scan_rows_Inr)
  then show ?thesis by (simp add: PgGetSeriesMetadataByNames_healthy)
qed

inductive pg_step :: "pg_server \<Rightarrow> tables \<Rightarrow> tables \<Rightarrow> bool" for sv where
  pg_catalog: "PgUpsertMetricsCatalog fl NOW t items = (err, t') \<Longrightarrow> pg_step sv t t'"
| pg_jobs: "PgUpsertMetricsJobIndex fl NOW t jobs = (err, t') \<Longrightarrow> pg_step sv t t'"
| pg_insert: "PgInsert sv ifl t queries = (err, t') \<Longrightarrow> pg_step sv t t'"
| pg_rules: "PgInsertRulesUsage sv fl now t rules = (err, t') \<Longrightarrow> pg_step sv t t'"
| pg_dashboards: "PgInsertDashboardUsage sv fl now t dashboards = (err, t') \<Longrightarrow> pg_step sv t t'"
| pg_refresh: "PgRefreshMetricsUsageSummary sv ferr NOW t tr = (err, t') \<Longrightarrow> pg_step sv t t'"
| pg_delete: "PgDeleteQueriesBefore sv ferrs t cutoff = (res, t') \<Longrightarrow> pg_step sv t t'"

lemma pg_step_wf: "pg_step sv t t' \<Longrightarrow> tables_wf t \<Longrightarrow> tables_wf t'"
proof (induction rule: pg_step.induct)
  case (pg_catalog fl NOW t items err t')
  then show ?case using db_step_wf [OF step_catalog] by simp
next
  case (pg_jobs fl NOW t jobs err t')
  then show ?case using db_step_wf [OF step_jobs] by simp
next
  case (pg_insert ifl t queries err t')
  then show ?case using PgInsert_result [OF pg_insert(1)] by (auto split: if_splits)
next
  case (pg_rules fl now t rules err t')
  then show ?case using db_step_wf [OF step_rules] by simp
next
  case (pg_dashboards fl now t dashboards err t')
  then show ?case using db_step_wf [OF step_dashboards] by simp
next
  case (pg_refresh ferr NOW t tr err t')
  then show ?case by (auto simp: PgRefreshMetricsUsageSummary_def refresh_wf split: option.splits)
next
  case (pg_delete ferrs t cutoff res t')
  then show ?case by (auto simp: PgDeleteQueriesBefore_def Let_def split: option.splits)
qed

text \<open>
  The PostgreSQL provider keeps the constraints of the schema and writes atomically: after any
  sequence of writes with failures anywhere, keys are unique and the usage summary stays within
  the catalog; and a write that reports an error has changed nothing, except a deletion whose
  row count could not be read.
\<close>

lemma pg_writes_keep_schema:
  assumes "(pg_step sv)\<^sup>*\<^sup>* empty_tables t"
  shows "tables_wf t
       \<and> (fst (PgUpsertMetricsCatalog fl NOW t items) \<noteq> None \<longrightarrow> snd (PgUpsertMetricsCatalog fl NOW t items) = t)
       \<and> (fst (PgUpsertMetricsJobIndex fl NOW t jobs) \<noteq> None \<longrightarrow> snd (PgUpsertMetricsJobIndex fl NOW t jobs) = t)
       \<and> (fst (PgInsert sv ifl t queries) \<noteq> None \<longrightarrow> snd (PgInsert sv ifl t queries) = t)
       \<and> (fst (PgInsertRulesUsage sv fl now t rules) \<noteq> None \<longrightarrow> snd (PgInsertRulesUsage sv fl now t rules) = t)
       \<and> (fst (PgInsertDashboardUsage sv fl now t ds) \<noteq> None \<longrightarrow> snd (PgInsertDashboardUsage sv fl now t ds) = t)
       \<and> (fst (PgRefreshMetricsUsageSummary sv ferr NOW t tr) \<noteq> None \<longrightarrow> snd (PgRefreshMetricsUsageSummary sv ferr NOW t tr) = t)
       \<and> (isl (fst (PgDeleteQueriesBefore sv (ferr, None) t cutoff)) \<longrightarrow> snd (PgDeleteQueriesBefore sv (ferr, None) t cutoff) = t)"
proof -
  have "tables_wf t" using assms
  proof (induction rule: rtranclp_induct)
    case base
    show ?case by (simp add: tables_wf_def empty_tables_def map_wf_def)
  next
    case (step t t')
    then show ?case using pg_step_wf by blast
  qed
  moreover have "fst (PgInsert sv ifl t queries) \<noteq> None \<Longrightarrow> snd (PgInsert sv ifl t queries) = t"
    using PgInsert_result [OF prod.collapse [symmetric], of sv ifl t queries] by simp
  ultimately show ?thesis
    by (intro conjI impI)
      (auto simp: PgUpsertMetricsCatalog_def PgUpsertMetricsJobIndex_def PgInsertRulesUsage_def PgInsertDashboardUsage_def
        PgRefreshMetricsUsageSummary_def PgDeleteQueriesBefore_def Let_def
        simp del: PgUpsertMetricsCatalog_same PgUpsertMetricsJobIndex_same PgInsertRulesUsage_same PgInsertDashboardUsage_same
        intro!: run_tx_atomic split: if_splits option.splits)
qed

definition no_insert_faults :: insert_faults where
  "no_insert_faults = \<lparr>f_begin = None, f_prepare = None, f_exec = (\<lambda>_. None), f_commit = None, f_close = None\<rparr>"

text \<open>A query whose sample count exceeds an \<open>INTEGER\<close>.\<close>

definition heavy_query :: Query where
  "heavy_query = (query_at 0)\<lparr>q_TotalQueryableSamples := 2 ^ 31\<rparr>"

lemma pg_writes_keep_schema_witness:
  "fst (PgInsert sample_server no_insert_faults empty_tables [query_at 0, heavy_query]) = Some ''insert exec: pq: value out of range''
   \<and> snd (PgInsert sample_server no_insert_faults empty_tables [query_at 0, heavy_query]) = empty_tables"
proof -
  have f: "fst (PgInsert sample_server no_insert_faults empty_tables [query_at 0, heavy_query]) = Some ''insert exec: pq: value out of range''"
    by (simp add: PgInsert_def no_insert_faults_def heavy_query_def query_at_def sample_server_def fits_columns_def)
  with pg_writes_keep_schema [OF rtranclp.rtrancl_refl [of "pg_step sample_server"], where queries = "[query_at 0, heavy_query]" and ifl = no_insert_faults]
  show ?thesis by simp
qed

section \<open>The interfaces\<close>

interpretation pg_metadata: metadata_source tables_wf "\<lambda>t names. PgGetSeriesMetadataByNames fl t names []" catalog_view for fl
  by unfold_locales
    (auto dest!: PgGetSeriesMetadataByNames_Inr dest: sqlite.query_distinct sqlite.query_exact sqlite.view_name)

interpretation pg_queries: query_store "PgInsert sv" t_queries "pg_stored_query sv" "\<lambda>q. sv_reject sv q = None" for sv
  by unfold_locales (auto dest!: PgInsert_result)

definition pg_expired :: "pg_server \<Rightarrow> time \<Rightarrow> Query \<Rightarrow> bool" where
  "pg_expired sv cutoff q \<longleftrightarrow> q_TS q < sv_timestamp sv cutoff"

interpretation pg_retention: retention_store "\<lambda>f. PgDeleteQueriesBefore sv (f, None)" t_queries "pg_expired sv" for sv
proof
  fix s cutoff
  show "\<exists>s'. PgDeleteQueriesBefore sv (None, None) s cutoff = (Inr (int (length (filter (pg_expired sv cutoff) (t_queries s)))), s') \<and>
      t_queries s' = filter (\<lambda>q. \<not> pg_expired sv cutoff q) (t_queries s)"
    by (simp add: removed_count PgDeleteQueriesBefore_def Let_def pg_expired_def [abs_def])
qed (simp add: PgDeleteQueriesBefore_def)

interpretation pg_usage_recorder: usage_recorder "\<lambda>n. PgInsertRulesUsage sv (fr n) now" "\<lambda>n. PgInsertDashboardUsage sv (fd n) now"
  "rule_seen_at (sv_timestamp sv now)" "dash_seen_at (sv_timestamp sv now)" for sv fr fd now
  unfolding PgInsertRulesUsage_same PgInsertDashboardUsage_same by unfold_locales

definition pg_sync_store :: "pg_server \<Rightarrow> time \<Rightarrow> (db_faults, tables) sync_store" where
  "pg_sync_store sv NOW =
     \<lparr>ss_UpsertMetricsCatalog = (\<lambda>f. PgUpsertMetricsCatalog f NOW),
      ss_RefreshMetricsUsageSummary = (\<lambda>f. PgRefreshMetricsUsageSummary sv (f_exec f 0) NOW),
      ss_UpsertMetricsJobIndex = (\<lambda>f. PgUpsertMetricsJobIndex f NOW)\<rparr>"

text \<open>The evidence of use in a window, ends included.\<close>

definition pg_uses_metric :: "pg_server \<Rightarrow> tables \<Rightarrow> TimeRange \<Rightarrow> string \<Rightarrow> bool" where
  "pg_uses_metric sv t tr n \<longleftrightarrow>
     (\<exists>((serie, kind, _), row) \<in> set (t_rules t). serie = n \<and> kind \<in> {RuleUsageKindAlert, RuleUsageKindRecord} \<and>
        pg_in_presence sv tr (rr_first_seen_at row) (rr_last_seen_at row))
   \<or> (\<exists>((_, serie), row) \<in> set (t_dashboards t). serie = n \<and> pg_in_presence sv tr (dr_first_seen_at row) (dr_last_seen_at row))
   \<or> (\<exists>q \<in> set (t_queries t). first_metric_name q = Some n \<and> pg_in_window sv tr (q_TS q))"

lemma pg_uses_metric_iff:
  "pg_uses_metric sv t tr n \<longleftrightarrow> \<not> (pg_rules_of sv t tr ''alert'' n = [] \<and> pg_rules_of sv t tr ''record'' n = []
     \<and> pg_dashboards_of sv t tr n = [] \<and> pg_queries_of sv t tr n = [])"
  unfolding pg_uses_metric_def pg_rules_of_def pg_dashboards_of_def pg_queries_of_def RuleUsageKindAlert_def RuleUsageKindRecord_def
  by (simp add: filter_empty_conv) fastforce

lemma pg_refresh_lookup:
  assumes "PgRefreshMetricsUsageSummary sv ferr NOW t tr = (None, t')"
  shows "t' = t\<lparr>t_summary := t_summary t'\<rparr>"
    "map_of (t_summary t') n = (if n \<in> catalog_keys t then Some (pg_summary_of sv t tr NOW n) else map_of (t_summary t) n)"
proof -
  have t': "t' = t\<lparr>t_summary := fold (\<lambda>(name, _) s. AList.update name (pg_summary_of sv t tr NOW name) s) (t_catalog t) (t_summary t)\<rparr>"
    using assms by (auto simp: PgRefreshMetricsUsageSummary_def split: option.splits)
  show "t' = t\<lparr>t_summary := t_summary t'\<rparr>"
    "map_of (t_summary t') n = (if n \<in> catalog_keys t then Some (pg_summary_of sv t tr NOW n) else map_of (t_summary t) n)"
    by (simp_all add: t' fold_update_lookup catalog_keys_def)
qed

lemma pg_refresh_verdict:
  assumes "PgRefreshMetricsUsageSummary sv ferr NOW t tr = (None, t')" "n \<in> catalog_keys t"
  shows "\<exists>mm. catalog_view t' n = Some mm \<and> (metricMetadataUnused mm \<longleftrightarrow> \<not> pg_uses_metric sv t tr n)"
proof -
  obtain c where c: "map_of (t_catalog t) n = Some c"
    using assms(2) by (metis catalog_keys_def map_of_eq_None_iff not_None_eq)
  obtain su where t': "t' = t\<lparr>t_summary := su\<rparr>" using pg_refresh_lookup(1) [OF assms(1)] by blast
  have "map_of su n = Some (pg_summary_of sv t tr NOW n)" using pg_refresh_lookup(2) [OF assms(1), of n] assms(2) by (simp add: t')
  then show ?thesis
    using c pg_uses_metric_iff [of sv t tr n]
    by (auto simp: t' catalog_view_def metadata_row_def pg_summary_of_def Let_def metricMetadataUnused_def)
qed

lemma pg_uses_metric_cong:
  "t_rules t' = t_rules t \<Longrightarrow> t_dashboards t' = t_dashboards t \<Longrightarrow> t_queries t' = t_queries t \<Longrightarrow> pg_uses_metric sv t' = pg_uses_metric sv t"
  by (simp add: fun_eq_iff pg_uses_metric_def)

interpretation pg_usage: usage_inventory "pg_sync_store sv NOW" catalog_keys job_keys t_summary catalog_view "pg_uses_metric sv"
  for sv NOW
proof (unfold_locales, goal_cases)
  case (1 f t items t')
  then show ?case using sqlite_inventory.catalog_ok [of undefined NOW f t items t'] by (simp add: pg_sync_store_def sqlite_sync_store_def)
next
  case (2 f t items e t')
  then show ?case using sqlite_inventory.catalog_failed [of undefined NOW f t items e t'] by (simp add: pg_sync_store_def sqlite_sync_store_def)
next
  case (3 f t tr err t')
  then show ?case
    by (auto simp: pg_sync_store_def PgRefreshMetricsUsageSummary_def catalog_keys_def job_keys_def split: option.splits)
next
  case (4 f t tr e t')
  then show ?case by (auto simp: pg_sync_store_def PgRefreshMetricsUsageSummary_def split: option.splits)
next
  case (5 f t jobs t')
  then show ?case using sqlite_inventory.index_ok [of undefined NOW f t jobs t'] by (simp add: pg_sync_store_def sqlite_sync_store_def)
next
  case (6 f t jobs e t')
  then show ?case using sqlite_inventory.index_failed [of undefined NOW f t jobs e t'] by (simp add: pg_sync_store_def sqlite_sync_store_def)
next
  case (7 f t items t')
  then show ?case
    using UpsertMetricsCatalog_result [of f NOW t items None t'] fold_upsert_catalog_evidence [of NOW items t]
    by (intro pg_uses_metric_cong) (simp_all add: pg_sync_store_def)
next
  case (8 f t jobs t')
  then show ?case using sqlite_usage.view_index [of undefined NOW f t jobs t'] by (simp add: pg_sync_store_def sqlite_sync_store_def)
next
  case (9 f t tr t' n)
  then show ?case by (intro pg_refresh_verdict) (simp_all add: pg_sync_store_def)
next
  case (10 t n)
  show ?case by (rule sqlite_usage.view_catalog)
qed

section \<open>What the interfaces give\<close>

text \<open>
  C10. The two providers agree on what is used: over the same tables, with windows in years of
  four digits, a metric has evidence of use for one exactly when it has for the other, unless
  a query or a first sighting falls exactly on the second that ends the window, which only
  PostgreSQL counts.
\<close>

theorem providers_agree_on_usage:
  assumes "documented sv" "driver_text ct" "four_digit_years (tr_From tr)" "four_digit_years (tr_To tr)"
    and "\<forall>q \<in> set (t_queries t). four_digit_years (q_TS q) \<and> q_TS q \<noteq> whole_second (tr_To tr)"
    and "\<forall>(k, row) \<in> set (t_rules t). four_digit_years (rr_first_seen_at row) \<and> four_digit_years (rr_last_seen_at row)
       \<and> rr_first_seen_at row \<noteq> whole_second (tr_To tr)"
    and "\<forall>(k, row) \<in> set (t_dashboards t). four_digit_years (dr_first_seen_at row) \<and> four_digit_years (dr_last_seen_at row)
       \<and> dr_first_seen_at row \<noteq> whole_second (tr_To tr)"
  shows "pg_uses_metric sv t tr n \<longleftrightarrow> uses_metric ct t tr n"
proof -
  have whole: "whole_second u \<le> x \<longleftrightarrow> u div second \<le> x div second" "x \<noteq> whole_second u \<Longrightarrow> x \<le> whole_second u \<longleftrightarrow> x div second < u div second"
    for x u :: time
  proof -
    define a b c where "a = u div second" and "b = x div second" and "c = x mod second"
    have x: "x = b * 1000000000 + c" "0 \<le> c" "c < 1000000000"
      using div_mult_mod_eq [of x second] by (simp_all add: b_def c_def duration_defs)
    show "whole_second u \<le> x \<longleftrightarrow> u div second \<le> x div second" "x \<noteq> whole_second u \<Longrightarrow> x \<le> whole_second u \<longleftrightarrow> x div second < u div second"
      unfolding whole_second_def a_def [symmetric] b_def [symmetric] using x by (auto simp: duration_defs)
  qed
  have w: "pg_in_window sv tr ts \<longleftrightarrow> in_window ct tr ts" if "four_digit_years ts" "ts \<noteq> whole_second (tr_To tr)" for ts
    using that by (simp add: pg_in_window_times [OF assms(1,3,4)] in_window_times [OF assms(2) _ assms(3,4)] whole)
  have p: "pg_in_presence sv tr a b \<longleftrightarrow> in_presence ct tr a b" if "four_digit_years a" "four_digit_years b" "a \<noteq> whole_second (tr_To tr)" for a b
    using that by (simp add: pg_in_presence_times [OF assms(1,3,4)] in_presence_times [OF assms(2) _ _ assms(3,4)] whole)
  show ?thesis
    unfolding pg_uses_metric_def uses_metric_def rule_uses_def dashboard_uses_def query_uses_def
    using assms(5-7) by (intro arg_cong2 [where f = "(\<or>)"] bex_cong refl) (auto simp: w p)
qed

text \<open>
  C12. On PostgreSQL retention is exact: of the queries recorded, a run keeps those not older than
  the configured age and removes those older by more than a microsecond; after any number of
  runs, failing or not, exactly the queries stay that no successful run removed.
\<close>

theorem pg_retention_exact:
  fixes runs :: "(time \<times> go_error option) list"
  assumes "documented sv" "NewWorker config = Inr w" "t_queries t = map (pg_stored_query sv) qs"
  defines "left \<equiv> t_queries (runLoop (\<lambda>f. PgDeleteQueriesBefore sv (f, None)) w runs t)"
  shows "left = filter (\<lambda>q. \<forall>now. (now, None) \<in> set runs \<longrightarrow> sv_timestamp sv (now + duration_neg (w_queriesMaxAge w)) \<le> q_TS q) (t_queries t)
       \<and> (\<forall>q \<in> set qs. (\<forall>now. (now, None) \<in> set runs \<longrightarrow> now + duration_neg (w_queriesMaxAge w) \<le> q_TS q) \<longrightarrow> pg_stored_query sv q \<in> set left)
       \<and> (\<forall>q \<in> set qs. \<forall>now. (now, None) \<in> set runs \<longrightarrow> q_TS q + microsecond < now + duration_neg (w_queriesMaxAge w) \<longrightarrow> pg_stored_query sv q \<notin> set left)"
proof -
  have left: "left = filter (\<lambda>q. \<forall>now. (now, None) \<in> set runs \<longrightarrow> sv_timestamp sv (now + duration_neg (w_queriesMaxAge w)) \<le> q_TS q) (t_queries t)"
    unfolding left_def using pg_retention.runLoop_contents [of w sv runs t] NewWorker_positive [OF assms(2)]
    by (simp add: pg_expired_def not_less)
  have ts: "q_TS (pg_stored_query sv q) = sv_timestamp sv (q_TS q)" for q by (simp add: pg_stored_query_def)
  have "sv_timestamp sv u < sv_timestamp sv c" if "u + microsecond < c" for u c
    using documentedD(2) [OF assms(1), of u] documentedD(2) [OF assms(1), of c] that by (simp add: microsecond_def)
  then show ?thesis
    using timestamp_mono [OF assms(1)] by (fastforce simp: left ts assms(3) not_le)
qed

text \<open>
  C11. On PostgreSQL a query whose counts do not fit the columns takes its batch with it: in every
  interleaving of handlers, goroutine and shutdown, with inserts failing at will, the table
  holds exactly the accepted batches, in order; every query in them has a status within 16 bits
  and sizes and sample counts within 32; and each submitted query is queued, batched, accepted,
  refused or counted as dropped.
\<close>

theorem pg_batches_fit_columns:
  assumes "documented sv" "(qi_step qi pq (PgInsert sv))\<^sup>*\<^sup>* (qi_init t) st"
  shows "t_queries (qs_store st) = t_queries t @ map (pg_stored_query sv) (concat (qs_accepted st))
       \<and> (\<forall>b \<in> set (qs_accepted st). \<forall>q \<in> set b. fits_columns q)
       \<and> image_mset core (mset (qs_submitted st)) =
           image_mset core (mset (qs_chan st @ qs_batch st @ concat (qs_accepted st) @ concat (qs_refused st) @
             qs_droppedClosed st @ qs_droppedBlocked st))"
  using qi_reachable [OF assms(2)] pg_queries.reachable_tracks [OF assms(2)] documentedD(4) [OF assms(1)]
  unfolding balanced_def qs_all_def pg_queries.tracks_def by auto


section \<open>Examples\<close>

theorem providers_agree_on_usage_witness:
  "pg_uses_metric sample_server (empty_tables\<lparr>t_queries := [query_at 0]\<rparr>) \<lparr>tr_From = 0, tr_To = hour\<rparr> ''up''"
proof -
  let ?t = "empty_tables\<lparr>t_queries := [query_at 0]\<rparr>" and ?tr = "\<lparr>tr_From = 0, tr_To = hour\<rparr>"
  have y: "four_digit_years 0" "four_digit_years hour" by (simp_all add: four_digit_years_iff day_def duration_defs)
  have "in_window utc_text ?tr 0"
    by (subst in_window_times [OF driver_text_utc]) (simp_all add: y, simp add: duration_defs)
  then have "uses_metric utc_text ?t ?tr ''up''"
    by (simp add: uses_metric_def query_uses_def first_metric_name_def query_at_def)
  moreover have "0 \<noteq> whole_second hour" by (simp add: whole_second_def duration_defs)
  ultimately show ?thesis
    using providers_agree_on_usage [OF documented_sample driver_text_utc, of ?tr ?t "''up''"] y by (simp add: empty_tables_def)
qed

theorem pg_retention_exact_witness:
  "t_queries (runLoop (\<lambda>f. PgDeleteQueriesBefore sample_server (f, None))
        \<lparr>w_interval = hour, w_runTimeout = 5 * minute, w_queriesMaxAge = 30 * 24 * hour\<rparr> [(60 * 24 * hour, None)]
        (empty_tables\<lparr>t_queries := map (pg_stored_query sample_server) [query_at (30 * 24 * hour - second), query_at (30 * 24 * hour)]\<rparr>))
   = [pg_stored_query sample_server (query_at (30 * 24 * hour))]"
proof -
  let ?qs = "[query_at (30 * 24 * hour - second), query_at (30 * 24 * hour)]"
  let ?t = "empty_tables\<lparr>t_queries := map (pg_stored_query sample_server) ?qs\<rparr>"
  let ?w = "\<lparr>w_interval = hour, w_runTimeout = 5 * minute, w_queriesMaxAge = 30 * 24 * hour\<rparr>"
  have w: "NewWorker (Some DefaultConfig) = Inr ?w"
    by (simp add: NewWorker_def DefaultConfig_def duration_defs)
  have ts: "q_TS (pg_stored_query sample_server q) = (q_TS q + 500) div 1000 * 1000" for q
    by (simp add: pg_stored_query_def sample_server_def microsecond_def)
  have "t_queries (runLoop (\<lambda>f. PgDeleteQueriesBefore sample_server (f, None)) ?w [(60 * 24 * hour, None)] ?t)
      = filter (\<lambda>q. \<forall>now. (now, None) \<in> set [(60 * 24 * hour, None :: go_error option)] \<longrightarrow>
          sv_timestamp sample_server (now + duration_neg (w_queriesMaxAge ?w)) \<le> q_TS q) (t_queries ?t)"
    using pg_retention_exact [OF documented_sample w, of ?t ?qs "[(60 * 24 * hour, None)]"] by simp
  then show ?thesis
    by (simp add: ts) (simp add: sample_server_def microsecond_def duration_defs duration_neg_def minDuration_def)
qed

theorem pg_batches_fit_columns_witness:
  "\<exists>st. (qi_step small_ingester sample_promql (PgInsert sample_server))\<^sup>*\<^sup>* (qi_init empty_tables) st
     \<and> qs_refused st = [[heavy_query]] \<and> t_queries (qs_store st) = []"
proof -
  let ?s = "qi_step small_ingester sample_promql (PgInsert sample_server)"
  define s1 where "s1 = Ingest small_ingester heavy_query (qi_init empty_tables)"
  define s2 where "s2 = run_shutdown small_ingester (PgInsert sample_server no_insert_faults) s1"
  have qi: "qi_bufferSize small_ingester = Some 1" "qi_batchSize small_ingester = 10"
    by (simp_all add: small_ingester_def NewQueryIngester_def)
  have "?s (qi_init empty_tables) s1" unfolding s1_def by (rule submit)
  moreover have "?s s1 s2" unfolding s2_def
    by (rule shutdown) (simp add: s1_def Ingest_def qi_init_def qi)
  ultimately have r: "?s\<^sup>*\<^sup>* (qi_init empty_tables) s2"
    by (rule converse_rtranclp_into_rtranclp [OF _ r_into_rtranclp])
  have "sv_reject sample_server heavy_query \<noteq> None" by (simp add: sample_server_def heavy_query_def fits_columns_def)
  then have "qs_accepted s2 = []" "qs_refused s2 = [[heavy_query]]"
    by (auto simp: s2_def s1_def run_shutdown_def drainWithGracePeriod_def add_to_batch_def ingest_def PgInsert_def no_insert_faults_def
        Ingest_def qi_init_def qi Let_def)
  with pg_batches_fit_columns [OF documented_sample r] r show ?thesis by (intro exI [of _ s2]) (simp add: empty_tables_def)
qed

lemma pg_sample_run:
  assumes "t_catalog t = []" "t_summary t = []"
  shows "\<exists>c su. Syncer_runOnce two_jobs (pg_sync_store sample_server 0) id (map (\<lambda>j. (j, no_faults))) sample_syncer
      (no_faults, no_faults) sample_clock t = (True, t\<lparr>t_catalog := [(''up'', c)], t_summary := [(''up'', su)]\<rparr>)"
  using assms
  by (simp add: Syncer_runOnce_def syncCatalogAndSummary_def sample_syncer_def syncMetadataCatalog_def two_jobs_def
        pg_sync_store_def UpsertMetricsCatalog_def metadata_items_def PgRefreshMetricsUsageSummary_def Let_def no_faults_def
        run_tx_no_faults [unfolded no_faults_def] upsert_catalog_def) (rule exI, rule exI, rule refl)


end
