(* ===== verification/Pg_Reads.thy ===== *)
theory Pg_Reads
  imports Pg_Store
begin

text \<open>
  The listings of the PostgreSQL provider (\<open>internal/db/postgresql.go\<close>): series metadata, and the
  rules and dashboards that use a metric. The statements end in an \<open>ORDER BY\<close> clause built as a
  text. For series metadata field and direction come from white lists; for rules and dashboards
  the direction is the client's text in upper case. What the server does with a direction other
  than \<open>ASC\<close> and \<open>DESC\<close> is the argument \<open>answer\<close>: the rows it returns for the end of the
  statement, from \<open>ORDER BY\<close> on. Go's \<open>strings.ToUpper\<close> is the argument \<open>upper\<close>.
\<close>

section \<open>Order\<close>

definition nulls_last :: "string \<Rightarrow> ('a \<Rightarrow> sql_value) \<Rightarrow> 'a \<Rightarrow> 'a \<Rightarrow> bool" where
  "nulls_last dir key x y \<longleftrightarrow> key y = Null \<or> (key x \<noteq> Null \<and> key_order dir key x y)"

lemma nulls_last_preorder: "total_preorder (nulls_last dir key)"
  using key_order_preorder [of dir key] unfolding total_preorder_def nulls_last_def by blast

lemma nulls_last_key: "(\<And>x. key x \<noteq> Null) \<Longrightarrow> nulls_last dir key = key_order dir key"
  by (simp add: nulls_last_def fun_eq_iff)

section \<open>Series metadata\<close>

definition pg_metadata_key :: "pg_server \<Rightarrow> string \<Rightarrow> MetricMetadata \<Rightarrow> sql_value" where
  "pg_metadata_key sv f m =
     (if f = ''name'' then Text (sv_collate sv (mm_Name m)) else if f = ''type'' then Text (sv_collate sv (mm_Type m))
      else if f = ''help'' then Text (sv_collate sv (mm_Help m)) else if f = ''unit'' then Text (sv_collate sv (mm_Unit m))
      else if f = ''alertCount'' then Num (real_of_int (mm_AlertCount m))
      else if f = ''recordCount'' then Num (real_of_int (mm_RecordCount m))
      else if f = ''dashboardCount'' then Num (real_of_int (mm_DashboardCount m))
      else Num (real_of_int (mm_QueryCount m)))"

definition PgGetSeriesMetadata ::
  "pg_server \<Rightarrow> read_faults \<Rightarrow> ((MetricMetadata \<Rightarrow> MetricMetadata \<Rightarrow> bool) \<Rightarrow> MetricMetadata list \<Rightarrow> MetricMetadata list)
   \<Rightarrow> tables \<Rightarrow> SeriesMetadataParams \<Rightarrow> go_error + MetricMetadata PagedResult" where
  "PgGetSeriesMetadata sv fl srt t params0 =
     (let params = metadata_defaults params0 in
      case rf_count fl of
        Some err \<Rightarrow> Inl (''count: '' @ err)
      | None \<Rightarrow>
          (let totalCount = int (length (filter (metadata_matches (ilike_filter sv) params t) (t_catalog t))) in
           if totalCount = 0 then Inr \<lparr>pr_TotalPages = 0, pr_Total = 0, pr_Data = []\<rparr>
           else (case rf_query fl of
                   Some err \<Rightarrow> Inl (''select: '' @ err)
                 | None \<Rightarrow>
                     (let (sortBy, sortOrder) = ValidateSortField (mp_SortBy params) (mp_SortOrder params)
                                                  ValidSeriesMetadataSortFields ''queryCount'';
                          rows = srt (nulls_last sortOrder (pg_metadata_key sv sortBy))
                                   (map (metadata_row t) (filter (metadata_matches (ilike_filter2 sv) params t) (t_catalog t)))
                      in case scan_rows (''scan: '', ''iter: '') fl 0
                                (page_of (mp_Page params) (mp_PageSize params) rows) of
                           Inl err \<Rightarrow> Inl err
                         | Inr results \<Rightarrow> Inr \<lparr>pr_TotalPages = pages_of totalCount (mp_PageSize params),
                                              pr_Total = totalCount, pr_Data = results\<rparr>))))"

section \<open>Rules and dashboards of a metric\<close>

text \<open>The end of the statement; \<open>limit\<close> names the two parameters of the page.\<close>

definition usage_order_clause :: "(string \<Rightarrow> string) \<Rightarrow> string \<Rightarrow> string \<Rightarrow> string \<Rightarrow> string" where
  "usage_order_clause upper sortBy sortOrder limit = '' ORDER BY '' @ sortBy @ '' '' @ upper sortOrder @ '' NULLS LAST'' @ limit"

definition ordered_page ::
  "(string \<Rightarrow> string) \<Rightarrow> (string \<Rightarrow> go_error + 'r list) \<Rightarrow> (('r \<Rightarrow> 'r \<Rightarrow> bool) \<Rightarrow> 'r list \<Rightarrow> 'r list) \<Rightarrow> (string \<Rightarrow> 'r \<Rightarrow> sql_value)
   \<Rightarrow> string \<Rightarrow> string \<Rightarrow> string \<Rightarrow> int \<Rightarrow> int \<Rightarrow> 'r list \<Rightarrow> go_error + 'r list" where
  "ordered_page upper answer srt key sortBy sortOrder limit page pageSize rows =
     (if upper sortOrder = ''ASC'' then Inr (page_of page pageSize (srt (nulls_last ''asc'' (key sortBy)) rows))
      else if upper sortOrder = ''DESC'' then Inr (page_of page pageSize (srt (nulls_last ''desc'' (key sortBy)) rows))
      else answer (usage_order_clause upper sortBy sortOrder limit))"

definition pg_optional_filter :: "pg_server \<Rightarrow> string \<Rightarrow> string \<Rightarrow> string \<Rightarrow> bool" where
  "pg_optional_filter sv f a b \<longleftrightarrow> (if f \<noteq> [] then ilike_filter sv f a \<or> ilike_filter sv f b else True)"

definition pg_rules_in_window :: "pg_server \<Rightarrow> tables \<Rightarrow> RulesUsageParams \<Rightarrow> (rule_key \<times> rule_row) list" where
  "pg_rules_in_window sv t p = filter (\<lambda>((serie, kind, group, name, expression, labels), row).
     serie = rp_Serie p \<and> kind = rp_Kind p
     \<and> pg_in_presence sv (rp_TimeRange p) (rr_first_seen_at row) (rr_last_seen_at row)
     \<and> pg_optional_filter sv (rp_Filter p) name expression) (t_rules t)"

definition pg_rule_sort_key :: "pg_server \<Rightarrow> string \<Rightarrow> rule_key \<times> rule_row \<Rightarrow> sql_value" where
  "pg_rule_sort_key sv f = (\<lambda>((serie, kind, group, name, expression, labels), row).
     if f = ''name'' then Text (sv_collate sv name) else if f = ''group_name'' then Text (sv_collate sv group)
     else if f = ''expression'' then Text (sv_collate sv expression) else Num (real_of_int (rr_created_at row)))"

text \<open>The version of each rule that was seen last.\<close>

definition pg_rules_listed where
  "pg_rules_listed sv srt t p =
     first_rows srt rule_identity (key_order ''desc'' (\<lambda>(k, row). Num (real_of_int (rr_last_seen_at row)))) (pg_rules_in_window sv t p)"

definition PgGetRulesUsage where
  "PgGetRulesUsage sv upper answer fl srt now t params0 =
     (let params = rules_defaults now params0 in
      case rf_count fl of
        Some err \<Rightarrow> Inl (''failed to query total count: '' @ err)
      | None \<Rightarrow>
          (let totalCount = int (length (remdups (map rule_count_text (pg_rules_in_window sv t params)))) in
           case rf_query fl of
             Some err \<Rightarrow> Inl (''executing query: '' @ err)
           | None \<Rightarrow>
               (case ordered_page upper answer srt (pg_rule_sort_key sv) (rp_SortBy params) (rp_SortOrder params)
                       '' LIMIT $6 OFFSET $7;'' (rp_Page params) (rp_PageSize params) (pg_rules_listed sv srt t params) of
                  Inl err \<Rightarrow> Inl (''executing query: '' @ err)
                | Inr rows \<Rightarrow>
                    (case scan_rows (''failed to scan row: '', ''row iteration error: '') fl 0 rows of
                       Inl err \<Rightarrow> Inl err
                     | Inr results \<Rightarrow> Inr \<lparr>pr_TotalPages = pages_of totalCount (rp_PageSize params),
                                          pr_Total = totalCount, pr_Data = map rule_result results\<rparr>))))"

definition pg_dashboards_in_window :: "pg_server \<Rightarrow> tables \<Rightarrow> DashboardUsageParams \<Rightarrow> dash_entry list" where
  "pg_dashboards_in_window sv t p = filter (\<lambda>((ident, serie), row).
     serie = dp_Serie p \<and> pg_in_presence sv (dp_TimeRange p) (dr_first_seen_at row) (dr_last_seen_at row)
     \<and> pg_optional_filter sv (dp_Filter p) (dr_name row) (dr_url row)) (t_dashboards t)"

definition pg_dashboard_sort_key :: "pg_server \<Rightarrow> string \<Rightarrow> dash_entry \<Rightarrow> sql_value" where
  "pg_dashboard_sort_key sv f = (\<lambda>((ident, serie), row).
     if f = ''name'' then Text (sv_collate sv (dr_name row)) else if f = ''url'' then Text (sv_collate sv (dr_url row))
     else Num (real_of_int (dr_created_at row)))"

definition pg_dashboards_listed where
  "pg_dashboards_listed sv srt t p =
     first_rows srt (prod.swap \<circ> fst) (key_order ''desc'' (\<lambda>(k, row). Num (real_of_int (dr_last_seen_at row)))) (pg_dashboards_in_window sv t p)"

text \<open>The page size is not limited here.\<close>

definition PgGetDashboardUsage where
  "PgGetDashboardUsage sv upper answer fl srt now t params0 =
     (let params = dashboards_defaults now params0 in
      case rf_count fl of
        Some err \<Rightarrow> Inl (''failed to query total count: '' @ err)
      | None \<Rightarrow>
          (let totalCount = int (length (remdups (map (fst \<circ> fst) (pg_dashboards_in_window sv t params)))) in
           case rf_query fl of
             Some err \<Rightarrow> Inl (''executing query: '' @ err)
           | None \<Rightarrow>
               (case ordered_page upper answer srt (pg_dashboard_sort_key sv) (dp_SortBy params) (dp_SortOrder params)
                       '' LIMIT $5 OFFSET $6;'' (dp_Page params) (dp_PageSize params) (pg_dashboards_listed sv srt t params) of
                  Inl err \<Rightarrow> Inl (''executing query: '' @ err)
                | Inr rows \<Rightarrow>
                    (case scan_rows (''failed to scan row: '', ''row iteration error: '') fl 0 rows of
                       Inl err \<Rightarrow> Inl err
                     | Inr results \<Rightarrow> Inr \<lparr>pr_TotalPages = pages_of totalCount (dp_PageSize params),
                                          pr_Total = totalCount, pr_Data = map dashboard_result results\<rparr>))))"

section \<open>What a client's sort direction does\<close>

lemma rules_defaults_SortBy: "rp_SortBy (rules_defaults now p) \<in> {''name'', ''group_name'', ''expression'', ''created_at''}"
  by (simp add: rules_defaults_def usage_sort_field_def)

lemma PgGetRulesUsage_answer:
  assumes "upper (rp_SortOrder p) \<notin> {''ASC'', ''DESC''}" "rp_SortOrder p \<noteq> []"
  shows "PgGetRulesUsage sv upper answer no_read_faults srt now t p =
     (case answer (usage_order_clause upper (rp_SortBy (rules_defaults now p)) (rp_SortOrder p) '' LIMIT $6 OFFSET $7;'') of
        Inl err \<Rightarrow> Inl (''executing query: '' @ err)
      | Inr rows \<Rightarrow> (let q = rules_defaults now p; n = int (length (remdups (map rule_count_text (pg_rules_in_window sv t q))))
          in Inr \<lparr>pr_TotalPages = pages_of n (rp_PageSize q), pr_Total = n, pr_Data = map rule_result rows\<rparr>))"
proof -
  have "rp_SortOrder (rules_defaults now p) = rp_SortOrder p" using assms(2) by (simp add: rules_defaults_def)
  with assms(1) show ?thesis by (simp add: PgGetRulesUsage_def ordered_page_def Let_def split: sum.split)
qed

text \<open>
  C13. On PostgreSQL a client writes into the statement: the text of the parameter \<open>sortOrder\<close> of a
  request for the rules of a metric stands, in upper case and otherwise unchanged, after the
  sort field in the statement the server receives, and the rows the client gets are whatever
  the server answers to it. Only the sort field comes from a white list.
\<close>

theorem usage_direction_reaches_statement:
  assumes "\<And>s. ascii s \<Longrightarrow> upper s = map upper_char s"
    and "rq_PathValue req ''name'' \<noteq> []" "rq_URLQuery req ''kind'' \<notin> {[], ''dashboard''}"
    and "getQueryParamAsInt req ''page'' 1 = Inr page" "getQueryParamAsInt req ''pageSize'' 1 = Inr pageSize"
    and "ascii (rq_URLQuery req ''sortOrder'')" "map upper_char (rq_URLQuery req ''sortOrder'') \<notin> {[], ''ASC'', ''DESC''}"
  shows "\<exists>f \<in> {''name'', ''group_name'', ''expression'', ''created_at''}. \<exists>pages n. \<forall>answer.
     GetMetricUsage dashboards (PgGetRulesUsage sv upper answer no_read_faults srt now t) tp ck req =
       (case answer ('' ORDER BY '' @ f @ '' '' @ map upper_char (rq_URLQuery req ''sortOrder'') @ '' NULLS LAST LIMIT $6 OFFSET $7;'') of
          Inl err \<Rightarrow> ErrorReply StatusInternalServerError ''unable to retrieve rules usage''
        | Inr rows \<Rightarrow> JSON \<lparr>pr_TotalPages = pages, pr_Total = n, pr_Data = map rule_result rows\<rparr>)"
proof -
  define dir where "dir = rq_URLQuery req ''sortOrder''"
  define p where "p = \<lparr>rp_Serie = rq_PathValue req ''name'', rp_Kind = rq_URLQuery req ''kind'', rp_Page = page, rp_PageSize = pageSize,
     rp_Filter = rq_URLQuery req ''filter'', rp_SortBy = rq_URLQuery req ''sortBy'', rp_SortOrder = dir, rp_TimeRange = report_window tp ck req\<rparr>"
  define q where "q = rules_defaults now p"
  let ?n = "int (length (remdups (map rule_count_text (pg_rules_in_window sv t q))))"
  have dir: "upper dir = map upper_char dir" "upper dir \<notin> {''ASC'', ''DESC''}" "dir \<noteq> []"
    using assms(1,6,7) by (auto simp: dir_def)
  have "rp_SortOrder p = dir" by (simp add: p_def)
  with dir have u: "PgGetRulesUsage sv upper answer no_read_faults srt now t p =
      (case answer (usage_order_clause upper (rp_SortBy q) dir '' LIMIT $6 OFFSET $7;'') of
         Inl err \<Rightarrow> Inl (''executing query: '' @ err)
       | Inr rows \<Rightarrow> Inr \<lparr>pr_TotalPages = pages_of ?n (rp_PageSize q), pr_Total = ?n, pr_Data = map rule_result rows\<rparr>)" for answer
    by (subst PgGetRulesUsage_answer) (simp_all add: q_def Let_def split: sum.split)
  have c: "usage_order_clause upper f dir '' LIMIT $6 OFFSET $7;''
      = '' ORDER BY '' @ f @ '' '' @ map upper_char dir @ '' NULLS LAST LIMIT $6 OFFSET $7;''" for f
    by (simp add: usage_order_clause_def dir)
  have "GetMetricUsage dashboards (PgGetRulesUsage sv upper answer no_read_faults srt now t) tp ck req =
      (case PgGetRulesUsage sv upper answer no_read_faults srt now t p of
         Inl err \<Rightarrow> ErrorReply StatusInternalServerError ''unable to retrieve rules usage'' | Inr d \<Rightarrow> JSON d)" for answer
    using assms(2-5) by (simp add: GetMetricUsage_def Let_def p_def dir_def)
  then have "GetMetricUsage dashboards (PgGetRulesUsage sv upper answer no_read_faults srt now t) tp ck req =
      (case answer (usage_order_clause upper (rp_SortBy q) dir '' LIMIT $6 OFFSET $7;'') of
         Inl err \<Rightarrow> ErrorReply StatusInternalServerError ''unable to retrieve rules usage''
       | Inr rows \<Rightarrow> JSON \<lparr>pr_TotalPages = pages_of ?n (rp_PageSize q), pr_Total = ?n, pr_Data = map rule_result rows\<rparr>)" for answer
    unfolding u by (cases "answer (usage_order_clause upper (rp_SortBy q) dir '' LIMIT $6 OFFSET $7;'')") simp_all
  moreover have "rp_SortBy q \<in> {''name'', ''group_name'', ''expression'', ''created_at''}"
    unfolding q_def by (rule rules_defaults_SortBy)
  ultimately show ?thesis unfolding c dir_def [symmetric] by blast
qed

text \<open>An \<open>upper\<close> for ASCII texts, and a request whose direction reads another table.\<close>

definition injecting_request :: http_request where
  "injecting_request = \<lparr>rq_Method = ''GET'', rq_FormValue = (\<lambda>_. []),
     rq_URLQuery = (\<lambda>p. if p = ''kind'' then ''alert'' else if p = ''sortOrder'' then ''ASC, (SELECT COUNT(*) FROM QUERIES)'' else []),
     rq_PathValue = (\<lambda>_. ''up''), rq_Header = (\<lambda>_. [])\<rparr>"

definition no_parsers :: text_parsers where
  "no_parsers = \<lparr>tp_RFC3339 = (\<lambda>_. None), tp_UnixFloat = (\<lambda>_. None), tp_Float = (\<lambda>_. 0)\<rparr>"

theorem usage_direction_reaches_statement_witness:
  "\<exists>f \<in> {''name'', ''group_name'', ''expression'', ''created_at''}. \<exists>pages n. \<forall>answer.
     GetMetricUsage (\<lambda>_. Inl []) (PgGetRulesUsage sample_server (map upper_char) answer no_read_faults insertion_sort 0 empty_tables)
         no_parsers (0, 0) injecting_request =
       (case answer ('' ORDER BY '' @ f @ '' ASC, (SELECT COUNT(*) FROM QUERIES) NULLS LAST LIMIT $6 OFFSET $7;'') of
          Inl err \<Rightarrow> ErrorReply StatusInternalServerError ''unable to retrieve rules usage''
        | Inr rows \<Rightarrow> JSON \<lparr>pr_TotalPages = pages, pr_Total = n, pr_Data = map rule_result rows\<rparr>)"
proof -
  have up: "map upper_char (rq_URLQuery injecting_request ''sortOrder'') = ''ASC, (SELECT COUNT(*) FROM QUERIES)''"
    by (simp add: injecting_request_def upper_char_def)
  have a: "ascii (rq_URLQuery injecting_request ''sortOrder'')" by (simp add: injecting_request_def ascii_def)
  have k: "rq_URLQuery injecting_request ''kind'' \<notin> {[], ''dashboard''}" "rq_PathValue injecting_request ''name'' \<noteq> []"
    "getQueryParamAsInt injecting_request ''page'' 1 = Inr 1" "getQueryParamAsInt injecting_request ''pageSize'' 1 = Inr 1"
    by (simp_all add: injecting_request_def getQueryParamAsInt_def)
  show ?thesis
    using usage_direction_reaches_statement [OF refl k(2,1,3,4) a, unfolded up, of "\<lambda>_. Inl []" sample_server insertion_sort 0 empty_tables no_parsers "(0, 0)"]
    by simp
qed

section \<open>The metric list\<close>

text \<open>Doubling the percent signs changes nothing unless the filter ends in an escape.\<close>

lemma pg_percent_twice: "pg_like (CHR ''%'' # CHR ''%'' # p) s = pg_like (CHR ''%'' # p) s"
proof (induction "length s" arbitrary: s rule: less_induct)
  case less
  then show ?case
    using length_next_char [of s] by (cases "s = []") (simp_all add: pg_like.simps(2) [of "CHR ''%''"])
qed

lemma pg_percent_end: "CHR 0x5C \<notin> set p \<Longrightarrow> pg_like (p @ ''%%'') s = pg_like (p @ ''%'') s"
proof (induction p s rule: pg_like.induct)
  case (1 s)
  then show ?case using pg_percent_twice [of "[]" s] by simp
next
  case (2 c p s)
  have c: "c \<noteq> CHR 0x5C" "CHR 0x5C \<notin> set p" using 2(6) by auto
  consider (any) "c = CHR ''%''" | (one) "c = CHR ''_''" | (char) "c \<noteq> CHR ''%''" "c \<noteq> CHR ''_''" by blast
  then show ?case
  proof cases
    case any
    then show ?thesis using 2(1) [OF any c(2)] 2(2) [OF any] 2(6)
      by (simp add: any pg_like.simps(2) [of "CHR ''%''" "p @ ''%''" s] pg_like.simps(2) [of "CHR ''%''" "p @ ''%%''" s])
  next
    case one
    then show ?thesis using 2(4) c
      by (simp add: one pg_like.simps(2) [of "CHR ''_''" "p @ ''%''" s] pg_like.simps(2) [of "CHR ''_''" "p @ ''%%''" s])
  next
    case char
    then show ?thesis using 2(5) c
      by (simp add: pg_like.simps(2) [of c "p @ ''%''" s] pg_like.simps(2) [of c "p @ ''%%''" s])
  qed
qed

lemma ilike_filter2_same:
  assumes "documented sv" "ascii f" "CHR 0x5C \<notin> set f"
  shows "ilike_filter2 sv f = ilike_filter sv f"
proof -
  have "ascii (''%%'' @ f @ ''%%'')" "ascii (''%'' @ f @ ''%'')" using assms(2) by (simp_all add: ascii_def)
  then have l: "sv_lower sv (''%%'' @ f @ ''%%'') = ''%%'' @ map lower_char f @ ''%%''"
    "sv_lower sv (''%'' @ f @ ''%'') = ''%'' @ map lower_char f @ ''%''"
    using documentedD(7) [OF assms(1)] by (simp_all add: lower_char_fixed)
  have "lower_char c \<noteq> CHR 0x5C" if "c \<in> set f" for c
    using that assms(3) by (subst lower_char_eq) auto
  then have "CHR 0x5C \<notin> set (CHR ''%'' # map lower_char f)" by fastforce
  then have "pg_like (''%%'' @ map lower_char f @ ''%%'') x = pg_like (''%'' @ map lower_char f @ ''%'') x" for x
    using pg_percent_twice [of "map lower_char f @ ''%%''" x] pg_percent_end [of "CHR ''%'' # map lower_char f" x] by simp
  then show ?thesis by (intro ext) (simp only: ilike_filter2_def ilike_filter_def ilike_def l)
qed

definition pg_selected :: "pg_server \<Rightarrow> tables \<Rightarrow> SeriesMetadataParams \<Rightarrow> MetricMetadata list" where
  "pg_selected sv t p = map (metadata_row t) (filter (metadata_matches (ilike_filter sv) (metadata_defaults p) t) (t_catalog t))"

lemma PgGetSeriesMetadata_healthy:
  assumes "sql_sorts srt" "mp_PageSize p < 2 ^ 62" "ilike_filter2 sv (mp_Filter p) = ilike_filter sv (mp_Filter p)"
    "ValidateSortField (mp_SortBy (metadata_defaults p)) (mp_SortOrder (metadata_defaults p))
       ValidSeriesMetadataSortFields ''queryCount'' = (f, d)"
  shows "PgGetSeriesMetadata sv no_read_faults srt t p = Inr
     \<lparr>pr_TotalPages = pages_of (int (length (pg_selected sv t p))) (mp_PageSize (metadata_defaults p)),
      pr_Total = int (length (pg_selected sv t p)),
      pr_Data = page_of (mp_Page (metadata_defaults p)) (mp_PageSize (metadata_defaults p))
                  (srt (key_order d (pg_metadata_key sv f)) (pg_selected sv t p))\<rparr>"
proof -
  have "mp_Filter (metadata_defaults p) = mp_Filter p" by (simp add: metadata_defaults_def)
  then have m: "metadata_matches (ilike_filter2 sv) (metadata_defaults p) t = metadata_matches (ilike_filter sv) (metadata_defaults p) t"
    using assms(3) by (simp add: metadata_matches_def)
  have k: "nulls_last d (pg_metadata_key sv f) = key_order d (pg_metadata_key sv f)"
    by (rule nulls_last_key) (simp add: pg_metadata_key_def)
  show ?thesis
  proof (cases "pg_selected sv t p = []")
    case True
    have "0 < mp_PageSize (metadata_defaults p)" "mp_PageSize (metadata_defaults p) < 2 ^ 62"
      using assms(2) by (simp_all add: metadata_defaults_def)
    then have "pages_of 0 (mp_PageSize (metadata_defaults p)) = 0" by (simp add: pages_of_exact)
    with True show ?thesis
      using sql_sorts_Nil [OF assms(1)]
      by (simp add: PgGetSeriesMetadata_def pg_selected_def page_of_def limit_offset_def Let_def)
  next
    case False
    then show ?thesis
      using assms(4) by (simp add: PgGetSeriesMetadata_def pg_selected_def Let_def m k)
  qed
qed

lemma pg_selected_ascii:
  assumes "documented sv" "ascii (mp_Filter p)" "CHR 0x5C \<notin> set (mp_Filter p)"
    "\<forall>(n, c) \<in> set (t_catalog t). ascii n \<and> ascii (cr_help c)"
  shows "pg_selected sv t p = selected t p"
proof -
  have "mp_Filter (metadata_defaults p) = mp_Filter p" by (simp add: metadata_defaults_def)
  then have "filter (metadata_matches (ilike_filter sv) (metadata_defaults p) t) (t_catalog t)
      = filter (metadata_matches like_filter (metadata_defaults p) t) (t_catalog t)"
    using assms(4) ilike_filter_like(1) [OF assms(1,2) _ assms(3)]
    by (intro filter_cong refl) (auto simp: metadata_matches_def)
  then show ?thesis by (simp add: pg_selected_def selected_def)
qed

text \<open>
  The pages of the metric list are complete on PostgreSQL as well, for filters in ASCII without
  a backslash: sorted by name, the pages put together are exactly the matching metrics, each
  once, in the order of the database's collation, and every page reports their number; over a
  catalog of ASCII texts they are the metrics the SQLite provider lists.
\<close>

lemma PgGetSeriesMetadata_pages:
  fixes fetch
  assumes "documented sv" "tables_wf t" "\<And>page. sql_sorts (srt page)" "0 < psize" "psize < 2 ^ 62" "length (t_catalog t) < 2 ^ 62"
    and "ascii (mp_Filter p)" "CHR 0x5C \<notin> set (mp_Filter p)"
    and fetch: "\<And>page. fetch page = PgGetSeriesMetadata sv no_read_faults (srt page) t
      (p\<lparr>mp_Page := page, mp_PageSize := psize, mp_SortBy := ''name'', mp_SortOrder := ''asc''\<rparr>)"
  shows "\<exists>pages. (\<forall>page. \<exists>d. fetch page = Inr \<lparr>pr_TotalPages = pages, pr_Total = int (length (pg_selected sv t p)), pr_Data = d\<rparr>)
       \<and> concat (map (\<lambda>page. pr_Data (projr (fetch page))) [1..pages]) = sort_key (sv_collate sv \<circ> mm_Name) (pg_selected sv t p)
       \<and> distinct (map mm_Name (pg_selected sv t p))
       \<and> ((\<forall>(n, c) \<in> set (t_catalog t). ascii n \<and> ascii (cr_help c)) \<longrightarrow> pg_selected sv t p = selected t p)"
proof -
  let ?rows = "sort_key (sv_collate sv \<circ> mm_Name) (pg_selected sv t p)"
  let ?pages = "pages_of (int (length (pg_selected sv t p))) psize"
  let ?p = "\<lambda>page. p\<lparr>mp_Page := page, mp_PageSize := psize, mp_SortBy := ''name'', mp_SortOrder := ''asc''\<rparr>"
  have sel: "pg_selected sv t (?p page) = pg_selected sv t p" for page
    by (simp add: pg_selected_def metadata_matches_def metadata_defaults_def cong: filter_cong)
  have d: "distinct (map mm_Name (pg_selected sv t p))"
    using assms(2) by (simp add: pg_selected_def comp_def distinct_map_filter tables_wf_def map_wf_def)
  then have inj: "inj_on (sv_collate sv \<circ> mm_Name) (set (pg_selected sv t p))"
    using documentedD(8) [OF assms(1)] by (auto simp: distinct_map intro!: comp_inj_on elim: inj_on_subset)
  have key: "pg_metadata_key sv ''name'' = (\<lambda>r. Text ((sv_collate sv \<circ> mm_Name) r))"
    by (simp add: fun_eq_iff pg_metadata_key_def)
  have u: "srt page (key_order ''asc'' (pg_metadata_key sv ''name'')) (pg_selected sv t p) = ?rows" for page
    unfolding key by (rule sql_sorts_text [OF assms(3) inj])
  have like2: "ilike_filter2 sv (mp_Filter (?p page)) = ilike_filter sv (mp_Filter (?p page))" for page
    using ilike_filter2_same [OF assms(1,7,8)] by simp
  have f: "fetch page = Inr \<lparr>pr_TotalPages = ?pages, pr_Total = int (length (pg_selected sv t p)),
      pr_Data = page_of (if page \<le> 0 then 1 else page) psize ?rows\<rparr>" for page
    unfolding fetch using assms(4,5)
    by (subst PgGetSeriesMetadata_healthy [OF assms(3) _ like2, where f = "''name''" and d = "''asc''"])
      (simp_all add: sel metadata_defaults_def ValidateSortField_name u)
  have "length (pg_selected sv t p) \<le> length (t_catalog t)" by (simp add: pg_selected_def)
  with assms(4-6) f have "concat (map (\<lambda>page. pr_Data (projr (fetch page))) [1..?pages]) = ?rows"
    using complete_pages [of psize ?rows fetch] by simp
  with f d pg_selected_ascii [OF assms(1,7,8)] show ?thesis by blast
qed

lemma PgGetSeriesMetadata_pages_witness:
  "\<exists>pages. concat (map (\<lambda>page. pr_Data (projr (PgGetSeriesMetadata sample_server no_read_faults insertion_sort sample_catalog
       (sample_params\<lparr>mp_Page := page, mp_PageSize := 1, mp_SortBy := ''name'', mp_SortOrder := ''asc''\<rparr>)))) [1..pages])
     = sort_key (sv_collate sample_server \<circ> mm_Name) (selected sample_catalog sample_params)"
proof -
  have c: "t_catalog sample_catalog =
      [(''up'', \<lparr>cr_type = ''gauge'', cr_help = ''Target is up'', cr_unit = [], cr_first_seen_at = 0, cr_last_synced_at = 0\<rparr>),
       (''build_info'', \<lparr>cr_type = ''gauge'', cr_help = [], cr_unit = [], cr_first_seen_at = 0, cr_last_synced_at = 0\<rparr>)]"
    by (simp add: sample_catalog_def UpsertMetricsCatalog_def upsert_catalog_def empty_tables_def)
  have wf: "tables_wf sample_catalog"
    by (simp add: tables_wf_def c map_wf_def)
      (simp add: sample_catalog_def UpsertMetricsCatalog_def upsert_catalog_def empty_tables_def)
  have f: "ascii (mp_Filter sample_params)" "CHR 0x5C \<notin> set (mp_Filter sample_params)"
    "\<forall>(n, c) \<in> set (t_catalog sample_catalog). ascii n \<and> ascii (cr_help c)"
    by (simp_all add: sample_params_def ascii_def c)
  have "length (t_catalog sample_catalog) < 2 ^ 62" by (simp add: c)
  from PgGetSeriesMetadata_pages [OF documented_sample wf insertion_sort_sorts, of 1, OF _ _ this f(1,2) refl] f(3)
  show ?thesis by fastforce
qed

text \<open>
  A filter that ends in a backslash escapes the percent sign after it, and the two statements
  differ: the count asks for texts that end with a percent sign, the page for texts with one.
\<close>

lemma escape_splits_statements:
  "\<not> ilike_filter sample_server [CHR 0x5C] ''50% used''" "ilike_filter2 sample_server [CHR 0x5C] ''50% used''"
  by code_simp+

section \<open>The rules of a metric\<close>

text \<open>
  The rules of a metric with a proper direction: as on SQLite each rule in the window appears
  once, in the version seen last.
\<close>

lemma PgGetRulesUsage_latest:
  assumes "sql_sorts srt" "upper (rp_SortOrder (rules_defaults now p)) \<in> {''ASC'', ''DESC''}"
    and page: "rp_Page p = 1" and all: "int (length (pg_rules_listed sv srt t (rules_defaults now p))) \<le> rp_PageSize (rules_defaults now p)"
    and res: "PgGetRulesUsage sv upper answer no_read_faults srt now t p = Inr r"
  defines "w \<equiv> pg_rules_in_window sv t (rules_defaults now p)"
  shows "distinct (map (\<lambda>r. (ru_GroupName r, ru_Name r)) (pr_Data r))
       \<and> (\<forall>e \<in> set w. \<exists>r' \<in> set (pr_Data r). ru_GroupName r' = ru_GroupName (rule_result e) \<and> ru_Name r' = ru_Name (rule_result e))
       \<and> (\<forall>r' \<in> set (pr_Data r). \<exists>e \<in> set w. r' = rule_result e \<and> (\<forall>e' \<in> set w. rule_identity e' = rule_identity e \<longrightarrow>
            rr_last_seen_at (snd e') \<le> rr_last_seen_at (snd e)))"
proof -
  define q where "q = rules_defaults now p"
  have q: "0 < rp_PageSize q" "rp_PageSize q < 2 ^ 62" "rp_Page q = 1"
    using page by (simp_all add: q_def rules_defaults_def MaxPageSize_def)
  have page: "page_of 1 (rp_PageSize q) (srt le (pg_rules_listed sv srt t q)) = srt le (pg_rules_listed sv srt t q)" for le
    using q all by (simp add: page_of_first [OF q(1,2)] sql_sorts_length [OF assms(1)] q_def [symmetric] le_nat_iff)
  obtain es where es: "mset es = mset (pg_rules_listed sv srt t q)" and r: "pr_Data r = map rule_result es"
  proof (rule that)
    let ?es = "srt (nulls_last (if upper (rp_SortOrder q) = ''ASC'' then ''asc'' else ''desc'') (pg_rule_sort_key sv (rp_SortBy q))) (pg_rules_listed sv srt t q)"
    show "mset ?es = mset (pg_rules_listed sv srt t q)" using assms(1) by (simp add: sql_sorts_def)
    show "pr_Data r = map rule_result ?es"
      using res assms(2) by (auto simp: PgGetRulesUsage_def ordered_page_def Let_def q(3) page q_def [symmetric])
  qed
  note latest = latest_versions [OF assms(1) _ es [unfolded pg_rules_listed_def], folded r]
  have "\<forall>((serie, kind, rest), row) \<in> set w. serie = rp_Serie q \<and> kind = rp_Kind q"
    by (auto simp: w_def q_def pg_rules_in_window_def)
  note w = this [unfolded w_def q_def [symmetric]]
  from latest(1) [OF w] latest(2) [OF w] latest(3) [OF w] show ?thesis
    unfolding w_def q_def [symmetric] by (auto simp: case_prod_unfold)
qed

end
