(* ===== verification/Pg_Reports.thy ===== *)
theory Pg_Reports
  imports Pg_Reads
begin

text \<open>
  The totals and the listings of queries of the PostgreSQL provider
  (\<open>internal/db/postgresql.go\<close>). A condition on a metric is containment of a JSON text that holds
  the metric's name, so it looks at every selector of a query, where the SQLite provider and the
  usage summary of both look at the first one. Text keys are ordered by the collation of the
  database. Where an error message quotes the whole statement, the quotation is left out.
\<close>

section \<open>Conditions and aggregates\<close>

definition pg_metric_matches :: "pg_server \<Rightarrow> string \<Rightarrow> Query \<Rightarrow> bool" where
  "pg_metric_matches sv metric q \<longleftrightarrow> metric = [] \<or> sv_contains sv (q_LabelMatchers q) (metricMatcherJSON metric)"

text \<open>A parameter that is not JSON fails the statement, also where its value is not needed.\<close>

definition json_fault :: "pg_server \<Rightarrow> string \<Rightarrow> read_faults \<Rightarrow> read_faults" where
  "json_fault sv metric fl =
     (case sv_json_error sv (metricMatcherJSON metric) of None \<Rightarrow> fl | Some err \<Rightarrow> fl\<lparr>rf_query := Some err\<rparr>)"

text \<open>\<open>ROUND(x * 100.0 / NULLIF(n, 0), 2)\<close>.\<close>

definition pg_percent :: "pg_server \<Rightarrow> int \<Rightarrow> int \<Rightarrow> real option" where
  "pg_percent sv x n = (if n = 0 then None else Some (sv_round2 sv (percent x n)))"

section \<open>Totals over a window\<close>

definition PgGetQueryTypes ::
  "pg_server \<Rightarrow> read_faults \<Rightarrow> time \<Rightarrow> tables \<Rightarrow> TimeRange \<Rightarrow> string \<Rightarrow> go_error + QueryTypesResult" where
  "PgGetQueryTypes sv fl now t tr0 fingerprint =
     (let tr = SetDefaultTimeRange now tr0;
          qs = filter (\<lambda>q. pg_in_window sv tr (q_TS q) \<and> fingerprint_matches fingerprint q) (t_queries t);
          n = int (length qs)
      in one_row ''executing query: '' operation_labels fl
           \<lparr>qt_TotalQueries = n,
            qt_InstantPercent = pg_percent sv (count_if (\<lambda>q. q_Type q = ''instant'') qs) n,
            qt_RangePercent = pg_percent sv (count_if (\<lambda>q. q_Type q = ''range'') qs) n\<rparr>)"

text \<open>The rows are first limited to the span of both windows.\<close>

definition PgGetAverageDuration ::
  "pg_server \<Rightarrow> read_faults \<Rightarrow> tables \<Rightarrow> TimeRange \<Rightarrow> string \<Rightarrow> go_error + AverageDurationResult" where
  "PgGetAverageDuration sv fl t tr fingerprint =
     (let (from, to) = TimeRange_Format format_RFC3339 tr;
          (previousFrom, previousTo) = TimeRange_Format format_RFC3339 (TimeRange_Previous tr);
          lit = sv_literal sv;
          rows = filter (\<lambda>q. min (lit from) (lit previousFrom) \<le> q_TS q \<and> q_TS q \<le> max (lit to) (lit previousTo)
                   \<and> fingerprint_matches fingerprint q) (t_queries t);
          average = (\<lambda>a b. sql_avg (map duration_ms (filter (\<lambda>q. lit a \<le> q_TS q \<and> q_TS q \<le> lit b) rows)));
          avg_current = average from to; avg_previous = average previousFrom previousTo
      in one_row ''executing query: '' row_labels fl
           \<lparr>ad_AvgDuration = Some (sv_round2 sv (case avg_current of None \<Rightarrow> 0 | Some cur \<Rightarrow> cur)),
            ad_DeltaPercent = (case avg_previous of
               None \<Rightarrow> Some 0
             | Some prev \<Rightarrow> if prev = 0 then Some 0
                            else map_option (\<lambda>cur. sv_round2 sv ((cur - prev) * 100 / prev)) avg_current)\<rparr>)"

definition PgGetQueryRate ::
  "pg_server \<Rightarrow> read_faults \<Rightarrow> tables \<Rightarrow> TimeRange \<Rightarrow> string \<Rightarrow> string \<Rightarrow> go_error + QueryRateResult" where
  "PgGetQueryRate sv fl t tr metricName fingerprint =
     (let qs = filter (\<lambda>q. pg_in_window sv tr (q_TS q) \<and> pg_metric_matches sv metricName q \<and> fingerprint_matches fingerprint q) (t_queries t);
          n = int (length qs);
          success_rows = count_if (\<lambda>q. 200 \<le> q_StatusCode q \<and> q_StatusCode q \<le> 299) qs;
          fail_rows = count_if (\<lambda>q. q_StatusCode q \<ge> 400) qs
      in one_row ''executing query: '' row_labels (json_fault sv metricName fl)
           \<lparr>qr_SuccessTotal = Some success_rows, qr_SuccessRatePercent = pg_percent sv success_rows n,
            qr_ErrorTotal = Some fail_rows, qr_ErrorRatePercent = pg_percent sv fail_rows n\<rparr>)"

definition PgGetMetricStatistics ::
  "pg_server \<Rightarrow> read_faults \<Rightarrow> tables \<Rightarrow> string \<Rightarrow> TimeRange \<Rightarrow> go_error + MetricUsageStatics" where
  "PgGetMetricStatistics sv fl t metricName tr =
     (let rules = filter (\<lambda>(_, row). pg_in_presence sv tr (rr_first_seen_at row) (rr_last_seen_at row)) (t_rules t);
          dashes = filter (\<lambda>(_, row). pg_in_presence sv tr (dr_first_seen_at row) (dr_last_seen_at row)) (t_dashboards t);
          names = (\<lambda>ds. int (length (remdups (map (dr_name \<circ> snd) ds))))
      in one_row ''executing query: '' row_labels fl
           \<lparr>us_SerieCount = 0, us_LabelCount = 0,
            us_AlertCount = count_if (\<lambda>((serie, kind, _), _). serie = metricName \<and> kind = ''alert'') rules,
            us_RecordCount = count_if (\<lambda>((serie, kind, _), _). serie = metricName \<and> kind = ''record'') rules,
            us_DashboardCount = names (filter (\<lambda>((ident, serie), _). serie = metricName) dashes),
            us_TotalAlerts = count_if (\<lambda>((serie, kind, _), _). kind = ''alert'') rules,
            us_TotalRecords = count_if (\<lambda>((serie, kind, _), _). kind = ''record'') rules,
            us_TotalDashboards = names dashes, us_Producers = []\<rparr>)"

definition PgGetMetricQueryPerformanceStatistics ::
  "pg_server \<Rightarrow> read_faults \<Rightarrow> tables \<Rightarrow> string \<Rightarrow> TimeRange \<Rightarrow> go_error + MetricQueryPerformanceStatistics" where
  "PgGetMetricQueryPerformanceStatistics sv fl t metricName tr =
     (let qs = filter (\<lambda>q. sv_contains sv (q_LabelMatchers q) (metricMatcherJSON metricName) \<and> pg_in_window sv tr (q_TS q)) (t_queries t)
      in one_row ''executing query: '' row_labels (json_fault sv metricName fl)
           \<lparr>ps_TotalQueries = int (length qs),
            ps_AverageSamples = map_option (sv_round2 sv) (sql_avg (map q_TotalQueryableSamples qs)),
            ps_PeakSamples = sql_max (map q_PeakSamples qs),
            ps_AverageDuration = map_option (sv_round2 sv) (sql_avg (map duration_ms qs))\<rparr>)"

section \<open>Listings of queries\<close>

definition pg_serie_query_key :: "pg_server \<Rightarrow> string \<Rightarrow> QueriesBySerieNameResult \<Rightarrow> sql_value" where
  "pg_serie_query_key sv f r =
     (if f = ''queryParam'' then Text (sv_collate sv (sr_Query r)) else if f = ''avgDuration'' then Num (sr_AvgDuration r)
      else if f = ''avgPeakySamples'' then Num (sr_AvgPeakySamples r) else Num (real_of_int (sr_MaxPeakSamples r)))"

text \<open>The window is bound as times here, to the microsecond.\<close>

definition PgGetQueriesBySerieName where
  "PgGetQueriesBySerieName sv fl srt now t params =
     (let (page, pageSize) = ValidatePagination (sp_Page params) (sp_PageSize params) 10;
          (sortBy, sortOrder) = ValidateSortField (sp_SortBy params) (sp_SortOrder params)
            [''queryParam'', ''avgDuration'', ''avgPeakySamples'', ''maxPeakSamples''] ''avgDuration'';
          tr = SetDefaultTimeRange now (sp_TimeRange params);
          qs = filter (\<lambda>q. sv_contains sv (q_LabelMatchers q) (metricMatcherJSON (sp_SerieName params))
                 \<and> sv_timestamp sv (tr_From tr) \<le> q_TS q \<and> q_TS q \<le> sv_timestamp sv (tr_To tr)
                 \<and> (sp_Filter params \<noteq> [] \<longrightarrow> ilike_filter sv (sp_Filter params) (q_QueryParam q))) (t_queries t)
      in paged ''executing query: '' operation_labels (json_fault sv (sp_SerieName params) fl) page pageSize
           (srt (nulls_last sortOrder (pg_serie_query_key sv sortBy)) (group_by q_QueryParam serie_query_row qs)))"

text \<open>\<open>(ARRAY_AGG(queryParam ORDER BY ts DESC))[1]\<close> is the text of the latest execution.\<close>

definition pg_expression_row ::
  "pg_server \<Rightarrow> ((Query \<Rightarrow> Query \<Rightarrow> bool) \<Rightarrow> Query list \<Rightarrow> Query list) \<Rightarrow> string \<Rightarrow> Query list \<Rightarrow> QueryExpression" where
  "pg_expression_row sv srt fp qs =
     \<lparr>qe_Fingerprint = fp,
      qe_Query = q_QueryParam (hd (srt (key_order ''desc'' (\<lambda>q. Num (real_of_int (q_TS q)))) qs)),
      qe_Executions = int (length qs),
      qe_AvgDuration = sv_round2 sv (avg0 (map duration_ms qs)),
      qe_ErrorRatePercent = sv_round2 sv (percent (count_if (\<lambda>q. q_StatusCode q \<ge> 400) qs) (int (length qs))),
      qe_PeakSamples = Max (set (map q_PeakSamples qs))\<rparr>"

definition pg_expression_key :: "pg_server \<Rightarrow> string \<Rightarrow> QueryExpression \<Rightarrow> sql_value" where
  "pg_expression_key sv f r =
     (if f = ''query'' then Text (sv_collate sv (qe_Query r)) else if f = ''executions'' then Num (real_of_int (qe_Executions r))
      else if f = ''avgDuration'' then Num (qe_AvgDuration r) else if f = ''errorRatePercent'' then Num (qe_ErrorRatePercent r)
      else Num (real_of_int (qe_PeakSamples r)))"

definition pg_expressions_listed where
  "pg_expressions_listed sv srt t params =
     group_by q_Fingerprint (pg_expression_row sv srt)
       (filter (\<lambda>q. pg_in_window sv (xp_TimeRange params) (q_TS q) \<and>
          (xp_Filter params \<noteq> [] \<longrightarrow> ilike_filter2 sv (xp_Filter params) (q_QueryParam q))) (t_queries t))"

definition PgGetQueryExpressions where
  "PgGetQueryExpressions sv fl srt srt' t params =
     (let page = (if xp_Page params \<le> 0 then 1 else xp_Page params);
          pageSize = (if xp_PageSize params \<le> 0 then 10 else xp_PageSize params);
          (sortBy, sortOrder) = ValidateSortField (xp_SortBy params) (xp_SortOrder params)
            [''query'', ''executions'', ''avgDuration'', ''errorRatePercent'', ''peakSamples''] ''executions''
      in paged ''executing query: '' (''scan: '', ''row iter: '') fl page pageSize
           (srt' (nulls_last sortOrder (pg_expression_key sv sortBy)) (pg_expressions_listed sv srt t params)))"

definition pg_execution_key :: "pg_server \<Rightarrow> string \<Rightarrow> QueryExecutionRow \<Rightarrow> sql_value" where
  "pg_execution_key sv f r =
     (if f = ''ts'' then Num (real_of_int (er_Timestamp r)) else if f = ''duration'' then Num (real_of_int (er_Duration r))
      else if f = ''samples'' then Num (real_of_int (er_Samples r)) else if f = ''statusCode'' then Num (real_of_int (er_Status r))
      else if f = ''type'' then Text (sv_collate sv (er_Type r)) else Num (er_Steps r))"

definition pg_executions_listed :: "pg_server \<Rightarrow> tables \<Rightarrow> QueryExecutionsParams \<Rightarrow> QueryExecutionRow list" where
  "pg_executions_listed sv t params = map execution_row
     (filter (\<lambda>q. pg_in_window sv (ep_TimeRange params) (q_TS q) \<and> q_Fingerprint q = ep_Fingerprint params \<and>
        (ep_Type params = [] \<or> q_Type q = ep_Type params)) (t_queries t))"

definition PgGetQueryExecutions where
  "PgGetQueryExecutions sv fl srt t params =
     (let (page, pageSize) = ValidatePagination (ep_Page params) (ep_PageSize params) 10;
          (sortBy, sortOrder) = ValidateSortField (ep_SortBy params) (ep_SortOrder params)
            [''ts'', ''duration'', ''samples'', ''statusCode'', ''type'', ''steps''] ''ts''
      in paged ''executing query: '' operation_labels fl page pageSize
           (srt (nulls_last sortOrder (pg_execution_key sv sortBy)) (pg_executions_listed sv t params)))"

section \<open>The listings are paged reports\<close>

definition pg_expression_order :: "pg_server \<Rightarrow> QueryExpressionsParams \<Rightarrow> QueryExpression \<Rightarrow> QueryExpression \<Rightarrow> bool" where
  "pg_expression_order sv p =
     (case ValidateSortField (xp_SortBy p) (xp_SortOrder p)
             [''query'', ''executions'', ''avgDuration'', ''errorRatePercent'', ''peakSamples''] ''executions'' of
        (sortBy, sortOrder) \<Rightarrow> nulls_last sortOrder (pg_expression_key sv sortBy))"

definition pg_execution_order :: "pg_server \<Rightarrow> QueryExecutionsParams \<Rightarrow> QueryExecutionRow \<Rightarrow> QueryExecutionRow \<Rightarrow> bool" where
  "pg_execution_order sv p =
     (case ValidateSortField (ep_SortBy p) (ep_SortOrder p)
             [''ts'', ''duration'', ''samples'', ''statusCode'', ''type'', ''steps''] ''ts'' of
        (sortBy, sortOrder) \<Rightarrow> nulls_last sortOrder (pg_execution_key sv sortBy))"

interpretation pg_expression_pages: paged_report
  "\<lambda>page. projr (PgGetQueryExpressions sv no_read_faults srt srt' t (p\<lparr>xp_Page := page\<rparr>))"
  "if xp_PageSize p \<le> 0 then 10 else xp_PageSize p"
  "srt' (pg_expression_order sv p) (pg_expressions_listed sv srt t p)" for sv srt srt' t p
  by (rule paged_report_paged)
    (auto simp: PgGetQueryExpressions_def pg_expression_order_def pg_expressions_listed_def split: prod.split)

interpretation pg_execution_pages: paged_report
  "\<lambda>page. projr (PgGetQueryExecutions sv no_read_faults srt t (p\<lparr>ep_Page := page\<rparr>))"
  "snd (ValidatePagination 1 (ep_PageSize p) 10)"
  "srt (pg_execution_order sv p) (pg_executions_listed sv t p)" for sv srt t p
  by (rule paged_report_paged)
    (auto simp: PgGetQueryExecutions_def pg_execution_order_def pg_executions_listed_def ValidatePagination_def MaxPageSize_def Let_def
      split: prod.split)

section \<open>Statistics and usage of a metric\<close>

lemma length_filter_le_filter: "(\<And>x. P x \<Longrightarrow> Q x) \<Longrightarrow> length (filter P xs) \<le> length (filter Q xs)"
  by (induction xs) auto

text \<open>
  The statistics of a metric and its usage summary count differently on PostgreSQL: the
  statistics count every query of the window with a selector of the metric, the summary only
  those whose first selector it is, so the summary's count is at most the other and a metric can
  have executed queries and no usage.
\<close>

lemma pg_statistics_count_every_selector:
  assumes "documented sv" "plain_json metric"
  shows "\<exists>stats. PgGetMetricQueryPerformanceStatistics sv no_read_faults t metric tr = Inr stats
    \<and> ps_TotalQueries stats = int (length (filter (\<lambda>q. names_metric metric (q_LabelMatchers q) \<and> pg_in_window sv tr (q_TS q)) (t_queries t)))
    \<and> su_query_count (pg_summary_of sv t tr now metric) =
        int (length (filter (\<lambda>q. first_metric_name q = Some metric \<and> pg_in_window sv tr (q_TS q)) (t_queries t)))
    \<and> su_query_count (pg_summary_of sv t tr now metric) \<le> ps_TotalQueries stats"
proof -
  let ?P = "\<lambda>q. names_metric metric (q_LabelMatchers q) \<and> pg_in_window sv tr (q_TS q)"
  let ?F = "\<lambda>q. first_metric_name q = Some metric \<and> pg_in_window sv tr (q_TS q)"
  have "filter (\<lambda>q. sv_contains sv (q_LabelMatchers q) (metricMatcherJSON metric) \<and> pg_in_window sv tr (q_TS q)) (t_queries t)
      = filter ?P (t_queries t)"
    by (simp add: documentedD(6) [OF assms])
  moreover have "json_fault sv metric no_read_faults = no_read_faults"
    by (simp add: json_fault_def documentedD(5) [OF assms])
  ultimately obtain stats where "PgGetMetricQueryPerformanceStatistics sv no_read_faults t metric tr = Inr stats"
    "ps_TotalQueries stats = int (length (filter ?P (t_queries t)))"
    by (simp add: PgGetMetricQueryPerformanceStatistics_def one_row_def Let_def)
  moreover have "su_query_count (pg_summary_of sv t tr now metric) = int (length (filter ?F (t_queries t)))"
    by (simp add: pg_summary_of_def pg_queries_of_def Let_def)
  moreover have "?F q \<Longrightarrow> ?P q" for q
    by (auto simp: first_metric_name_def names_metric_def split: list.splits)
  then have "length (filter ?F (t_queries t)) \<le> length (filter ?P (t_queries t))"
    by (rule length_filter_le_filter)
  ultimately show ?thesis by auto
qed

text \<open>A query that divides one metric by another.\<close>

definition quotient_query :: Query where
  "quotient_query = (query_at 0)\<lparr>q_LabelMatchers := [[(''__name__'', ''errors'')], [(''__name__'', ''requests'')]]\<rparr>"

lemma pg_statistics_count_every_selector_witness:
  "\<exists>stats. PgGetMetricQueryPerformanceStatistics sample_server no_read_faults (empty_tables\<lparr>t_queries := [quotient_query]\<rparr>)
       ''requests'' \<lparr>tr_From = 0, tr_To = hour\<rparr> = Inr stats \<and> ps_TotalQueries stats = 1
     \<and> su_query_count (pg_summary_of sample_server (empty_tables\<lparr>t_queries := [quotient_query]\<rparr>)
          \<lparr>tr_From = 0, tr_To = hour\<rparr> 0 ''requests'') = 0"
proof -
  let ?tr = "\<lparr>tr_From = 0, tr_To = hour\<rparr>"
  have "plain_json ''requests''" by (simp add: plain_json_def)
  moreover have "pg_in_window sample_server ?tr 0"
    by (subst pg_in_window_times [OF documented_sample]) (simp_all add: four_digit_years_iff day_def whole_second_def duration_defs)
  ultimately show ?thesis
    using pg_statistics_count_every_selector [OF documented_sample, of "''requests''" "empty_tables\<lparr>t_queries := [quotient_query]\<rparr>" ?tr 0]
    by (auto simp: quotient_query_def query_at_def names_metric_def first_metric_name_def)
qed

end
