(* ===== verification/Pg_Charts.thy ===== *)
theory Pg_Charts
  imports Pg_Reports
begin

text \<open>
  The charts of the PostgreSQL provider (\<open>internal/db/postgresql.go\<close>). \<open>generate_series\<close> gives the
  starts of the buckets, an interval apart; the queries are grouped by the minute of their time
  and a group is joined to the bucket whose start is that minute. An interval longer than a
  minute therefore shows one minute of each bucket.
\<close>

section \<open>Buckets\<close>

definition pg_bucket_length :: "TimeRange \<Rightarrow> duration" where
  "pg_bucket_length tr = the (interval_length (GetInterval (tr_From tr) (tr_To tr) ''postgresql''))"

text \<open>\<open>generate_series(start, stop, step)\<close>, the end included, none when it is before the start.\<close>

definition generate_series :: "time \<Rightarrow> time \<Rightarrow> duration \<Rightarrow> time list" where
  "generate_series start stop step = map (\<lambda>i. start + int i * step) [0..<nat ((stop - start) div step + 1)]"

definition pg_buckets :: "pg_server \<Rightarrow> TimeRange \<Rightarrow> time list" where
  "pg_buckets sv tr =
     (case PrepareTimeRange tr ''postgresql'' of (from, to) \<Rightarrow>
        generate_series (minute_floor (sv_literal sv from)) (minute_floor (sv_literal sv to)) (pg_bucket_length tr))"

text \<open>Here the end of the window does not count.\<close>

definition pg_in_chart :: "pg_server \<Rightarrow> TimeRange \<Rightarrow> time \<Rightarrow> bool" where
  "pg_in_chart sv tr ts \<longleftrightarrow>
     (case PrepareTimeRange tr ''postgresql'' of (from, to) \<Rightarrow> sv_literal sv from \<le> ts \<and> ts < sv_literal sv to)"

text \<open>One point per bucket: its start, as the driver's time is written, and a value of its group.\<close>

definition pg_chart ::
  "pg_server \<Rightarrow> read_faults \<Rightarrow> TimeRange \<Rightarrow> (string \<Rightarrow> Query list \<Rightarrow> 'p) \<Rightarrow> Query list \<Rightarrow> go_error + 'p list" where
  "pg_chart sv fl tr point rows =
     (case rf_query fl of
        Some err \<Rightarrow> Inl (''executing query: '' @ err)
      | None \<Rightarrow> scan_rows operation_labels fl 0
          (map (\<lambda>b. point (format_RFC3339 b)
                  (filter (\<lambda>q. pg_in_chart sv tr (q_TS q) \<and> minute_floor (q_TS q) = b) rows)) (pg_buckets sv tr)))"

section \<open>The charts\<close>

definition PgGetQueryStatusDistribution where
  "PgGetQueryStatusDistribution sv fl now t tr0 fingerprint =
     pg_chart sv fl (SetDefaultTimeRange now tr0) status_point (filter (fingerprint_matches fingerprint) (t_queries t))"

definition PgGetQueryThroughputAnalysis where
  "PgGetQueryThroughputAnalysis sv fl now t tr0 =
     pg_chart sv fl (SetDefaultTimeRange now tr0) (\<lambda>time qs. \<lparr>vr_Time = time, vr_Value = real (length qs)\<rparr>) (t_queries t)"

definition PgGetQueryErrorAnalysis where
  "PgGetQueryErrorAnalysis sv fl now t tr0 fingerprint =
     pg_chart sv fl (SetDefaultTimeRange now tr0)
       (\<lambda>time qs. \<lparr>vr_Time = time, vr_Value = real_of_int (count_if (\<lambda>q. q_StatusCode q \<ge> 400) qs)\<rparr>)
       (filter (fingerprint_matches fingerprint) (t_queries t))"

text \<open>\<open>percentile_cont(0.95)\<close> interpolates between the two rows next to the rank.\<close>

definition percentile_cont95 :: "int list \<Rightarrow> real" where
  "percentile_cont95 xs =
     (let ys = sort xs; rank = 95 * (length ys - 1); below = ys ! (rank div 100);
          above = ys ! min (Suc (rank div 100)) (length ys - 1)
      in real_of_int below + real (rank mod 100) / 100 * real_of_int (above - below))"

text \<open>Go's conversion of a float to an integer drops the fraction.\<close>

definition int_of_float :: "real \<Rightarrow> int" where
  "int_of_float x = (if 0 \<le> x then \<lfloor>x\<rfloor> else \<lceil>x\<rceil>)"

definition pg_latency_point :: "pg_server \<Rightarrow> string \<Rightarrow> Query list \<Rightarrow> QueryLatencyTrendsResult" where
  "pg_latency_point sv time qs =
     \<lparr>lt_Value = (if qs = [] then 0 else sv_round2 sv (avg0 (map duration_ms qs))),
      lt_P95 = int_of_float (if qs = [] then 0 else sv_round2 sv (percentile_cont95 (map duration_ms qs))),
      lt_Time = time\<rparr>"

definition PgGetQueryLatencyTrends where
  "PgGetQueryLatencyTrends sv fl now t tr0 metricName fingerprint =
     pg_chart sv (json_fault sv metricName fl) (SetDefaultTimeRange now tr0) (pg_latency_point sv)
       (filter (\<lambda>q. pg_metric_matches sv metricName q \<and> fingerprint_matches fingerprint q) (t_queries t))"

section \<open>The distribution of range queries\<close>

text \<open>\<open>EXTRACT(EPOCH FROM ("end" - start))::bigint\<close> rounds to the nearest second.\<close>

definition pg_range_seconds :: "Query \<Rightarrow> int" where
  "pg_range_seconds q = (q_End q - q_Start q + second div 2) div second"

definition pg_range_queries :: "pg_server \<Rightarrow> tables \<Rightarrow> TimeRange \<Rightarrow> string \<Rightarrow> Query list" where
  "pg_range_queries sv t tr fingerprint = filter (\<lambda>q. pg_in_window sv tr (q_TS q) \<and> fingerprint_matches fingerprint q
     \<and> q_Type q = QueryTypeRange \<and> q_End q > q_Start q) (t_queries t)"

definition PgGetQueryTimeRangeDistribution where
  "PgGetQueryTimeRangeDistribution sv fl now t tr0 fingerprint =
     (case rf_query fl of
        Some err \<Rightarrow> Inl (''executing query: '' @ err)
      | None \<Rightarrow> scan_rows operation_labels fl 0
          (map (range_row (sv_round2 sv) (map pg_range_seconds (pg_range_queries sv t (SetDefaultTimeRange now tr0) fingerprint))) range_classes))"

section \<open>Facts\<close>

lemma minute_floor_whole_second: "minute_floor (whole_second t) = minute_floor t"
proof -
  have "t div minute = t div second div 60" for t :: time
    using zdiv_zmult2_eq [of 60 t second] by (simp add: minute_def mult.commute)
  moreover have "whole_second t div second = t div second" by (simp add: whole_second_def second_def)
  ultimately show ?thesis by (simp add: minute_floor_def minus_mod_eq_mult_div)
qed

lemma minute_floor_mono: "a \<le> b \<Longrightarrow> minute_floor a \<le> minute_floor b"
  by (simp add: minute_floor_def minus_mod_eq_mult_div zdiv_mono1 duration_defs)

lemma set_generate_series:
  assumes "0 < l"
  shows "x \<in> set (generate_series start stop l) \<longleftrightarrow> start \<le> x \<and> x \<le> stop \<and> l dvd x - start"
proof -
  have "(\<exists>i < nat ((stop - start) div l + 1). x = start + int i * l) \<longleftrightarrow> start \<le> x \<and> x \<le> stop \<and> l dvd x - start" (is "?l = ?r")
  proof
    assume ?l
    then obtain i where "i < nat ((stop - start) div l + 1)" and x: "x = start + int i * l" by blast
    then have i: "int i \<le> (stop - start) div l" by simp
    then have "int i * l \<le> stop - start"
      using mult_right_mono [OF i, of l] pos_mod_sign [OF assms, of "stop - start"] div_mult_mod_eq [of "stop - start" l] assms by linarith
    with x assms show ?r by simp
  next
    assume r: ?r
    then obtain k where k: "x - start = l * k" by (auto elim: dvdE)
    with r assms have "0 \<le> k" by (metis diff_ge_0_iff_ge zero_le_mult_iff not_less)
    moreover have "k \<le> (stop - start) div l" using r k assms zdiv_mono1 [of "l * k" "stop - start" l] by simp
    ultimately show ?l using k by (intro exI [of _ "nat k"]) (auto simp: algebra_simps)
  qed
  then show ?thesis by (auto simp: generate_series_def)
qed

lemma distinct_generate_series: "0 < l \<Longrightarrow> distinct (generate_series start stop l)"
  by (auto simp: generate_series_def distinct_map inj_on_def)

lemma count_by_key:
  assumes "distinct ks"
  shows "(\<Sum>k \<leftarrow> ks. length (filter (\<lambda>x. P x \<and> f x = k) xs)) = length (filter (\<lambda>x. P x \<and> f x \<in> set ks) xs)"
  using assms
proof (induction ks)
  case (Cons k ks)
  have "length (filter (\<lambda>x. P x \<and> f x \<in> set (k # ks)) xs)
      = length (filter (\<lambda>x. P x \<and> f x = k) xs) + length (filter (\<lambda>x. P x \<and> f x \<in> set ks) xs)"
    using Cons.prems by (induction xs) auto
  with Cons show ?case by simp
qed simp

lemma pg_bucket_length_minutes: "minute \<le> pg_bucket_length tr" "minute dvd pg_bucket_length tr"
  by (auto simp: pg_bucket_length_def GetInterval_def interval_length_def Let_def day_def duration_defs)

lemma pg_bucket_length_same: "pg_bucket_length tr = bucket_length tr"
  by (simp add: pg_bucket_length_def bucket_length_def GetInterval_def interval_length_def Let_def)

text \<open>The buckets of a window are the minutes an interval apart, from the minute of its start.\<close>

definition on_grid :: "TimeRange \<Rightarrow> time \<Rightarrow> bool" where
  "on_grid tr ts \<longleftrightarrow> pg_bucket_length tr dvd minute_floor ts - minute_floor (tr_From tr)"

lemma on_grid_minutes: "pg_bucket_length tr = minute \<Longrightarrow> on_grid tr ts"
  by (simp add: on_grid_def)

lemma pg_in_chart_times:
  assumes "documented sv" "four_digit_years (tr_From tr)" "four_digit_years (tr_To tr)"
  shows "pg_in_chart sv tr ts \<longleftrightarrow> whole_second (tr_From tr) \<le> ts \<and> ts < whole_second (tr_To tr)"
  using assms by (simp add: pg_in_chart_def PrepareTimeRange_def TimeRange_Format_def documentedD(3) whole_second_def)

lemma pg_buckets_times:
  assumes "documented sv" "four_digit_years (tr_From tr)" "four_digit_years (tr_To tr)"
  shows "pg_buckets sv tr = generate_series (minute_floor (tr_From tr)) (minute_floor (tr_To tr)) (pg_bucket_length tr)"
  using assms minute_floor_whole_second
  by (simp add: pg_buckets_def PrepareTimeRange_def TimeRange_Format_def documentedD(3) whole_second_def [symmetric])

lemma pg_bucket_length_cases:
  "pg_bucket_length tr = minute \<longleftrightarrow> tr_To tr - tr_From tr \<le> 2 * hour"
  "pg_bucket_length tr = minute \<or> 5 * minute \<le> pg_bucket_length tr"
proof -
  have short: "time_sub (tr_To tr) (tr_From tr) \<le> 2 * hour \<longleftrightarrow> tr_To tr - tr_From tr \<le> 2 * hour"
    by (auto simp: time_sub_def minDuration_def maxDuration_def duration_defs)
  show "pg_bucket_length tr = minute \<longleftrightarrow> tr_To tr - tr_From tr \<le> 2 * hour"
    unfolding short [symmetric] by (simp add: pg_bucket_length_def GetInterval_def interval_length_def Let_def duration_defs)
  show "pg_bucket_length tr = minute \<or> 5 * minute \<le> pg_bucket_length tr"
    by (simp add: pg_bucket_length_def GetInterval_def interval_length_def Let_def duration_defs)
qed

text \<open>A query of the window is joined to a bucket exactly when its minute is on the grid.\<close>

lemma pg_bucket_of_query:
  assumes "documented sv" "four_digit_years (tr_From tr)" "four_digit_years (tr_To tr)" "pg_in_chart sv tr ts"
  shows "minute_floor ts \<in> set (pg_buckets sv tr) \<longleftrightarrow> on_grid tr ts"
proof -
  have "0 < pg_bucket_length tr" using pg_bucket_length_minutes(1) [of tr] by (simp add: duration_defs)
  moreover have "minute_floor (whole_second (tr_From tr)) \<le> minute_floor ts" "minute_floor ts \<le> minute_floor (whole_second (tr_To tr))"
    using assms(4) unfolding pg_in_chart_times [OF assms(1-3)] by (auto intro: minute_floor_mono)
  ultimately show ?thesis
    by (simp add: pg_buckets_times [OF assms(1-3)] set_generate_series on_grid_def minute_floor_whole_second)
qed

lemma pg_chart_healthy:
  "pg_chart sv no_read_faults tr point rows = Inr (map (\<lambda>b. point (format_RFC3339 b)
     (filter (\<lambda>q. pg_in_chart sv tr (q_TS q) \<and> minute_floor (q_TS q) = b) rows)) (pg_buckets sv tr))"
  by (simp add: pg_chart_def)

text \<open>What the values of the points add up to, for a point that counts its rows.\<close>

lemma pg_chart_total:
  assumes "documented sv" "four_digit_years (tr_From tr)" "four_digit_years (tr_To tr)"
  shows "(\<Sum>b \<leftarrow> pg_buckets sv tr. length (filter P (filter (\<lambda>q. pg_in_chart sv tr (q_TS q) \<and> minute_floor (q_TS q) = b) rows)))
    = length (filter (\<lambda>q. P q \<and> pg_in_chart sv tr (q_TS q) \<and> on_grid tr (q_TS q)) rows)"
proof -
  have "distinct (pg_buckets sv tr)"
    using pg_bucket_length_minutes(1) [of tr] by (simp add: pg_buckets_times [OF assms] distinct_generate_series duration_defs)
  from count_by_key [OF this, of "\<lambda>q. P q \<and> pg_in_chart sv tr (q_TS q)" "minute_floor \<circ> q_TS" rows]
  have "(\<Sum>b \<leftarrow> pg_buckets sv tr. length (filter P (filter (\<lambda>q. pg_in_chart sv tr (q_TS q) \<and> minute_floor (q_TS q) = b) rows)))
      = length (filter (\<lambda>q. (P q \<and> pg_in_chart sv tr (q_TS q)) \<and> minute_floor (q_TS q) \<in> set (pg_buckets sv tr)) rows)"
    by (simp add: conj_ac)
  also have "\<dots> = length (filter (\<lambda>q. P q \<and> pg_in_chart sv tr (q_TS q) \<and> on_grid tr (q_TS q)) rows)"
    using pg_bucket_of_query [OF assms] by (intro arg_cong [where f = length] filter_cong) auto
  finally show ?thesis .
qed

text \<open>
  C14. A chart of the PostgreSQL provider counts the queries of the window whose minute is a
  whole number of intervals after the minute of its start, and no other: its points add up to
  exactly those. For a window of up to two hours that is every query; for a longer one the
  interval is longer than a minute and the queries of all other minutes are in no point.
\<close>

theorem pg_charts_count_grid_minutes:
  assumes "documented sv" "SetDefaultTimeRange now tr0 = tr" "four_digit_years (tr_From tr)" "four_digit_years (tr_To tr)"
  defines "inside \<equiv> \<lambda>q. whole_second (tr_From tr) \<le> q_TS q \<and> q_TS q < whole_second (tr_To tr)"
  shows "\<exists>points errors. PgGetQueryThroughputAnalysis sv no_read_faults now t tr0 = Inr points
       \<and> PgGetQueryErrorAnalysis sv no_read_faults now t tr0 fp = Inr errors
       \<and> (\<Sum>p \<leftarrow> points. vr_Value p) = real (length (filter (\<lambda>q. inside q \<and> on_grid tr (q_TS q)) (t_queries t)))
       \<and> (\<Sum>p \<leftarrow> errors. vr_Value p) = real (length (filter (\<lambda>q. inside q \<and> on_grid tr (q_TS q))
            (filter (\<lambda>q. fingerprint_matches fp q \<and> q_StatusCode q \<ge> 400) (t_queries t))))
       \<and> (tr_To tr - tr_From tr \<le> 2 * hour \<longrightarrow> (\<forall>q. on_grid tr (q_TS q)))
       \<and> (2 * hour < tr_To tr - tr_From tr \<longrightarrow> (\<forall>q. minute_floor (q_TS q) = minute_floor (tr_From tr) + minute \<longrightarrow> \<not> on_grid tr (q_TS q)))"
proof -
  define points where "points = map (\<lambda>b. \<lparr>vr_Time = format_RFC3339 b, vr_Value = real (length
      (filter (\<lambda>q. pg_in_chart sv tr (q_TS q) \<and> minute_floor (q_TS q) = b) (t_queries t)))\<rparr>) (pg_buckets sv tr)"
  define errors where "errors = map (\<lambda>b. \<lparr>vr_Time = format_RFC3339 b, vr_Value = real_of_int (count_if (\<lambda>q. q_StatusCode q \<ge> 400)
      (filter (\<lambda>q. pg_in_chart sv tr (q_TS q) \<and> minute_floor (q_TS q) = b) (filter (fingerprint_matches fp) (t_queries t))))\<rparr>) (pg_buckets sv tr)"
  note total = pg_chart_total [OF assms(1,3,4)] and inside = pg_in_chart_times [OF assms(1,3,4)]
  have 1: "PgGetQueryThroughputAnalysis sv no_read_faults now t tr0 = Inr points"
    by (simp add: PgGetQueryThroughputAnalysis_def assms(2) pg_chart_healthy points_def)
  have 2: "PgGetQueryErrorAnalysis sv no_read_faults now t tr0 fp = Inr errors"
    by (simp add: PgGetQueryErrorAnalysis_def assms(2) pg_chart_healthy errors_def)
  have 3: "(\<Sum>p \<leftarrow> points. vr_Value p) = real (length (filter (\<lambda>q. inside q \<and> on_grid tr (q_TS q)) (t_queries t)))"
    using total [of "\<lambda>_. True" "t_queries t"] by (simp add: points_def inside_def inside comp_def sum_list_real)
  have 4: "(\<Sum>p \<leftarrow> errors. vr_Value p) = real (length (filter (\<lambda>q. inside q \<and> on_grid tr (q_TS q))
      (filter (\<lambda>q. fingerprint_matches fp q \<and> q_StatusCode q \<ge> 400) (t_queries t))))"
    using total [of "\<lambda>q. q_StatusCode q \<ge> 400" "filter (fingerprint_matches fp) (t_queries t)"]
    by (simp add: errors_def inside_def inside comp_def count_if_def sum_list_real conj_ac)
  have 5: "\<forall>q. on_grid tr (q_TS q)" if "tr_To tr - tr_From tr \<le> 2 * hour"
    using that pg_bucket_length_cases(1) [of tr] on_grid_minutes [of tr] by simp
  have 6: "\<not> on_grid tr ts" if "2 * hour < tr_To tr - tr_From tr" "minute_floor ts = minute_floor (tr_From tr) + minute" for ts
    using that pg_bucket_length_cases [of tr] zdvd_imp_le [of "pg_bucket_length tr" minute] by (auto simp: on_grid_def duration_defs)
  show ?thesis by (rule exI [of _ points], rule exI [of _ errors]) (use 1 2 3 4 5 6 in auto)
qed

theorem pg_charts_count_grid_minutes_witness:
  "\<exists>points. PgGetQueryThroughputAnalysis sample_server no_read_faults 0
       (empty_tables\<lparr>t_queries := [query_at 0, query_at minute, query_at (15 * minute)]\<rparr>) \<lparr>tr_From = 0, tr_To = 24 * hour\<rparr> = Inr points
     \<and> (\<Sum>p \<leftarrow> points. vr_Value p) = 2"
proof -
  let ?tr = "\<lparr>tr_From = 0, tr_To = 24 * hour\<rparr>" and ?qs = "[query_at 0, query_at minute, query_at (15 * minute)]"
  have tr: "SetDefaultTimeRange 0 ?tr = ?tr"
    by (simp add: SetDefaultTimeRange_def zero_time_def duration_defs)
  have y: "four_digit_years (tr_From ?tr)" "four_digit_years (tr_To ?tr)" by (simp_all add: four_digit_years_iff day_def duration_defs)
  have l: "pg_bucket_length ?tr = 15 * minute"
    by (simp add: pg_bucket_length_def GetInterval_def interval_length_def time_sub_exact maxDuration_def duration_defs)
  have "filter (\<lambda>q. (whole_second 0 \<le> q_TS q \<and> q_TS q < whole_second (24 * hour)) \<and> on_grid ?tr (q_TS q)) ?qs
      = [query_at 0, query_at (15 * minute)]"
    unfolding on_grid_def l by (simp add: whole_second_def minute_floor_def query_at_def duration_defs)
  then show ?thesis
    using pg_charts_count_grid_minutes [OF documented_sample tr y, of "empty_tables\<lparr>t_queries := ?qs\<rparr>" "[]"] by auto
qed

section \<open>The 95th percentile\<close>

text \<open>It lies between two durations of the group, never above the longest, the value SQLite gives.\<close>

lemma percentile_cont95_bounds:
  assumes "xs \<noteq> []"
  shows "\<exists>a \<in> set xs. \<exists>b \<in> set xs. real_of_int a \<le> percentile_cont95 xs \<and> percentile_cont95 xs \<le> real_of_int b"
proof -
  define ys n where "ys = sort xs" and "n = length ys"
  define i where "i = 95 * (n - 1) div 100"
  have n: "0 < n" "set ys = set xs" using assms by (simp_all add: n_def ys_def)
  define a b where "a = ys ! i" and "b = ys ! min (Suc i) (n - 1)"
  have i: "i < n" "min (Suc i) (n - 1) < n" "i \<le> min (Suc i) (n - 1)" using n(1) by (auto simp: i_def)
  have ab: "a \<le> b" unfolding a_def b_def by (rule sorted_nth_mono) (use i in \<open>auto simp: ys_def n_def\<close>)
  define w where "w = real (95 * (n - 1) mod 100) / 100"
  have w: "0 \<le> w" "w \<le> 1" by (simp_all add: w_def)
  have p: "percentile_cont95 xs = real_of_int a + w * real_of_int (b - a)"
    unfolding percentile_cont95_def Let_def a_def b_def w_def i_def n_def ys_def by (rule refl)
  have "0 \<le> w * (real_of_int b - real_of_int a)" "w * (real_of_int b - real_of_int a) \<le> real_of_int b - real_of_int a"
    using ab w by (intro mult_nonneg_nonneg mult_left_le_one_le; linarith)+
  moreover have "a \<in> set ys" "b \<in> set ys" unfolding a_def b_def by (rule nth_mem, use i(1,2) n_def in simp)+
  ultimately show ?thesis
    unfolding p of_int_diff n(2) [symmetric] by (intro bexI [of _ a] bexI [of _ b] conjI) (assumption | linarith)+
qed

lemma percentile_cont95_at_most_maximum:
  "xs \<noteq> [] \<Longrightarrow> percentile_cont95 xs \<le> real_of_int (Max (set xs))"
  using percentile_cont95_bounds [of xs] Max_ge [of "set xs"] by (metis List.finite_set of_int_le_iff order_trans)

section \<open>The classes of range queries\<close>

text \<open>Both providers put a range query of whole seconds into the same class.\<close>

lemma pg_range_seconds_same:
  assumes "second dvd q_Start q" "second dvd q_End q"
  shows "pg_range_seconds q = range_seconds q"
proof -
  obtain a b where q: "q_Start q = second * a" "q_End q = second * b" using assms by (auto elim!: dvdE)
  have "q_End q - q_Start q + second div 2 = second div 2 + second * (b - a)" by (simp add: q algebra_simps)
  then show ?thesis by (simp add: pg_range_seconds_def range_seconds_def q second_def del: mult_minus_right)
qed

end
