(* ===== verification/Go_Text.thy ===== *)
theory Go_Text
  imports Go_Prelude
begin

text \<open>
  Decimal texts: reading back what \<open>itoa\<close> writes, the characters it uses, and \<open>%d\<close> of an integer.
\<close>

definition read_nat :: "string \<Rightarrow> nat" where
  "read_nat s = foldl (\<lambda>n c. 10 * n + (of_char c - 48)) 0 s"

lemma digit_char: "n < 10 \<Longrightarrow> of_char (char_of (48 + n) :: char) - 48 = n" "n < 10 \<Longrightarrow> (char_of (48 + n) :: char) \<noteq> CHR ''.''"
  for n :: nat
proof -
  assume n: "n < 10"
  then have c: "of_char (char_of (48 + n) :: char) = 48 + n" by (simp add: of_char_of)
  then show "of_char (char_of (48 + n) :: char) - 48 = n" by simp
  show "(char_of (48 + n) :: char) \<noteq> CHR ''.''"
  proof
    assume "(char_of (48 + n) :: char) = CHR ''.''"
    then have "(of_char (char_of (48 + n) :: char) :: nat) = 46" by simp
    with c show False by simp
  qed
qed

lemma read_nat_snoc: "read_nat (s @ [c]) = 10 * read_nat s + (of_char c - 48)"
  by (simp add: read_nat_def)

lemma read_nat_zeros: "read_nat (s @ replicate k (CHR ''0'')) = read_nat s * 10 ^ k"
  by (induction k) (simp_all add: read_nat_snoc replicate_append_same [symmetric] flip: append_assoc)

lemma itoa_facts: "read_nat (itoa n) = n" "CHR ''.'' \<notin> set (itoa n)"
proof (induction n rule: itoa.induct)
  case (1 n)
  { case 1 show ?case using "1.IH" digit_char(1) [of "n mod 10"] digit_char(1) [of n]
      by (subst itoa.simps) (auto simp: read_nat_snoc read_nat_def simp del: of_char_of) }
  { case 2 show ?case using "1.IH" digit_char(2) [of "n mod 10"] digit_char(2) [of n]
      by (subst itoa.simps) auto }
qed

lemma itoa_inj: "itoa m = itoa n \<longleftrightarrow> m = n"
  using itoa_facts(1) by metis

lemma itoa_nonempty [simp]: "itoa n \<noteq> []"
  by (subst itoa.simps) simp

definition digit :: "char \<Rightarrow> bool" where
  "digit c \<longleftrightarrow> 48 \<le> (of_char c :: nat) \<and> of_char c \<le> (57 :: nat)"

lemma itoa_digits: "list_all digit (itoa n)"
proof (induction n rule: itoa.induct)
  case (1 n)
  have d: "digit (char_of (48 + k))" if "k < 10" for k :: nat
    using that by (simp add: digit_def of_char_of)
  show ?case using 1 d [of n] d [of "n mod 10"] by (subst itoa.simps) auto
qed

text \<open>\<open>%d\<close> of an integer.\<close>

definition int_text :: "int \<Rightarrow> string" where
  "int_text i = (if i < 0 then CHR 0x2D # itoa (nat (- i)) else itoa (nat i))"

lemma int_text_chars: "c \<in> set (int_text i) \<Longrightarrow> digit c \<or> c = CHR 0x2D"
  using itoa_digits by (auto simp: int_text_def list_all_iff split: if_splits)

lemma int_text_inj: "int_text i = int_text j \<longleftrightarrow> i = j"
proof -
  have "CHR 0x2D # itoa m \<noteq> itoa n" for m n
    using itoa_digits [of n] by (cases "itoa n") (auto simp: digit_def)
  then show ?thesis by (auto simp: int_text_def itoa_inj dest!: sym [of "itoa _" "CHR 0x2D # itoa _"])
qed

end
