(* ===== verification/Db_Open.thy ===== *)
theory Db_Open
  imports Db_Common Config Go_Text
begin

text \<open>
  Opening a database (\<open>internal/db\<close>: \<open>GetDbProvider\<close> of \<open>provider.go\<close>, \<open>newPostGreSQLProvider\<close>,
  \<open>newSqliteProvider\<close>, \<open>migrate.go\<close>): the connection string, the limits of the pool, the migrations
  and the errors. The drivers of \<open>database/sql\<close> and the migration library are arguments.
\<close>

section \<open>The connection string of PostgreSQL\<close>

text \<open>\<open>int(d.Seconds())\<close>, the number of whole seconds; exact in floating point below 90 days.\<close>

definition whole_seconds :: "duration \<Rightarrow> int" where
  "whole_seconds d = (if d < 0 then - ((- d) div second) else d div second)"

definition quoted :: "string \<Rightarrow> string" where
  "quoted v = [CHR 0x27] @ v @ [CHR 0x27]"

definition conn_string :: "PostgreSQLConfig \<Rightarrow> string" where
  "conn_string c =
     ''host='' @ quoted (pg_Addr c) @ '' port='' @ int_text (pg_Port c) @ '' user='' @ quoted (pg_User c)
     @ '' password='' @ quoted (pg_Password c) @ '' dbname='' @ quoted (pg_Database c)
     @ '' sslmode='' @ quoted (pg_SSLMode c) @ '' connect_timeout='' @ int_text (whole_seconds (pg_DialTimeout c))
     @ '' application_name=prom-analytics-proxy''"

section \<open>Opening\<close>

record pool_limits =
  pl_MaxOpenConns :: int
  pl_MaxIdleConns :: int
  pl_ConnMaxLifetime :: duration \<comment> \<open>0: for ever\<close>
  pl_ConnMaxIdleTime :: duration

datatype Provider = PostGreSQLProvider string pool_limits | SQLiteProvider string pool_limits

text \<open>
  What the libraries answer: opening a driver with a data source, reaching the database, setting
  the dialect of the migrations, running those of a directory, one statement.
\<close>

record sql_library =
  sl_open :: "string \<Rightarrow> string \<Rightarrow> db_error option"
  sl_ping :: "string \<Rightarrow> db_error option"
  sl_setDialect :: "string \<Rightarrow> db_error option"
  sl_up :: "string \<Rightarrow> string \<Rightarrow> string \<Rightarrow> db_error option" \<comment> \<open>data source, dialect, directory\<close>
  sl_exec :: "string \<Rightarrow> string \<Rightarrow> db_error option"

definition runMigrations :: "sql_library \<Rightarrow> string \<Rightarrow> string \<Rightarrow> db_error option" where
  "runMigrations sl source engine =
     (let target =
        (if engine = ''postgres'' \<or> engine = ''postgresql'' then Some (''postgres'', ''migrations/postgresql'')
         else if engine = ''sqlite'' \<or> engine = ''sqlite3'' then Some (''sqlite3'', ''migrations/sqlite'')
         else None)
      in case target of
           None \<Rightarrow> Some (Flat (''unsupported database engine for migrations: '' @ engine))
         | Some (dialect, dir) \<Rightarrow>
             (case sl_setDialect sl dialect of
                Some err \<Rightarrow> Some (Wrapped ''set goose dialect'' err)
              | None \<Rightarrow>
                  (case sl_up sl source dialect dir of
                     Some err \<Rightarrow> Some (Wrapped ''apply migrations'' err)
                   | None \<Rightarrow> None)))"

definition set_or :: "int \<Rightarrow> int \<Rightarrow> int" where
  "set_or x d = (if x > 0 then x else d)"

definition newPostGreSQLProvider :: "sql_library \<Rightarrow> PostgreSQLConfig \<Rightarrow> db_error + Provider" where
  "newPostGreSQLProvider sl c =
     (let psqlInfo = conn_string c in
      case sl_open sl ''postgres'' psqlInfo of
        Some err \<Rightarrow> Inl (ConnectionError err ''PostgreSQL'' ''failed to open connection'')
      | None \<Rightarrow>
          (let limits = \<lparr>pl_MaxOpenConns = set_or (pg_MaxOpenConns c) 20, pl_MaxIdleConns = set_or (pg_MaxIdleConns c) 10,
                 pl_ConnMaxLifetime = set_or (pg_ConnMaxLifetime c) (30 * minute),
                 pl_ConnMaxIdleTime = set_or (pg_ConnMaxIdleTime c) (5 * minute)\<rparr>
           in case sl_ping sl psqlInfo of
                Some err \<Rightarrow> Inl (ConnectionError err ''PostgreSQL'' ''failed to ping database'')
              | None \<Rightarrow>
                  (case runMigrations sl psqlInfo ''postgres'' of
                     Some err \<Rightarrow> Inl (SchemaError err ''migration'' ''postgres'')
                   | None \<Rightarrow> Inr (PostGreSQLProvider psqlInfo limits))))"

definition newSqliteProvider :: "sql_library \<Rightarrow> SQLiteConfig \<Rightarrow> db_error + Provider" where
  "newSqliteProvider sl c =
     (let path = sl_DatabasePath c in
      case sl_open sl ''sqlite'' path of
        Some err \<Rightarrow> Inl (ConnectionError err ''SQLite'' ''failed to open connection'')
      | None \<Rightarrow>
          (let limits = \<lparr>pl_MaxOpenConns = 1, pl_MaxIdleConns = 1, pl_ConnMaxLifetime = 0, pl_ConnMaxIdleTime = 0\<rparr>
           in case sl_ping sl path of
                Some err \<Rightarrow> Inl (ConnectionError err ''SQLite'' ''failed to ping database'')
              | None \<Rightarrow>
                  (case runMigrations sl path ''sqlite'' of
                     Some err \<Rightarrow> Inl (SchemaError err ''migration'' ''sqlite'')
                   | None \<Rightarrow>
                       (case sl_exec sl path ''PRAGMA busy_timeout = 5000'' of
                          Some err \<Rightarrow> Inl (SchemaError err ''pragma'' ''busy_timeout'')
                        | None \<Rightarrow> Inr (SQLiteProvider path limits)))))"

definition GetDbProvider :: "sql_library \<Rightarrow> DatabaseConfig \<Rightarrow> db_error + Provider" where
  "GetDbProvider sl c =
     (if db_Provider c = ''postgresql'' then newPostGreSQLProvider sl (db_PostgreSQL c)
      else if db_Provider c = ''sqlite'' then newSqliteProvider sl (db_SQLite c)
      else Inl (ValidationError ''database type''
             (''invalid type '' @ [CHR 0x22] @ db_Provider c @ [CHR 0x22] @ '', only 'postgresql' and 'sqlite' are supported'')))"

section \<open>The connection string identifies the settings\<close>

lemma split_at_eq: "c \<notin> set a \<Longrightarrow> c \<notin> set b \<Longrightarrow> a @ c # x = b @ c # y \<longleftrightarrow> a = b \<and> x = y"
proof (induction a arbitrary: b)
  case (Cons d a)
  then show ?case by (cases b) auto
qed (auto simp: Cons_eq_append_conv)

lemma quoted_eq:
  "CHR 0x27 \<notin> set a \<Longrightarrow> CHR 0x27 \<notin> set b \<Longrightarrow> quoted a @ x = quoted b @ y \<longleftrightarrow> a = b \<and> x = y"
  by (simp add: quoted_def split_at_eq)

lemma int_text_eq: "int_text i @ CHR '' '' # x = int_text j @ CHR '' '' # y \<longleftrightarrow> i = j \<and> x = y"
proof -
  have "CHR '' '' \<notin> set (int_text k)" for k using int_text_chars [of "CHR '' ''" k] by (auto simp: digit_def)
  then show ?thesis by (simp add: split_at_eq int_text_inj)
qed

definition without_quotes :: "PostgreSQLConfig \<Rightarrow> bool" where
  "without_quotes c \<longleftrightarrow> (\<forall>v \<in> {pg_Addr c, pg_User c, pg_Password c, pg_Database c, pg_SSLMode c}. CHR 0x27 \<notin> set v)"


definition local_postgres :: PostgreSQLConfig where
  "local_postgres = \<lparr>pg_Addr = ''localhost'', pg_Database = ''prom'', pg_DialTimeout = 500 * millisecond, pg_Password = ''secret'',
     pg_Port = 5432, pg_SSLMode = ''disable'', pg_User = ''proxy'', pg_MaxOpenConns = 0, pg_MaxIdleConns = 0,
     pg_ConnMaxLifetime = 0, pg_ConnMaxIdleTime = 0\<rparr>"


text \<open>A quote in a value runs into the next setting: two users, two passwords, one string.\<close>

lemma quotes_collide:
  "conn_string (local_postgres\<lparr>pg_User := ''x' password='y'', pg_Password := ''z''\<rparr>)
   = conn_string (local_postgres\<lparr>pg_User := ''x'', pg_Password := ''y' password='z''\<rparr>)"
  by (simp add: conn_string_def quoted_def local_postgres_def)

section \<open>What an opened provider has been through\<close>

lemma runMigrations_postgres: "runMigrations sl source ''postgres'' = None
  \<longleftrightarrow> sl_setDialect sl ''postgres'' = None \<and> sl_up sl source ''postgres'' ''migrations/postgresql'' = None"
  by (simp add: runMigrations_def split: option.split)

lemma runMigrations_sqlite: "runMigrations sl source ''sqlite'' = None
  \<longleftrightarrow> sl_setDialect sl ''sqlite3'' = None \<and> sl_up sl source ''sqlite3'' ''migrations/sqlite'' = None"
  by (simp add: runMigrations_def split: option.split)

lemma GetDbProvider_opened:
  assumes "GetDbProvider sl c = Inr p"
  shows "(db_Provider c = ''postgresql'' \<and> (\<exists>l. p = PostGreSQLProvider (conn_string (db_PostgreSQL c)) l \<and> 0 < pl_MaxOpenConns l
            \<and> 0 < pl_MaxIdleConns l \<and> 0 < pl_ConnMaxLifetime l \<and> 0 < pl_ConnMaxIdleTime l)
            \<and> sl_up sl (conn_string (db_PostgreSQL c)) ''postgres'' ''migrations/postgresql'' = None)
    \<or> (db_Provider c = ''sqlite'' \<and> (\<exists>l. p = SQLiteProvider (sl_DatabasePath (db_SQLite c)) l \<and> pl_MaxOpenConns l = 1)
         \<and> sl_up sl (sl_DatabasePath (db_SQLite c)) ''sqlite3'' ''migrations/sqlite'' = None)"
  using assms runMigrations_postgres [of sl "conn_string (db_PostgreSQL c)"] runMigrations_sqlite [of sl "sl_DatabasePath (db_SQLite c)"]
  by (auto simp: GetDbProvider_def newPostGreSQLProvider_def newSqliteProvider_def set_or_def duration_defs Let_def
      split: option.splits if_splits)

end
