(* ===== verification/Mux.thy ===== *)
theory Mux
  imports Routes_Reports
begin

text \<open>
  Which handler answers a request (\<open>api/routes/routes.go\<close>): the table of \<open>WithHandlers\<close>, read by
  the matching of Go's \<open>http.ServeMux\<close>, the rewriting of the reverse proxy, the files of the user
  interface and the options of \<open>NewRoutes\<close>. Paths are those of the URL as it was sent; the decoding
  of percent signs in a segment is an argument.
\<close>

section \<open>The multiplexer of net/http\<close>

text \<open>A pattern segment: literal, \<open>{name}\<close>, or the trailing slash that stands for any rest.\<close>

datatype pattern_segment = Lit string | Wild string | Multi

text \<open>The segments of a path that begins with a slash; a trailing slash is a segment of its own.\<close>

fun raw_segments :: "string \<Rightarrow> string list" where
  "raw_segments [] = [[]]"
| "raw_segments (c # s) =
     (if c = CHR ''/'' then [] # raw_segments s
      else (case raw_segments s of [] \<Rightarrow> [[c]] | x # xs \<Rightarrow> (c # x) # xs))"

definition path_segments :: "(string \<Rightarrow> string) \<Rightarrow> string \<Rightarrow> string list" where
  "path_segments unescape path =
     (let parts = tl (raw_segments path) in
      if parts = [] then []
      else if last parts = [] then map unescape (butlast parts) @ [''/''] else map unescape parts)"

definition as_is :: "string \<Rightarrow> string" where
  "as_is s = s"

definition parse_segment :: "string \<Rightarrow> pattern_segment" where
  "parse_segment seg =
     (if seg = ''/'' then Multi
      else if seg \<noteq> [] \<and> hd seg = CHR ''{'' \<and> last seg = CHR ''}'' then Wild (butlast (tl seg))
      else Lit seg)"

text \<open>The routing tree as the list of the patterns that are left after the segments read so far.\<close>

definition literal_child :: "string \<Rightarrow> (pattern_segment list \<times> 'n) list \<Rightarrow> (pattern_segment list \<times> 'n) list" where
  "literal_child seg ps = map (\<lambda>(p, n). (tl p, n)) (filter (\<lambda>(p, n). p \<noteq> [] \<and> hd p = Lit seg) ps)"

definition wild_child :: "(pattern_segment list \<times> 'n) list \<Rightarrow> (pattern_segment list \<times> 'n) list" where
  "wild_child ps = map (\<lambda>(p, n). (tl p, n)) (filter (\<lambda>(p, n). p \<noteq> [] \<and> (case hd p of Wild x \<Rightarrow> True | _ \<Rightarrow> False)) ps)"

fun match_path :: "(pattern_segment list \<times> 'n) list \<Rightarrow> string list \<Rightarrow> 'n option" where
  "match_path ps [] = map_of ps []"
| "match_path ps (seg # rest) =
     (case match_path (literal_child seg ps) rest of
        Some n \<Rightarrow> Some n
      | None \<Rightarrow>
          (case (if seg \<noteq> ''/'' then match_path (wild_child ps) rest else None) of
             Some n \<Rightarrow> Some n
           | None \<Rightarrow> map_of ps [Multi]))"

text \<open>\<open>path.Clean\<close> of a rooted path on its segments, and \<open>cleanPath\<close> of \<open>net/http\<close>.\<close>

fun clean_segments :: "string list \<Rightarrow> string list \<Rightarrow> string list" where
  "clean_segments done [] = rev done"
| "clean_segments done (s # ss) =
     (if s = [] \<or> s = ''.'' then clean_segments done ss
      else if s = ''..'' then clean_segments (tl done) ss
      else clean_segments (s # done) ss)"

definition cleanPath :: "string \<Rightarrow> string" where
  "cleanPath p =
     (if p = [] then ''/''
      else (let q = (if hd p = CHR ''/'' then p else CHR ''/'' # p);
                np = CHR ''/'' # join ''/'' (clean_segments [] (raw_segments q))
            in if last q = CHR ''/'' \<and> np \<noteq> ''/'' then np @ ''/'' else np))"

datatype 'h dispatched = Serve 'h | Redirect string | NotFound

text \<open>
  \<open>exactMatch\<close>: the match of a pattern that ends in a slash is exact if the path has as many
  slashes as the pattern has segments, the last one at its end.
\<close>

definition exactMatch :: "(nat \<times> bool \<times> 'h) option \<Rightarrow> string \<Rightarrow> bool" where
  "exactMatch n path =
     (case n of
        None \<Rightarrow> False
      | Some (segs, multi, _) \<Rightarrow>
          \<not> multi \<or> (path \<noteq> [] \<and> last path = CHR ''/'' \<and> segs = length (filter (\<lambda>c. c = CHR ''/'') path)))"

definition patterns :: "(string \<times> 'h) list \<Rightarrow> (pattern_segment list \<times> nat \<times> bool \<times> 'h) list" where
  "patterns table = map (\<lambda>(pattern, h).
     (let p = map parse_segment (path_segments as_is pattern) in (p, length p, last p = Multi, h))) table"

text \<open>\<open>findHandler\<close>: with a redirection to the tree when only the tree has a handler, then to the clean path.\<close>

definition findHandler :: "(string \<Rightarrow> string) \<Rightarrow> (string \<times> 'h) list \<Rightarrow> string \<Rightarrow> string \<Rightarrow> 'h dispatched" where
  "findHandler unescape table method escapedPath =
     (let match = (\<lambda>p. match_path (patterns table) (path_segments unescape p));
          path = (if method = ''CONNECT'' then escapedPath else cleanPath escapedPath);
          n = match path
      in if \<not> exactMatch n path \<and> \<not> HasSuffix path ''/'' \<and> exactMatch (match (path @ ''/'')) (path @ ''/'')
         then Redirect (cleanPath path @ ''/'')
         else if path \<noteq> escapedPath then Redirect path
         else (case n of None \<Rightarrow> NotFound | Some (_, _, h) \<Rightarrow> Serve h))"

section \<open>The table\<close>

datatype endpoint =
    UI | Metrics | Pprof string | Swagger
  | Passthrough | Query_H | QueryRange_H | QueryPush_H
  | Report string \<comment> \<open>a handler of \<open>Routes_Reports\<close>, by its name in the code\<close>

definition handlers :: "(string \<times> endpoint) list" where
  "handlers =
     [(''/'', UI), (''/metrics'', Metrics),
      (''/debug/pprof/'', Pprof ''Index''), (''/debug/pprof/cmdline'', Pprof ''Cmdline''),
      (''/debug/pprof/profile'', Pprof ''Profile''), (''/debug/pprof/symbol'', Pprof ''Symbol''),
      (''/debug/pprof/trace'', Pprof ''Trace''), (''/debug/pprof/goroutine'', Pprof ''goroutine''),
      (''/debug/pprof/heap'', Pprof ''heap''), (''/debug/pprof/allocs'', Pprof ''allocs''),
      (''/debug/pprof/block'', Pprof ''block''), (''/debug/pprof/mutex'', Pprof ''mutex''),
      (''/api/'', Passthrough), (''/api/v1/query'', Query_H), (''/api/v1/query_range'', QueryRange_H),
      (''/api/v1/query/types'', Report ''queryTypes''),
      (''/api/v1/query/average_duration'', Report ''averageDuration''),
      (''/api/v1/query/rate'', Report ''queryRate''),
      (''/api/v1/query/status_distribution'', Report ''queryStatusDistribution''),
      (''/api/v1/query/latency'', Report ''queryLatencyTrends''),
      (''/api/v1/query/throughput'', Report ''queryThroughputAnalysis''),
      (''/api/v1/query/errors'', Report ''queryErrorAnalysis''),
      (''/api/v1/query/time_range_distribution'', Report ''queryTimeRangeDistribution''),
      (''/api/v1/query/executions'', Report ''queryExecutions''),
      (''/api/v1/query/expressions'', Report ''queryExpressions''),
      (''/api/v1/seriesMetadata'', Report ''seriesMetadata''),
      (''/api/v1/metricStatistics/{name}'', Report ''GetMetricStatistics''),
      (''/api/v1/metricQueryPerformanceStatistics/{name}'', Report ''GetMetricQueryPerformanceStatistics''),
      (''/api/v1/serieExpressions/{name}'', Report ''serieExpressions''),
      (''/api/v1/serieUsage/{name}'', Report ''GetMetricUsage''),
      (''/api/v1/jobs'', Report ''listJobs''), (''/api/v1/metrics/unused'', Report ''metricsUnused''),
      (''/api/v1/metrics'', Report ''PushMetricsUsage''), (''/api/v1/configs'', Report ''getConfigs''),
      (''/api/v1/query/push'', QueryPush_H), (''/swagger/'', Swagger)]"

text \<open>
  One request to the routes: whether it is forwarded to Prometheus, and the state of the query
  ingester afterwards. Reports only read the database.
\<close>

definition ServeHTTP ::
  "(string \<Rightarrow> string) \<Rightarrow> routes \<Rightarrow> QueryIngester \<Rightarrow> http_request \<Rightarrow> string \<Rightarrow> exchange \<Rightarrow> (nat \<Rightarrow> time \<times> time)
   \<Rightarrow> go_error + Query list \<Rightarrow> 's qi_state \<Rightarrow> bool \<times> 's qi_state" where
  "ServeHTTP unescape r qi req path ex ck body st =
     (case findHandler unescape handlers (rq_Method req) path of
        Serve Query_H \<Rightarrow> (True, routes_query r qi req ex st)
      | Serve QueryRange_H \<Rightarrow> (True, routes_query_range r qi req ex st)
      | Serve Passthrough \<Rightarrow> (True, st)
      | Serve QueryPush_H \<Rightarrow> (False, snd (queryPush qi req ck body st))
      | _ \<Rightarrow> (False, st))"

section \<open>Facts on the matching\<close>

lemma match_path_Nil [simp]: "match_path [] ss = None"
  by (induction ss) (simp_all add: literal_child_def wild_child_def)

definition first_literals :: "(pattern_segment list \<times> 'n) list \<Rightarrow> string list" where
  "first_literals ps = concat (map (\<lambda>(p, n). case p of Lit x # _ \<Rightarrow> [x] | _ \<Rightarrow> []) ps)"

lemma no_literal_child: "s \<notin> set (first_literals ps) \<Longrightarrow> literal_child s ps = []"
proof -
  assume "s \<notin> set (first_literals ps)"
  then have "\<not> (p \<noteq> [] \<and> hd p = Lit s)" if "(p, n) \<in> set ps" for p n
    using that by (cases p) (auto simp: first_literals_def)
  then show ?thesis by (auto simp: literal_child_def filter_empty_conv)
qed

lemma match_path_no_literal:
  "s \<notin> set (first_literals ps) \<Longrightarrow> wild_child ps = [] \<Longrightarrow> match_path ps (s # ss) = map_of ps [Multi]"
  by (simp add: no_literal_child)

text \<open>The levels of the table below \<open>/api/\<close>.\<close>

definition api_level :: "(pattern_segment list \<times> nat \<times> bool \<times> endpoint) list" where
  "api_level = literal_child ''api'' (patterns handlers)"

definition v1_level :: "(pattern_segment list \<times> nat \<times> bool \<times> endpoint) list" where
  "v1_level = literal_child ''v1'' api_level"

lemmas level_defs = api_level_def v1_level_def

lemma v1_level_eq:
  "v1_level =
     [([Lit ''query''], 3, False, Query_H),
      ([Lit ''query_range''], 3, False, QueryRange_H),
      ([Lit ''query'', Lit ''types''], 4, False, Report ''queryTypes''),
      ([Lit ''query'', Lit ''average_duration''], 4, False, Report ''averageDuration''),
      ([Lit ''query'', Lit ''rate''], 4, False, Report ''queryRate''),
      ([Lit ''query'', Lit ''status_distribution''], 4, False, Report ''queryStatusDistribution''),
      ([Lit ''query'', Lit ''latency''], 4, False, Report ''queryLatencyTrends''),
      ([Lit ''query'', Lit ''throughput''], 4, False, Report ''queryThroughputAnalysis''),
      ([Lit ''query'', Lit ''errors''], 4, False, Report ''queryErrorAnalysis''),
      ([Lit ''query'', Lit ''time_range_distribution''], 4, False, Report ''queryTimeRangeDistribution''),
      ([Lit ''query'', Lit ''executions''], 4, False, Report ''queryExecutions''),
      ([Lit ''query'', Lit ''expressions''], 4, False, Report ''queryExpressions''),
      ([Lit ''seriesMetadata''], 3, False, Report ''seriesMetadata''),
      ([Lit ''metricStatistics'', Wild ''name''], 4, False, Report ''GetMetricStatistics''),
      ([Lit ''metricQueryPerformanceStatistics'', Wild ''name''], 4, False, Report ''GetMetricQueryPerformanceStatistics''),
      ([Lit ''serieExpressions'', Wild ''name''], 4, False, Report ''serieExpressions''),
      ([Lit ''serieUsage'', Wild ''name''], 4, False, Report ''GetMetricUsage''),
      ([Lit ''jobs''], 3, False, Report ''listJobs''),
      ([Lit ''metrics'', Lit ''unused''], 4, False, Report ''metricsUnused''),
      ([Lit ''metrics''], 3, False, Report ''PushMetricsUsage''),
      ([Lit ''configs''], 3, False, Report ''getConfigs''),
      ([Lit ''query'', Lit ''push''], 4, False, QueryPush_H)]"
  by code_simp

lemma api_level_eq: "api_level = ([Multi], 2, True, Passthrough) # map (\<lambda>(p, n). (Lit ''v1'' # p, n)) v1_level"
  by code_simp

lemma root_facts:
  "wild_child (patterns handlers) = []" "map_of (patterns handlers) [Multi] = Some (1, True, UI)"
  "map_of (patterns handlers) [] = None"
  by code_simp+

lemma api_facts:
  "set (first_literals api_level) = {''v1''}" "wild_child api_level = []"
  "map_of api_level [Multi] = Some (2, True, Passthrough)" "map_of api_level [] = None"
proof -
  have "map_of (map (\<lambda>(p, n). (Lit ''v1'' # p, n)) ps) [] = None" for ps :: "(pattern_segment list \<times> 'n) list"
    by (induction ps) auto
  then show "map_of api_level [] = None" by (simp add: api_level_eq)
  have "first_literals api_level = replicate (length v1_level) ''v1''"
    by (simp add: api_level_eq first_literals_def comp_def case_prod_unfold map_replicate_const)
  moreover have "v1_level \<noteq> []" by (simp add: v1_level_eq)
  ultimately show "set (first_literals api_level) = {''v1''}" by simp
qed (auto simp: api_level_eq wild_child_def filter_empty_conv)

definition v1_names :: "string list" where
  "v1_names = [''query'', ''query_range'', ''seriesMetadata'', ''metricStatistics'', ''metricQueryPerformanceStatistics'',
     ''serieExpressions'', ''serieUsage'', ''jobs'', ''metrics'', ''configs'']"

lemma v1_facts:
  "set (first_literals v1_level) = set v1_names" "wild_child v1_level = []"
  "map_of v1_level [Multi] = None" "map_of v1_level [] = None"
  by (simp_all add: v1_level_eq first_literals_def v1_names_def wild_child_def insert_commute)

lemma match_leaf: "match_path [([], n)] us = (if us = [] then Some n else None)"
  by (cases us) (simp_all add: literal_child_def wild_child_def)

lemma match_wild_leaf: "match_path [([Wild x], n)] us = (case us of [u] \<Rightarrow> if u \<noteq> ''/'' then Some n else None | _ \<Rightarrow> None)"
  by (cases us) (simp_all add: literal_child_def wild_child_def match_leaf split: list.split)

lemma match_literal_leaves:
  "match_path (([], n) # map (\<lambda>(x, m). ([Lit x], m)) xs) us = (case us of [] \<Rightarrow> Some n | [u] \<Rightarrow> map_of xs u | _ \<Rightarrow> None)"
proof (cases us)
  case (Cons u vs)
  let ?ps = "([], n) # map (\<lambda>(x, m). ([Lit x], m)) xs"
  have l: "literal_child u ?ps = map (\<lambda>m. ([], m)) (map snd (filter (\<lambda>(x, m). x = u) xs))"
    by (induction xs) (auto simp: literal_child_def)
  have w: "wild_child ?ps = []" "map_of ?ps [Multi] = None" by (induction xs) (auto simp: wild_child_def)
  have step: "match_path ?ps us = match_path (map (\<lambda>m. ([], m)) (map snd (filter (\<lambda>(x, m). x = u) xs))) vs"
    unfolding Cons match_path.simps l w by (simp split: option.split)
  have leaf: "match_path (map (\<lambda>m. ([], m)) ms) vs = (if vs = [] \<and> ms \<noteq> [] then Some (hd ms) else None)" for ms :: "'a list"
  proof -
    have "map_of (map (\<lambda>m. ([], m)) ms) [Multi] = None" by (induction ms) auto
    then show ?thesis by (cases vs; cases ms) (auto simp: literal_child_def wild_child_def filter_empty_conv)
  qed
  have first: "(if vs = [] \<and> map snd (filter (\<lambda>(x, m). x = u) xs) \<noteq> [] then Some (hd (map snd (filter (\<lambda>(x, m). x = u) xs))) else None)
      = (if vs = [] then map_of xs u else None)"
    by (induction xs) auto
  have "match_path ?ps us = (if vs = [] then map_of xs u else None)" unfolding step leaf first ..
  then show ?thesis using Cons by (cases vs) (simp_all del: match_path.simps)
qed simp

lemma match_two_leaves: "match_path [([Lit x], m), ([], n)] us = (case us of [] \<Rightarrow> Some n | [u] \<Rightarrow> if u = x then Some m else None | _ \<Rightarrow> None)"
  by (cases us) (auto simp: literal_child_def wild_child_def match_leaf split: list.split)

text \<open>The handlers at and below \<open>/api/v1/query\<close>, and those of one segment below \<open>/api/v1\<close>.\<close>

definition query_reports :: "(string \<times> endpoint) list" where
  "query_reports =
     [(''types'', Report ''queryTypes''), (''average_duration'', Report ''averageDuration''), (''rate'', Report ''queryRate''),
      (''status_distribution'', Report ''queryStatusDistribution''), (''latency'', Report ''queryLatencyTrends''),
      (''throughput'', Report ''queryThroughputAnalysis''), (''errors'', Report ''queryErrorAnalysis''),
      (''time_range_distribution'', Report ''queryTimeRangeDistribution''), (''executions'', Report ''queryExecutions''),
      (''expressions'', Report ''queryExpressions''), (''push'', QueryPush_H)]"

definition metric_reports :: "(string \<times> endpoint) list" where
  "metric_reports =
     [(''metricStatistics'', Report ''GetMetricStatistics''),
      (''metricQueryPerformanceStatistics'', Report ''GetMetricQueryPerformanceStatistics''),
      (''serieExpressions'', Report ''serieExpressions''), (''serieUsage'', Report ''GetMetricUsage'')]"

definition v1_handlers :: "(string \<times> endpoint) list" where
  "v1_handlers =
     [(''query'', Query_H), (''query_range'', QueryRange_H), (''seriesMetadata'', Report ''seriesMetadata''),
      (''jobs'', Report ''listJobs''), (''metrics'', Report ''PushMetricsUsage''), (''configs'', Report ''getConfigs'')]"

lemma v1_children:
  "literal_child ''query'' v1_level = ([], 3, False, Query_H) # map (\<lambda>(x, m). ([Lit x], m)) (map (\<lambda>(x, h). (x, 4, False, h)) query_reports)"
  "literal_child ''metrics'' v1_level = [([Lit ''unused''], 4, False, Report ''metricsUnused''), ([], 3, False, Report ''PushMetricsUsage'')]"
  "literal_child ''query_range'' v1_level = [([], 3, False, QueryRange_H)]"
  "literal_child ''seriesMetadata'' v1_level = [([], 3, False, Report ''seriesMetadata'')]"
  "literal_child ''jobs'' v1_level = [([], 3, False, Report ''listJobs'')]"
  "literal_child ''configs'' v1_level = [([], 3, False, Report ''getConfigs'')]"
  "literal_child ''metricStatistics'' v1_level = [([Wild ''name''], 4, False, Report ''GetMetricStatistics'')]"
  "literal_child ''metricQueryPerformanceStatistics'' v1_level = [([Wild ''name''], 4, False, Report ''GetMetricQueryPerformanceStatistics'')]"
  "literal_child ''serieExpressions'' v1_level = [([Wild ''name''], 4, False, Report ''serieExpressions'')]"
  "literal_child ''serieUsage'' v1_level = [([Wild ''name''], 4, False, Report ''GetMetricUsage'')]"
  by (simp_all add: v1_level_eq literal_child_def query_reports_def)

definition v1_endpoint :: "string list \<Rightarrow> endpoint option" where
  "v1_endpoint segs =
     (case segs of
        [t] \<Rightarrow> map_of v1_handlers t
      | [t, u] \<Rightarrow>
          if t = ''query'' then map_of query_reports u
          else if t = ''metrics'' then (if u = ''unused'' then Some (Report ''metricsUnused'') else None)
          else if u \<noteq> ''/'' then map_of metric_reports t else None
      | _ \<Rightarrow> None)"

lemma query_reports_match:
  "map_of (map (\<lambda>(x, h). (x, k :: nat, False, h)) ps) u = map_option (\<lambda>h. (k, False, h)) (map_of ps u)"
  by (induction ps) auto

lemma v1_match:
  "match_path v1_level segs = map_option (\<lambda>h. (length segs + 2, False, h)) (v1_endpoint segs)"
proof (cases segs)
  case (Cons t us)
  show ?thesis
  proof (cases "t \<in> set v1_names")
    case True
    have m: "match_path v1_level (t # us) = match_path (literal_child t v1_level) us"
      unfolding match_path.simps v1_facts by (simp split: option.split)
    have "list_all (\<lambda>t. \<forall>us. match_path (literal_child t v1_level) us
        = map_option (\<lambda>h. (length (t # us) + 2, False, h)) (v1_endpoint (t # us))) v1_names"
      unfolding v1_names_def list.pred_inject v1_children match_literal_leaves query_reports_match match_leaf match_two_leaves match_wild_leaf
      by (intro conjI allI) (simp_all add: v1_endpoint_def v1_handlers_def metric_reports_def eval_nat_numeral split: list.split)
    with True show ?thesis unfolding Cons m by (auto simp: list_all_iff)
  next
    case False
    then have "match_path v1_level segs = map_of v1_level [Multi]"
      unfolding Cons by (intro match_path_no_literal) (simp_all add: v1_facts)
    moreover have "v1_endpoint segs = None"
      using False by (auto simp: Cons v1_endpoint_def v1_names_def v1_handlers_def metric_reports_def split: list.split)
    ultimately show ?thesis by (simp add: v1_facts)
  qed
qed (simp_all add: v1_facts v1_endpoint_def)

lemma api_match:
  "match_path (patterns handlers) (''api'' # s # ss) =
     (case if s = ''v1'' then v1_endpoint ss else None of
        Some h \<Rightarrow> Some (length ss + 2, False, h) | None \<Rightarrow> Some (2, True, Passthrough))"
proof -
  have "match_path (patterns handlers) (''api'' # s # ss) = match_path api_level (s # ss)"
    by (simp add: root_facts api_level_def [symmetric] api_facts split: option.split)
  moreover have "match_path api_level (s # ss) = (case if s = ''v1'' then v1_endpoint ss else None of
        Some h \<Rightarrow> Some (length ss + 2, False, h) | None \<Rightarrow> Some (2, True, Passthrough))"
  proof (cases "s = ''v1''")
    case True
    then show ?thesis by (simp add: v1_level_def [symmetric] v1_match api_facts split: option.split)
  next
    case False
    then have "match_path api_level (s # ss) = map_of api_level [Multi]"
      by (intro match_path_no_literal) (simp_all add: api_facts)
    with False show ?thesis by (simp add: api_facts)
  qed
  ultimately show ?thesis by simp
qed

text \<open>Slashes of a path and its segments.\<close>

lemma raw_segments_ne [simp]: "raw_segments p \<noteq> []"
  by (induction p) (auto split: list.split)

lemma raw_segments_slashes: "length (raw_segments p) = Suc (length (filter (\<lambda>c. c = CHR ''/'') p))"
proof (induction p)
  case (Cons c p)
  then show ?case by (cases "raw_segments p") auto
qed simp

lemma raw_segments_last: "p \<noteq> [] \<Longrightarrow> last (raw_segments p) = [] \<longleftrightarrow> last p = CHR ''/''"
proof (induction p)
  case (Cons c p)
  show ?case
  proof (cases "p = []")
    case False
    obtain x xs where x: "raw_segments p = x # xs" by (cases "raw_segments p") auto
    have "x \<noteq> [] \<or> xs \<noteq> [] \<or> p = []" using x by (cases p) (auto split: list.splits if_splits)
    with Cons False x show ?thesis by auto
  qed auto
qed simp

lemma raw_segments_slash: "raw_segments (p @ ''/'') = raw_segments p @ [[]]"
  by (induction p) (auto split: list.split simp: append_eq_Cons_conv Cons_eq_append_conv)

lemma path_segments_slash:
  assumes "p \<noteq> []" "hd p = CHR ''/''" "last p \<noteq> CHR ''/''"
  shows "path_segments unescape (p @ ''/'') = path_segments unescape p @ [''/'']"
proof -
  obtain q where "p = CHR ''/'' # q" "q \<noteq> []" using assms by (cases p) (auto split: if_splits)
  then show ?thesis using assms raw_segments_last [of p] by (auto simp: path_segments_def raw_segments_slash)
qed

lemma path_segments_length:
  assumes "p \<noteq> []" "hd p = CHR ''/''"
  shows "length (path_segments unescape p) = length (filter (\<lambda>c. c = CHR ''/'') p)"
  using assms raw_segments_slashes [of "tl p"]
  by (cases p) (auto simp: path_segments_def Let_def)

section \<open>What is forwarded and what is recorded\<close>

text \<open>The clean paths below \<open>/api/\<close> that the program answers itself.\<close>

definition own_path :: "string list \<Rightarrow> bool" where
  "own_path segs \<longleftrightarrow>
     (\<exists>t. segs = [''api'', ''v1'', t] \<and> t \<in> {''seriesMetadata'', ''jobs'', ''metrics'', ''configs''})
   \<or> (\<exists>t. segs = [''api'', ''v1'', ''query'', t] \<and> t \<in> fst ` set query_reports)
   \<or> segs = [''api'', ''v1'', ''metrics'', ''unused'']
   \<or> (\<exists>t name. segs = [''api'', ''v1'', t, name] \<and> t \<in> fst ` set metric_reports \<and> name \<noteq> ''/'')"

definition proxied :: "endpoint \<Rightarrow> bool" where
  "proxied h \<longleftrightarrow> h \<in> {Passthrough, Query_H, QueryRange_H}"

lemma reports_not_proxied:
  "map_of query_reports u = Some h \<Longrightarrow> \<not> proxied h" "map_of metric_reports u = Some h \<Longrightarrow> \<not> proxied h"
  "map_of query_reports u = None \<longleftrightarrow> u \<notin> fst ` set query_reports" "map_of metric_reports u = None \<longleftrightarrow> u \<notin> fst ` set metric_reports"
  by (auto simp: query_reports_def metric_reports_def proxied_def split: if_splits)

lemma v1_endpoint_proxied:
  "(case v1_endpoint segs of None \<Rightarrow> True | Some h \<Rightarrow> proxied h) \<longleftrightarrow> \<not> own_path (''api'' # ''v1'' # segs)"
proof -
  consider "segs = []" | t where "segs = [t]" | t u where "segs = [t, u]" | t u v ws where "segs = t # u # v # ws"
    by (metis list.exhaust)
  then show ?thesis
  proof cases
    case (2 t)
    then show ?thesis by (auto simp: v1_endpoint_def own_path_def v1_handlers_def proxied_def)
  next
    case (3 t u)
    have no: "''query'' \<notin> fst ` set metric_reports" "''metrics'' \<notin> fst ` set metric_reports"
      by (simp_all add: metric_reports_def)
    have own: "own_path [''api'', ''v1'', t, u] \<longleftrightarrow> t = ''query'' \<and> u \<in> fst ` set query_reports \<or> t = ''metrics'' \<and> u = ''unused''
        \<or> t \<in> fst ` set metric_reports \<and> u \<noteq> ''/''"
      by (simp add: own_path_def)
    show ?thesis
    proof (cases "t = ''query''")
      case True
      then show ?thesis unfolding 3 own using no(1) reports_not_proxied(1,3) [of u]
        by (cases "map_of query_reports u") (simp_all add: v1_endpoint_def)
    next
      case False
      show ?thesis
      proof (cases "t = ''metrics''")
        case True
        then show ?thesis unfolding 3 own using no(2) by (simp add: v1_endpoint_def proxied_def)
      next
        case False
        with \<open>t \<noteq> ''query''\<close> show ?thesis unfolding 3 own using reports_not_proxied(2,4) [of t]
          by (cases "map_of metric_reports t") (simp_all add: v1_endpoint_def)
      qed
    qed
  qed (simp_all add: v1_endpoint_def own_path_def)
qed

text \<open>Outside \<open>/api/\<close> nothing is proxied and nothing recorded.\<close>

definition local_endpoint :: "endpoint \<Rightarrow> bool" where
  "local_endpoint h \<longleftrightarrow> \<not> proxied h \<and> h \<noteq> QueryPush_H"

lemma match_path_in: "match_path ps ss = Some n \<Longrightarrow> n \<in> snd ` set ps"
proof (induction ps ss rule: match_path.induct)
  case (2 ps seg rest)
  then show ?case
    by (auto split: option.splits if_splits dest!: map_of_SomeD)
      (force simp: literal_child_def wild_child_def)+
qed (force dest: map_of_SomeD)

lemma outside_api:
  assumes "match_path (patterns handlers) segs = Some (k, m, h)" "\<nexists>s ss. segs = ''api'' # s # ss"
  shows "local_endpoint h"
proof -
  have local: "list_all (\<lambda>(p, k, m, h). hd p = Lit ''api'' \<or> local_endpoint h) (patterns handlers)"
    by code_simp
  show ?thesis
  proof (cases segs)
    case (Cons s ss)
    show ?thesis
    proof (cases "s = ''api''")
      case True
      then have "match_path (literal_child ''api'' (patterns handlers)) ss = None"
        using assms(2) Cons by (cases ss) (simp_all add: api_level_def [symmetric] api_facts)
      then show ?thesis using assms(1) Cons True root_facts by (auto simp: local_endpoint_def proxied_def)
    next
      case False
      have "(k, m, h) \<in> snd ` set (literal_child s (patterns handlers)) \<or> h = UI"
        using assms(1) unfolding Cons match_path.simps root_facts
        by (auto split: option.splits if_splits dest: match_path_in)
      then show ?thesis using local False
        by (force simp: literal_child_def list_all_iff local_endpoint_def proxied_def)
    qed
  qed (use assms root_facts in simp)
qed

lemma v1_endpoint_slash: "v1_endpoint (ss @ [''/'']) = None"
proof -
  consider "ss = []" | t where "ss = [t]" | t u us where "ss = t # u # us" by (metis list.exhaust)
  then show ?thesis
    by cases (simp_all add: v1_endpoint_def v1_handlers_def query_reports_def metric_reports_def split: list.split)
qed

lemma findHandler_unclean:
  "method \<noteq> ''CONNECT'' \<Longrightarrow> cleanPath path \<noteq> path \<Longrightarrow> \<exists>to. findHandler unescape table method path = Redirect to"
  by (simp add: findHandler_def Let_def)

lemma findHandler_api:
  assumes "path \<noteq> []" "hd path = CHR ''/''" "path_segments unescape path = ''api'' # s # ss"
    and "method \<noteq> ''CONNECT''" "cleanPath path = path"
  shows "findHandler unescape handlers method path =
     Serve (case if s = ''v1'' then v1_endpoint ss else None of Some h \<Rightarrow> h | None \<Rightarrow> Passthrough)"
proof -
  let ?n = "match_path (patterns handlers) (path_segments unescape path)"
  have n: "?n = (case if s = ''v1'' then v1_endpoint ss else None of
        Some h \<Rightarrow> Some (length ss + 2, False, h) | None \<Rightarrow> Some (2, True, Passthrough))"
    unfolding assms(3) by (rule api_match)
  have "\<not> exactMatch (match_path (patterns handlers) (path_segments unescape (path @ ''/''))) (path @ ''/'')"
    if "\<not> HasSuffix path ''/''"
  proof -
    have l: "last path \<noteq> CHR ''/''" using that assms(1) by (metis HasSuffix_append append_butlast_last_id)
    have "match_path (patterns handlers) (path_segments unescape (path @ ''/'')) = Some (2, True, Passthrough)"
      unfolding path_segments_slash [OF assms(1,2) l] assms(3) using api_match [of s "ss @ [''/'']"]
      by (simp add: v1_endpoint_slash)
    moreover have "length (filter (\<lambda>c. c = CHR ''/'') path) = length ss + 2"
      using path_segments_length [OF assms(1,2), of unescape] assms(3) by simp
    ultimately show ?thesis by (simp add: exactMatch_def)
  qed
  then show ?thesis using assms(4,5) n by (auto simp: findHandler_def Let_def split: option.splits if_splits)
qed

lemma recorded_type:
  "\<exists>q. routes_query r qi req ex st = Ingest qi q st \<and> q_Type q = QueryTypeInstant"
  "\<exists>q. routes_query_range r qi req ex st = Ingest qi q st \<and> q_Type q = QueryTypeRange"
  by (auto simp: routes_query_def routes_query_range_def Let_def record_exchange_def split: prod.split option.split intro!: exI)

lemma v1_endpoint_recording:
  "v1_endpoint ss = Some Query_H \<Longrightarrow> ss = [''query'']" "v1_endpoint ss = Some QueryRange_H \<Longrightarrow> ss = [''query_range'']"
  "v1_endpoint ss = Some QueryPush_H \<Longrightarrow> ss = [''query'', ''push'']"
  by (auto simp: v1_endpoint_def v1_handlers_def query_reports_def metric_reports_def split: list.splits if_splits)

lemma ServeHTTP_served:
  assumes "findHandler unescape handlers (rq_Method req) path = Serve h" "ServeHTTP unescape r qi req path ex ck body st = (forwarded, st')"
  shows "forwarded \<longleftrightarrow> proxied h" "h \<notin> {Query_H, QueryRange_H, QueryPush_H} \<Longrightarrow> st' = st"
    "h = Query_H \<Longrightarrow> st' = routes_query r qi req ex st" "h = QueryRange_H \<Longrightarrow> st' = routes_query_range r qi req ex st"
  using assms by (cases h; auto simp: ServeHTTP_def proxied_def)+

lemma ServeHTTP_elsewhere:
  assumes "\<nexists>h. findHandler unescape handlers (rq_Method req) path = Serve h \<and> \<not> local_endpoint h"
    and "ServeHTTP unescape r qi req path ex ck body st = (forwarded, st')"
  shows "\<not> forwarded \<and> st' = st"
proof (cases "findHandler unescape handlers (rq_Method req) path")
  case (Serve h)
  with assms show ?thesis by (cases h; auto simp: ServeHTTP_def local_endpoint_def proxied_def)
qed (use assms in \<open>auto simp: ServeHTTP_def\<close>)


definition sample_exchange :: exchange where
  "sample_exchange = \<lparr>ex_start = 0, ex_now = 0, ex_end = second, ex_events = [WriteHeader 200, Write ''{}''], ex_respHeader = (\<lambda>_. [])\<rparr>"

abbreviation sample_serve :: "string \<Rightarrow> bool \<times> tables qi_state" where
  "sample_serve path \<equiv> ServeHTTP id greedy_routes small_ingester (push_request\<lparr>rq_Method := ''GET''\<rparr>) path sample_exchange
     (\<lambda>_. (hour, hour)) (Inr []) (qi_init empty_tables)"


section \<open>The reverse proxy\<close>

text \<open>
  \<open>Rewrite\<close> of \<open>WithProxy\<close>, with \<open>SetURL\<close> of \<open>httputil\<close>: paths as they stand in the URL, the
  query as its text and, with query statistics, through \<open>url.ParseQuery\<close> and \<open>Values.Encode\<close>.
\<close>

record target_url =
  tu_Scheme :: string
  tu_Host :: string
  tu_Path :: string
  tu_RawQuery :: string

record query_codec =
  qc_parse :: "string \<Rightarrow> (string, string list) go_map"
  qc_encode :: "(string, string list) go_map \<Rightarrow> string"

definition singleJoiningSlash :: "string \<Rightarrow> string \<Rightarrow> string" where
  "singleJoiningSlash a b =
     (if HasSuffix a ''/'' \<and> HasPrefix b ''/'' then a @ drop 1 b
      else if \<not> HasSuffix a ''/'' \<and> \<not> HasPrefix b ''/'' then a @ ''/'' @ b
      else a @ b)"

definition SetURL :: "target_url \<Rightarrow> target_url \<Rightarrow> target_url" where
  "SetURL target out =
     \<lparr>tu_Scheme = tu_Scheme target, tu_Host = tu_Host target,
      tu_Path = singleJoiningSlash (tu_Path target) (tu_Path out),
      tu_RawQuery = (if tu_RawQuery target = [] \<or> tu_RawQuery out = [] then tu_RawQuery target @ tu_RawQuery out
                     else tu_RawQuery target @ ''&'' @ tu_RawQuery out)\<rparr>"

definition Values_Add :: "string \<Rightarrow> string \<Rightarrow> (string, string list) go_map \<Rightarrow> (string, string list) go_map" where
  "Values_Add k v m = AList.update k ((case map_of m k of None \<Rightarrow> [] | Some vs \<Rightarrow> vs) @ [v]) m"

definition Rewrite :: "query_codec \<Rightarrow> bool \<Rightarrow> target_url \<Rightarrow> target_url \<Rightarrow> target_url" where
  "Rewrite qc includeQueryStats upstream out =
     (let url = SetURL upstream out in
      if includeQueryStats
      then url\<lparr>tu_RawQuery := qc_encode qc (Values_Add ''stats'' ''true'' (qc_parse qc (tu_RawQuery url)))\<rparr>
      else url)"

text \<open>The parameters of a request are those of the client, but for one more value of \<open>stats\<close>.\<close>

lemma Rewrite_parameters:
  assumes "\<And>m. map_of (qc_parse qc (qc_encode qc m)) = map_of m" "k \<noteq> ''stats''"
  shows "map_of (qc_parse qc (tu_RawQuery (Rewrite qc inc upstream out))) k
      = map_of (qc_parse qc (tu_RawQuery (SetURL upstream out))) k"
  using assms by (simp add: Rewrite_def Let_def Values_Add_def)

section \<open>The user interface\<close>

text \<open>\<open>ui\<close>: one handler for each file, and the tree below the root for \<open>index.html\<close>.\<close>

definition ui_handlers :: "(string \<times> 'f) list \<Rightarrow> (string \<times> 'f) list" where
  "ui_handlers files = concat (map (\<lambda>(path, f).
     (''/'' @ path, f) # (if ''/'' @ path = ''/index.html'' then [(''/'', f)] else [])) files)"

text \<open>Patterns of literals only are looked up; whatever is not found belongs to the root.\<close>

definition literal_pattern :: "pattern_segment list \<Rightarrow> bool" where
  "literal_pattern p \<longleftrightarrow> (\<forall>s \<in> set p. case s of Lit x \<Rightarrow> True | _ \<Rightarrow> False)"

lemma literal_child_lookup: "map_of (literal_child s ps) q = map_of ps (Lit s # q)"
proof (induction ps)
  case (Cons a ps)
  obtain p n where "a = (p, n)" by fastforce
  with Cons show ?case by (cases p) (auto simp: literal_child_def)
qed (simp add: literal_child_def)

lemma literal_child_set: "(q, n) \<in> set (literal_child s ps) \<longleftrightarrow> (Lit s # q, n) \<in> set ps"
proof (induction ps)
  case (Cons a ps)
  obtain p m where "a = (p, m)" by fastforce
  with Cons show ?case by (cases p) (auto simp: literal_child_def)
qed (simp add: literal_child_def)

lemma wild_child_literal: "(\<And>p n. (p, n) \<in> set ps \<Longrightarrow> literal_pattern p \<or> p = [Multi]) \<Longrightarrow> wild_child ps = []"
proof (induction ps)
  case (Cons a ps)
  obtain p m where a: "a = (p, m)" by fastforce
  have "literal_pattern p \<or> p = [Multi]" using Cons.prems a by auto
  with Cons a show ?case by (cases p) (auto simp: wild_child_def literal_pattern_def split: pattern_segment.splits)
qed (simp add: wild_child_def)

lemma match_literals:
  "(\<And>p n. (p, n) \<in> set ps \<Longrightarrow> literal_pattern p) \<Longrightarrow> match_path ps segs = map_of ps (map Lit segs)"
proof (induction ps segs rule: match_path.induct)
  case (2 ps s rest)
  have w: "wild_child ps = []"
    using "2.prems" by (intro wild_child_literal) auto
  have m: "map_of ps [Multi] = None"
    using "2.prems" by (fastforce simp: map_of_eq_None_iff literal_pattern_def)
  have "literal_pattern q" if "(q, n) \<in> set (literal_child s ps)" for q n
    using that "2.prems" [of "Lit s # q" n] by (simp add: literal_child_set literal_pattern_def)
  with "2.IH"(1) w m show ?case by (simp add: literal_child_lookup split: option.split)
qed simp

lemma match_root:
  assumes lit: "\<And>p n. (p, n) \<in> set (ps1 @ ps2) \<Longrightarrow> literal_pattern p" and "segs \<noteq> []"
  shows "match_path (ps1 @ ([Multi], dflt) # ps2) segs =
    (case map_of (ps1 @ ps2) (map Lit segs) of Some n \<Rightarrow> Some n | None \<Rightarrow> Some dflt)"
proof -
  obtain s rest where s: "segs = s # rest" using assms(2) by (cases segs) auto
  have c: "literal_child s (ps1 @ ([Multi], dflt) # ps2) = literal_child s (ps1 @ ps2)"
    by (simp add: literal_child_def)
  have w: "wild_child (ps1 @ ([Multi], dflt) # ps2) = []"
    using lit by (intro wild_child_literal) auto
  have "literal_pattern q" if "(q, n) \<in> set (literal_child s (ps1 @ ps2))" for q n
    using that lit [of "Lit s # q" n] by (simp add: literal_child_set literal_pattern_def del: set_append)
  then have "match_path (literal_child s (ps1 @ ps2)) rest = map_of (ps1 @ ps2) (map Lit segs)"
    by (subst match_literals) (auto simp: literal_child_lookup s)
  moreover have "map_of ps1 [Multi] = None"
    using lit by (fastforce simp: map_of_eq_None_iff literal_pattern_def)
  ultimately show ?thesis unfolding s match_path.simps c w by (simp add: s map_add_def split: option.split)
qed

lemma literal_last: "literal_pattern p \<Longrightarrow> p \<noteq> [] \<Longrightarrow> last p \<noteq> Multi"
  by (cases p rule: rev_cases) (auto simp: literal_pattern_def)

lemma parse_literals: "literal_pattern (map parse_segment xs) \<Longrightarrow> map parse_segment xs = map Lit xs"
  by (induction xs) (auto simp: literal_pattern_def parse_segment_def split: if_splits)

text \<open>
  With a file \<open>index.html\<close> every clean path has an answer: the file of that name or, for all others,
  the index, with which the client's own router shows the page.
\<close>

lemma ui_answers:
  assumes files: "files = xs @ (''index.html'', f) # ys" "''index.html'' \<notin> fst ` set (xs @ ys)"
    and lit: "\<And>p g. (p, g) \<in> set files \<Longrightarrow> literal_pattern (map parse_segment (path_segments as_is (''/'' @ p)))"
    and path: "path \<noteq> []" "hd path = CHR ''/''" "cleanPath path = path" "method \<noteq> ''CONNECT''"
  shows "findHandler unescape (ui_handlers files) method path =
    Serve (case map_of (map (\<lambda>(p, g). (path_segments as_is (''/'' @ p), g)) files) (path_segments unescape path) of
             Some g \<Rightarrow> g | None \<Rightarrow> f)"
proof -
  let ?pat = "\<lambda>p. map parse_segment (path_segments as_is (''/'' @ p))"
  let ?row = "\<lambda>(p, g). (?pat p, length (?pat p), False, g)"
  have rows: "patterns (ui_handlers zs) = map ?row zs"
    if "''index.html'' \<notin> fst ` set zs" "\<And>p g. (p, g) \<in> set zs \<Longrightarrow> literal_pattern (?pat p)" for zs :: "(string \<times> 'a) list"
    using that
  proof (induction zs)
    case (Cons z zs)
    obtain p g where z: "z = (p, g)" by fastforce
    have "literal_pattern (?pat p)" by (rule Cons.prems(2) [of p g]) (simp add: z)
    moreover have "?pat p \<noteq> []" by (simp add: path_segments_def Let_def)
    ultimately have "last (?pat p) \<noteq> Multi"
      using literal_last by blast
    with Cons z show ?case by (auto simp: patterns_def ui_handlers_def Let_def id_def)
  qed (simp add: patterns_def ui_handlers_def)
  let ?A = "map ?row (xs @ [(''index.html'', f)])" and ?B = "map ?row ys"
  have split: "ui_handlers files = ui_handlers xs @ (''/index.html'', f) # (''/'', f) # ui_handlers ys"
    by (simp add: files ui_handlers_def)
  have index: "patterns ((''/index.html'', f) # (''/'', f) # rest) = ?row (''index.html'', f) # ([Multi], 1, True, f) # patterns rest"
    for rest :: "(string \<times> 'a) list"
  proof -
    have "path_segments as_is ''/index.html'' = [''index.html'']" "path_segments as_is ''/'' = [''/'']" by code_simp+
    then show ?thesis by (simp add: patterns_def parse_segment_def Let_def)
  qed
  have app: "patterns (us @ vs) = patterns us @ patterns vs" for us vs :: "(string \<times> 'a) list" by (simp add: patterns_def)
  have lits: "literal_pattern (?pat p)" if "(p, g) \<in> set xs \<union> set ys" for p g
    by (rule lit [of p g]) (use that files in auto)
  have pats: "patterns (ui_handlers files) = ?A @ ([Multi], 1, True, f) # ?B"
  proof -
    have no: "''index.html'' \<notin> fst ` set xs" "''index.html'' \<notin> fst ` set ys" using files(2) by auto
    have "patterns (ui_handlers xs) = map ?row xs" by (rule rows [OF no(1)], rule lits, erule UnI1)
    moreover have "patterns (ui_handlers ys) = map ?row ys" by (rule rows [OF no(2)], rule lits, erule UnI2)
    ultimately show ?thesis unfolding split app index by simp
  qed
  have litAB: "literal_pattern p" if "(p, n) \<in> set (?A @ ?B)" for p n
    using that lits lit [of "''index.html''" f] files(1) by auto
  have look: "match_path (patterns (ui_handlers files)) segs =
      (case map_of (?A @ ?B) (map Lit segs) of Some n \<Rightarrow> Some n | None \<Rightarrow> Some (1, True, f))" if "segs \<noteq> []" for segs
    unfolding pats by (rule match_root, rule litAB, assumption, rule that)
  have seg: "path_segments unescape path \<noteq> []" using path by (cases path) (auto simp: path_segments_def Let_def)
  have at: "map_of (map ?row zs) (map Lit segs) = map_option (\<lambda>g. (length segs, False, g))
      (map_of (map (\<lambda>(p, g). (path_segments as_is (''/'' @ p), g)) zs) segs)"
    if "\<And>p g. (p, g) \<in> set zs \<Longrightarrow> literal_pattern (?pat p)" for zs :: "(string \<times> 'a) list" and segs
    using that
  proof (induction zs)
    case (Cons z zs)
    obtain p g where z: "z = (p, g)" by fastforce
    have ih: "map_of (map ?row zs) (map Lit segs) = map_option (\<lambda>g. (length segs, False, g))
        (map_of (map (\<lambda>(p, g). (path_segments as_is (''/'' @ p), g)) zs) segs)"
      by (rule Cons.IH, rule Cons.prems, rule list.set_intros(2))
    have pat: "?pat p = map Lit (path_segments as_is (''/'' @ p))"
      by (rule parse_literals, rule Cons.prems [of p g]) (simp add: z)
    have eq: "?pat p = map Lit segs \<longleftrightarrow> path_segments as_is (''/'' @ p) = segs"
      unfolding pat by (rule inj_map_eq_map) (simp add: inj_def)
    then have "path_segments as_is (''/'' @ p) = segs \<Longrightarrow> length (?pat p) = length segs" by simp
    with ih eq show ?case unfolding z list.map prod.case map_of.simps fst_conv snd_conv by (simp only: fun_upd_apply split: if_split) auto
  qed simp
  have "?A @ ?B = map ?row files" by (simp add: files)
  then have found: "match_path (patterns (ui_handlers files)) segs =
      (case map_of (map (\<lambda>(p, g). (path_segments as_is (''/'' @ p), g)) files) segs of
         Some g \<Rightarrow> Some (length segs, False, g) | None \<Rightarrow> Some (1, True, f))" if "segs \<noteq> []" for segs
    unfolding look [OF that] using at [of files segs, OF lit] by (simp split: option.split)
  have "\<not> exactMatch (match_path (patterns (ui_handlers files)) (path_segments unescape (path @ ''/''))) (path @ ''/'')"
    if "\<not> HasSuffix path ''/''"
  proof -
    have l: "last path \<noteq> CHR ''/''" using that path(1) by (metis HasSuffix_append append_butlast_last_id)
    have no: "map_of (map (\<lambda>(p, g). (path_segments as_is (''/'' @ p), g)) files) (segs @ [''/'']) = None" for segs
    proof -
      have "segs @ [''/''] \<noteq> path_segments as_is (''/'' @ p)" if "(p, g) \<in> set files" for p g
      proof
        assume e: "segs @ [''/''] = path_segments as_is (''/'' @ p)"
        have "literal_pattern (map parse_segment (segs @ [''/'']))" unfolding e by (rule lit [OF that])
        then show False by (simp add: literal_pattern_def parse_segment_def)
      qed
      then show ?thesis unfolding map_of_eq_None_iff by fastforce
    qed
    have "length (filter (\<lambda>c. c = CHR ''/'') path) \<noteq> 0"
      using seg path_segments_length [OF path(1,2), of unescape] by (metis length_0_conv)
    moreover have "match_path (patterns (ui_handlers files)) (path_segments unescape path @ [''/'']) = Some (1, True, f)"
      by (subst found) (simp_all only: no option.case snoc_eq_iff_butlast, simp)
    ultimately show ?thesis unfolding path_segments_slash [OF path(1,2) l] by (simp add: exactMatch_def)
  qed
  then show ?thesis using path(3,4) found [OF seg] by (auto simp: findHandler_def Let_def split: option.splits if_splits)
qed

section \<open>Options of the routes\<close>

record LimitsConfig =
  lc_MetadataLimit :: nat
  lc_SeriesLimit :: nat

datatype 'p route_option =
    WithDBProvider 'p | WithQueryIngester QueryIngester | WithConfig ProxyConfig | WithHandlers
  | WithProxy target_url | WithPromAPI "go_error option" \<comment> \<open>what making the client reports\<close>
  | WithIncludeQueryStats bool | WithLimits LimitsConfig

record 'p routes_state =
  rs_proxy :: "target_url option"
  rs_mux :: "(string \<times> endpoint) list"
  rs_queryIngester :: "QueryIngester option"
  rs_dbProvider :: "'p option"
  rs_promAPI :: "bool option" \<comment> \<open>set, and whether it has a client behind it\<close>
  rs_includeQueryStats :: bool
  rs_metadataLimit :: string
  rs_seriesLimit :: "nat option"
  rs_limits :: LimitsConfig
  rs_config :: "ProxyConfig option"

fun apply_route_option :: "'p route_option \<Rightarrow> 'p routes_state \<Rightarrow> 'p routes_state" where
  "apply_route_option (WithDBProvider p) r = r\<lparr>rs_dbProvider := Some p\<rparr>"
| "apply_route_option (WithQueryIngester qi) r = r\<lparr>rs_queryIngester := Some qi\<rparr>"
| "apply_route_option (WithConfig cfg) r = r\<lparr>rs_config := Some cfg\<rparr>"
| "apply_route_option WithHandlers r = r\<lparr>rs_mux := handlers\<rparr>"
| "apply_route_option (WithProxy u) r = r\<lparr>rs_proxy := Some u\<rparr>"
| "apply_route_option (WithPromAPI err) r = r\<lparr>rs_promAPI := Some (err = None)\<rparr>"
| "apply_route_option (WithIncludeQueryStats b) r = r\<lparr>rs_includeQueryStats := b\<rparr>"
| "apply_route_option (WithLimits l) r =
     (let r1 = r\<lparr>rs_limits := l\<rparr>;
          r2 = (if lc_MetadataLimit l > 0 then r1\<lparr>rs_metadataLimit := itoa (lc_MetadataLimit l)\<rparr> else r1)
      in r2\<lparr>rs_seriesLimit := Some (lc_SeriesLimit l)\<rparr>)"

definition NewRoutes :: "'p route_option list \<Rightarrow> 'p routes_state" where
  "NewRoutes opts = fold apply_route_option opts
     \<lparr>rs_proxy = None, rs_mux = [], rs_queryIngester = None, rs_dbProvider = None, rs_promAPI = None, rs_includeQueryStats = False,
      rs_metadataLimit = [], rs_seriesLimit = None, rs_limits = \<lparr>lc_MetadataLimit = 1000, lc_SeriesLimit = 1000\<rparr>,
      rs_config = None\<rparr>"

text \<open>The default limits never take effect: without \<open>WithLimits\<close> there is no limit of series at all.\<close>

lemma default_limits_unused:
  "(\<And>l. WithLimits l \<notin> set opts) \<Longrightarrow> rs_seriesLimit (NewRoutes opts) = None \<and> rs_metadataLimit (NewRoutes opts) = []"
proof (induction opts rule: rev_induct)
  case (snoc x xs)
  then have "rs_seriesLimit (NewRoutes xs) = None \<and> rs_metadataLimit (NewRoutes xs) = []" "\<And>l. x \<noteq> WithLimits l" by auto
  then show ?case by (cases x) (auto simp: NewRoutes_def)
qed (simp add: NewRoutes_def)

end
