(* ===== verification/Config_Log.thy ===== *)
theory Config_Log
  imports Config
begin

text \<open>
  The start-up log of the configuration (\<open>LogConfig\<close> of \<open>internal/config/config.go\<close>): one line per
  section, each a list of keys and values. Shown: what the log tells of a configuration, and
  what it does not.
\<close>

section \<open>Log lines\<close>

datatype log_value =
  LStr string | LInt int | LBool bool | LDuration duration | LFloat real | LStrs "string list"

type_synonym log_line = "string \<times> (string \<times> log_value) list"

definition logUpstreamConfig :: "ProxyConfig \<Rightarrow> log_line" where
  "logUpstreamConfig cfg = (''Upstream configuration'',
     [(''Upstream.URL'', LStr (up_URL (cfg_Upstream cfg))),
      (''Upstream.IncludeQueryStats'', LBool (up_IncludeQueryStats (cfg_Upstream cfg)))])"

definition logServerConfig :: "ProxyConfig \<Rightarrow> log_line" where
  "logServerConfig cfg = (''Server configuration'',
     [(''Server.InsecureListenAddress'', LStr (srv_InsecureListenAddress (cfg_Server cfg))),
      (''Server.PushMetricsUsageTimeout'', LDuration (srv_PushMetricsUsageTimeout (cfg_Server cfg)))])"

definition logDatabaseConfig :: "ProxyConfig \<Rightarrow> log_line" where
  "logDatabaseConfig cfg =
     (let d = cfg_Database cfg; p = db_PostgreSQL d in
      (''Database configuration'',
       [(''Database.Provider'', LStr (db_Provider d)),
        (''Database.PostgreSQL.Addr'', LStr (pg_Addr p)),
        (''Database.PostgreSQL.Port'', LInt (pg_Port p)),
        (''Database.PostgreSQL.Database'', LStr (pg_Database p)),
        (''Database.PostgreSQL.User'', LStr (pg_User p)),
        (''Database.PostgreSQL.SSLMode'', LStr (pg_SSLMode p)),
        (''Database.PostgreSQL.MaxOpenConns'', LInt (pg_MaxOpenConns p)),
        (''Database.PostgreSQL.MaxIdleConns'', LInt (pg_MaxIdleConns p)),
        (''Database.PostgreSQL.DialTimeout'', LDuration (pg_DialTimeout p)),
        (''Database.PostgreSQL.ConnMaxLifetime'', LDuration (pg_ConnMaxLifetime p)),
        (''Database.PostgreSQL.ConnMaxIdleTime'', LDuration (pg_ConnMaxIdleTime p)),
        (''Database.SQLite.DatabasePath'', LStr (sl_DatabasePath (db_SQLite d)))]))"

definition logInsertConfig :: "ProxyConfig \<Rightarrow> log_line" where
  "logInsertConfig cfg =
     (let i = cfg_Insert cfg in
      (''Insert configuration'',
       [(''Insert.BatchSize'', LInt (ins_BatchSize i)), (''Insert.BufferSize'', LInt (ins_BufferSize i)),
        (''Insert.FlushInterval'', LDuration (ins_FlushInterval i)),
        (''Insert.GracePeriod'', LDuration (ins_GracePeriod i)), (''Insert.Timeout'', LDuration (ins_Timeout i))]))"

definition logMemoryLimitConfig :: "ProxyConfig \<Rightarrow> log_line" where
  "logMemoryLimitConfig cfg =
     (let m = cfg_MemoryLimit cfg in
      (''Memory limit configuration'',
       [(''MemoryLimit.Enabled'', LBool (ml_Enabled m)), (''MemoryLimit.Ratio'', LFloat (ml_Ratio m)),
        (''MemoryLimit.RefreshInterval'', LDuration (ml_RefreshInterval m))]))"

definition logLimitsConfig :: "ProxyConfig \<Rightarrow> log_line" where
  "logLimitsConfig cfg = (''Limits configuration'',
     [(''MetadataLimit'', LInt (int (cfg_MetadataLimit cfg))), (''SeriesLimit'', LInt (int (cfg_SeriesLimit cfg)))])"

definition logCORSConfig :: "ProxyConfig \<Rightarrow> log_line" where
  "logCORSConfig cfg =
     (let c = cfg_CORS cfg in
      (''CORS configuration'',
       [(''CORS.AllowedOrigins'', LStrs (AllowedOrigins c)), (''CORS.AllowedMethods'', LStrs (AllowedMethods c)),
        (''CORS.AllowedHeaders'', LStrs (AllowedHeaders c)), (''CORS.AllowCredentials'', LBool (AllowCredentials c)),
        (''CORS.MaxAge'', LInt (MaxAge c))]))"

definition logInventoryConfig :: "ProxyConfig \<Rightarrow> log_line" where
  "logInventoryConfig cfg =
     (let i = cfg_Inventory cfg in
      (''Inventory configuration'',
       [(''Inventory.Enabled'', LBool (inv_Enabled i)),
        (''Inventory.MetadataSyncEnabled'', LBool (inv_MetadataSyncEnabled i)),
        (''Inventory.MetadataMetricsNameOnly'', LBool (inv_MetadataMetricsNameOnly i)),
        (''Inventory.SyncInterval'', LDuration (inv_SyncInterval i)),
        (''Inventory.TimeWindow'', LDuration (inv_TimeWindow i)),
        (''Inventory.RunTimeout'', LDuration (inv_RunTimeout i)),
        (''Inventory.MetadataStepTimeout'', LDuration (inv_MetadataStepTimeout i)),
        (''Inventory.SummaryStepTimeout'', LDuration (inv_SummaryStepTimeout i)),
        (''Inventory.JobSyncEnabled'', LBool (inv_JobSyncEnabled i)),
        (''Inventory.JobIndexLabelTimeout'', LDuration (inv_JobIndexLabelTimeout i)),
        (''Inventory.JobIndexPerJobTimeout'', LDuration (inv_JobIndexPerJobTimeout i)),
        (''Inventory.JobIndexWorkers'', LInt (inv_JobIndexWorkers i))]))"

definition logQueryProcessingConfig :: "ProxyConfig \<Rightarrow> log_line" where
  "logQueryProcessingConfig cfg = (''Query processing configuration'',
     [(''QueryProcessing.ExtractHTTPHeaders'', LStrs (ExtractHTTPHeaders (cfg_QueryProcessing cfg)))])"

definition logRetentionConfig :: "ProxyConfig \<Rightarrow> log_line" where
  "logRetentionConfig cfg =
     (let r = cfg_Retention cfg in
      (''Retention configuration'',
       [(''Retention.Enabled'', LBool (ret_Enabled r)), (''Retention.Interval'', LDuration (ret_Interval r)),
        (''Retention.RunTimeout'', LDuration (ret_RunTimeout r)),
        (''Retention.QueriesMaxAge'', LDuration (ret_QueriesMaxAge r))]))"

definition logIngesterConfig :: "ProxyConfig \<Rightarrow> log_line" where
  "logIngesterConfig cfg =
     (let i = cfg_Ingester cfg in
      (''Ingester configuration'',
       [(''Ingester.Protocol'', LStr (ing_Protocol i)),
        (''Ingester.MetricsListenAddress'', LStr (ing_MetricsListenAddress i)),
        (''Ingester.DryRun'', LBool (ing_DryRun i)),
        (''Ingester.GracefulShutdownTimeout'', LDuration (ing_GracefulShutdownTimeout i)),
        (''Ingester.DrainDelay'', LDuration (ing_DrainDelay i)),
        (''Ingester.AllowedJobs'', LStrs (ing_AllowedJobs i)), (''Ingester.DeniedJobs'', LStrs (ing_DeniedJobs i))]))"

definition logIngesterOTLPConfig :: "ProxyConfig \<Rightarrow> log_line" where
  "logIngesterOTLPConfig cfg =
     (let o' = ing_OTLP (cfg_Ingester cfg) in
      (''Ingester OTLP configuration'',
       [(''Ingester.OTLP.ListenAddress'', LStr (ListenAddress o')),
        (''Ingester.OTLP.DownstreamAddress'', LStr (DownstreamAddress o')),
        (''Ingester.OTLP.GRPCMaxRecvMsgSizeBytes'', LInt (GRPCMaxRecvMsgSizeBytes o')),
        (''Ingester.OTLP.GRPCMaxSendMsgSizeBytes'', LInt (GRPCMaxSendMsgSizeBytes o')),
        (''Ingester.OTLP.DownstreamGRPCMaxRecvMsgSizeBytes'', LInt (DownstreamGRPCMaxRecvMsgSizeBytes o')),
        (''Ingester.OTLP.DownstreamGRPCMaxSendMsgSizeBytes'', LInt (DownstreamGRPCMaxSendMsgSizeBytes o')),
        (''Ingester.OTLP.DownstreamRetryMaxAttempts'', LInt (DownstreamRetryMaxAttempts o')),
        (''Ingester.OTLP.DownstreamRetryInitialBackoff'', LDuration (DownstreamRetryInitialBackoff o')),
        (''Ingester.OTLP.DownstreamRetryMaxBackoff'', LDuration (DownstreamRetryMaxBackoff o')),
        (''Ingester.OTLP.DownstreamRetryBackoffMultiplier'', LFloat (DownstreamRetryBackoffMultiplier o')),
        (''Ingester.OTLP.DownstreamRetryCodes'', LStrs (DownstreamRetryCodes o')),
        (''Ingester.OTLP.BalancerName'', LStr (BalancerName o')),
        (''Ingester.OTLP.DownstreamConnectMinTimeout'', LDuration (DownstreamConnectMinTimeout o')),
        (''Ingester.OTLP.DownstreamConnectBaseDelay'', LDuration (DownstreamConnectBaseDelay o')),
        (''Ingester.OTLP.DownstreamConnectMaxDelay'', LDuration (DownstreamConnectMaxDelay o')),
        (''Ingester.OTLP.DownstreamConnectBackoffMultiplier'', LFloat (DownstreamConnectBackoffMultiplier o')),
        (''Ingester.OTLP.LookupChunkSize'', LInt (LookupChunkSize o'))]))"

definition logIngesterRedisConfig :: "ProxyConfig \<Rightarrow> log_line" where
  "logIngesterRedisConfig cfg =
     (let r = ing_Redis (cfg_Ingester cfg) in
      (''Ingester Redis configuration'',
       [(''Ingester.Redis.Enabled'', LBool (rd_Enabled r)), (''Ingester.Redis.Addr'', LStr (rd_Addr r)),
        (''Ingester.Redis.Username'', LStr (rd_Username r)), (''Ingester.Redis.DB'', LInt (rd_DB r)),
        (''Ingester.Redis.UsedTTL'', LDuration (rd_UsedTTL r)), (''Ingester.Redis.UnusedTTL'', LDuration (rd_UnusedTTL r)),
        (''Ingester.Redis.UsedOnly'', LBool (rd_UsedOnly r)),
        (''Ingester.Redis.OperationTimeout'', LDuration (rd_OperationTimeout r)),
        (''Ingester.Redis.DialTimeout'', LDuration (rd_DialTimeout r)),
        (''Ingester.Redis.ConnWriteTimeout'', LDuration (rd_ConnWriteTimeout r)),
        (''Ingester.Redis.BatchSize'', LInt (rd_BatchSize r))]))"

definition logIngesterCatalogSyncConfig :: "ProxyConfig \<Rightarrow> log_line" where
  "logIngesterCatalogSyncConfig cfg =
     (let c = ing_CatalogSync (cfg_Ingester cfg) in
      (''Ingester catalog sync configuration'',
       [(''Ingester.CatalogSync.Enabled'', LBool (cs_Enabled c)),
        (''Ingester.CatalogSync.FlushInterval'', LDuration (cs_FlushInterval c)),
        (''Ingester.CatalogSync.BufferSize'', LInt (cs_BufferSize c)),
        (''Ingester.CatalogSync.SeenTTL'', LDuration (cs_SeenTTL c))]))"

definition LogConfig :: "string \<Rightarrow> ProxyConfig \<Rightarrow> log_line list" where
  "LogConfig cmd c =
     (let cfg = GetSanitizedConfig c in
      [logUpstreamConfig cfg, logServerConfig cfg, logDatabaseConfig cfg, logInsertConfig cfg,
       logMemoryLimitConfig cfg, logLimitsConfig cfg, logCORSConfig cfg, logInventoryConfig cfg,
       logQueryProcessingConfig cfg, logRetentionConfig cfg]
      @ (if cmd = ''ingester''
         then [logIngesterConfig cfg, logIngesterOTLPConfig cfg, logIngesterRedisConfig cfg, logIngesterCatalogSyncConfig cfg]
         else []))"

section \<open>What the log tells\<close>

text \<open>A configuration without what must not, or need not, be known: passwords and tracing.\<close>

definition without_secrets :: "ProxyConfig \<Rightarrow> ProxyConfig" where
  "without_secrets c =
     c\<lparr>cfg_Tracing := None,
       cfg_Database := (cfg_Database c)\<lparr>db_PostgreSQL := (db_PostgreSQL (cfg_Database c))\<lparr>pg_Password := ''''\<rparr>\<rparr>,
       cfg_Ingester := (cfg_Ingester c)\<lparr>ing_Redis := (ing_Redis (cfg_Ingester c))\<lparr>rd_Password := ''''\<rparr>\<rparr>\<rparr>"

lemmas log_sections = logUpstreamConfig_def logServerConfig_def logDatabaseConfig_def logInsertConfig_def
  logMemoryLimitConfig_def logLimitsConfig_def logCORSConfig_def logInventoryConfig_def logQueryProcessingConfig_def
  logRetentionConfig_def logIngesterConfig_def logIngesterOTLPConfig_def logIngesterRedisConfig_def logIngesterCatalogSyncConfig_def

text \<open>Each line determines its section.\<close>

lemma log_line_sections:
  "logUpstreamConfig c = logUpstreamConfig d \<longleftrightarrow> cfg_Upstream c = cfg_Upstream d"
  "logServerConfig c = logServerConfig d \<longleftrightarrow> cfg_Server c = cfg_Server d"
  "logInsertConfig c = logInsertConfig d \<longleftrightarrow> cfg_Insert c = cfg_Insert d"
  "logMemoryLimitConfig c = logMemoryLimitConfig d \<longleftrightarrow> cfg_MemoryLimit c = cfg_MemoryLimit d"
  "logLimitsConfig c = logLimitsConfig d \<longleftrightarrow> cfg_MetadataLimit c = cfg_MetadataLimit d \<and> cfg_SeriesLimit c = cfg_SeriesLimit d"
  "logCORSConfig c = logCORSConfig d \<longleftrightarrow> cfg_CORS c = cfg_CORS d"
  "logInventoryConfig c = logInventoryConfig d \<longleftrightarrow> cfg_Inventory c = cfg_Inventory d"
  "logQueryProcessingConfig c = logQueryProcessingConfig d \<longleftrightarrow> cfg_QueryProcessing c = cfg_QueryProcessing d"
  "logRetentionConfig c = logRetentionConfig d \<longleftrightarrow> cfg_Retention c = cfg_Retention d"
  "logIngesterOTLPConfig c = logIngesterOTLPConfig d \<longleftrightarrow> ing_OTLP (cfg_Ingester c) = ing_OTLP (cfg_Ingester d)"
  "logIngesterCatalogSyncConfig c = logIngesterCatalogSyncConfig d
     \<longleftrightarrow> ing_CatalogSync (cfg_Ingester c) = ing_CatalogSync (cfg_Ingester d)"
  by (simp_all add: log_sections Let_def conj_comms del: of_nat_eq_iff) (auto intro: UpstreamConfig.equality ServerConfig.equality InsertConfig.equality MemoryLimitConfig.equality
      CORSConfig.equality InventoryConfig.equality QueryProcessing.equality RetentionConfig.equality OtlpIngesterConfig.equality
      CatalogSyncConfig.equality)

lemma log_line_passwords:
  "logDatabaseConfig c = logDatabaseConfig d
     \<longleftrightarrow> (cfg_Database c)\<lparr>db_PostgreSQL := (db_PostgreSQL (cfg_Database c))\<lparr>pg_Password := ''''\<rparr>\<rparr>
       = (cfg_Database d)\<lparr>db_PostgreSQL := (db_PostgreSQL (cfg_Database d))\<lparr>pg_Password := ''''\<rparr>\<rparr>"
  "logIngesterRedisConfig c = logIngesterRedisConfig d
     \<longleftrightarrow> (ing_Redis (cfg_Ingester c))\<lparr>rd_Password := ''''\<rparr> = (ing_Redis (cfg_Ingester d))\<lparr>rd_Password := ''''\<rparr>"
  "logIngesterConfig c = logIngesterConfig d
     \<longleftrightarrow> (cfg_Ingester c)\<lparr>ing_OTLP := o', ing_Redis := r, ing_CatalogSync := s\<rparr>
       = (cfg_Ingester d)\<lparr>ing_OTLP := o', ing_Redis := r, ing_CatalogSync := s\<rparr>"
  by (cases "cfg_Database c"; cases "db_PostgreSQL (cfg_Database c)"; cases "db_SQLite (cfg_Database c)"; cases "cfg_Database d";
      cases "db_PostgreSQL (cfg_Database d)"; cases "db_SQLite (cfg_Database d)"; auto simp: log_sections Let_def)
    (cases "cfg_Ingester c"; cases "ing_Redis (cfg_Ingester c)"; cases "cfg_Ingester d"; cases "ing_Redis (cfg_Ingester d)";
      auto simp: log_sections Let_def)+

lemma without_secrets_sections:
  "without_secrets c = without_secrets d \<longleftrightarrow>
     cfg_Upstream c = cfg_Upstream d \<and> cfg_Server c = cfg_Server d
   \<and> (cfg_Ingester c)\<lparr>ing_Redis := (ing_Redis (cfg_Ingester c))\<lparr>rd_Password := ''''\<rparr>\<rparr>
       = (cfg_Ingester d)\<lparr>ing_Redis := (ing_Redis (cfg_Ingester d))\<lparr>rd_Password := ''''\<rparr>\<rparr>
   \<and> (cfg_Database c)\<lparr>db_PostgreSQL := (db_PostgreSQL (cfg_Database c))\<lparr>pg_Password := ''''\<rparr>\<rparr>
       = (cfg_Database d)\<lparr>db_PostgreSQL := (db_PostgreSQL (cfg_Database d))\<lparr>pg_Password := ''''\<rparr>\<rparr>
   \<and> cfg_Insert c = cfg_Insert d \<and> cfg_MemoryLimit c = cfg_MemoryLimit d \<and> cfg_MetadataLimit c = cfg_MetadataLimit d
   \<and> cfg_SeriesLimit c = cfg_SeriesLimit d \<and> cfg_CORS c = cfg_CORS d \<and> cfg_Inventory c = cfg_Inventory d
   \<and> cfg_QueryProcessing c = cfg_QueryProcessing d \<and> cfg_Retention c = cfg_Retention d"
  by (cases c; cases d) (auto simp: without_secrets_def)


end
