(* ===== verification/Flags.thy ===== *)
theory Flags
  imports Config_Log Routes
begin

text \<open>
  The command line: Go's package \<open>flag\<close> as the program uses it, the registrations of all flags
  (\<open>cmd/api/run.go\<close>, \<open>cmd/ingester/run.go\<close>, \<open>internal/log\<close>, \<open>internal/config\<close>, \<open>internal/db\<close>,
  \<open>internal/ingester/otlp\<close>). A flag is a function on the settings; registering one writes its
  default. The texts of numbers and durations are read by \<open>strconv\<close> and \<open>time\<close>, which are arguments.
\<close>

section \<open>The package flag\<close>

text \<open>\<open>fl_init\<close> is the effect of the registration on the variable, \<open>fl_set\<close> that of an occurrence.\<close>

record 'c flag =
  fl_name :: string
  fl_bool :: bool
  fl_init :: "'c \<Rightarrow> 'c"
  fl_set :: "string \<Rightarrow> 'c \<Rightarrow> go_error + 'c"

record number_parsers =
  np_int :: "string \<Rightarrow> go_error + int"
  np_uint64 :: "string \<Rightarrow> go_error + nat"
  np_float64 :: "string \<Rightarrow> go_error + real"
  np_duration :: "string \<Rightarrow> go_error + duration"

definition ParseBool :: "string \<Rightarrow> go_error + bool" where
  "ParseBool v =
     (if v \<in> {''1'', ''t'', ''T'', ''TRUE'', ''true'', ''True''} then Inr True
      else if v \<in> {''0'', ''f'', ''F'', ''FALSE'', ''false'', ''False''} then Inr False
      else Inl ''parse error'')"

text \<open>
  A variable is given by its assignment. The default is a value, or \<open>None\<close> where the code names
  the variable itself as the default.
\<close>

definition Var :: "bool \<Rightarrow> (string \<Rightarrow> go_error + 'v) \<Rightarrow> ('v \<Rightarrow> 'c \<Rightarrow> 'c) \<Rightarrow> string \<Rightarrow> 'v option \<Rightarrow> 'c flag" where
  "Var isBool parse put name dflt =
     \<lparr>fl_name = name, fl_bool = isBool, fl_init = (case dflt of None \<Rightarrow> id | Some d \<Rightarrow> put d),
      fl_set = (\<lambda>v c. case parse v of Inl err \<Rightarrow> Inl err | Inr x \<Rightarrow> Inr (put x c))\<rparr>"

abbreviation "StringVar \<equiv> Var False Inr"
abbreviation "BoolVar \<equiv> Var True ParseBool"
abbreviation "IntVar P \<equiv> Var False (np_int P)"
abbreviation "Uint64Var P \<equiv> Var False (np_uint64 P)"
abbreviation "Float64Var P \<equiv> Var False (np_float64 P)"
abbreviation "DurationVar P \<equiv> Var False (np_duration P)"

definition FuncFlag :: "(string \<Rightarrow> 'c \<Rightarrow> 'c) \<Rightarrow> string \<Rightarrow> 'c flag" where
  "FuncFlag f name = \<lparr>fl_name = name, fl_bool = False, fl_init = id, fl_set = (\<lambda>v c. Inr (f v c))\<rparr>"

text \<open>\<open>FlagSet.Parse\<close> with \<open>ExitOnError\<close>: the settings and the arguments left over, or the exit code.\<close>

datatype 'c parsed = Parsed 'c "string list" | ParseExit int

fun split_name :: "string \<Rightarrow> string \<times> string option" where
  "split_name [] = ([], None)"
| "split_name (c # rest) =
     (let name = takeWhile (\<lambda>x. x \<noteq> CHR ''='') rest in
      (c # name, if length name < length rest then Some (drop (Suc (length name)) rest) else None))"

text \<open>The text of a flag without its dashes, or \<open>None\<close> for an argument that ends the flags.\<close>

definition flag_text :: "string \<Rightarrow> string option" where
  "flag_text s =
     (if length s < 2 \<or> hd s \<noteq> CHR ''-'' then None
      else if s ! 1 = CHR ''-'' then (if length s = 2 then None else Some (drop 2 s))
      else Some (drop 1 s))"

text \<open>\<open>parseOne\<close> on the next argument and those behind it: the flags end, the program exits, or they go on.\<close>

datatype 'c one = EndOfFlags "string list" | LeaveWith int | NextFlag 'c "string list"

definition set_flag :: "'c flag \<Rightarrow> string \<Rightarrow> 'c \<Rightarrow> string list \<Rightarrow> 'c one" where
  "set_flag f v c args = (case fl_set f v c of Inl err \<Rightarrow> LeaveWith 2 | Inr c' \<Rightarrow> NextFlag c' args)"

definition parseOne :: "'c flag list \<Rightarrow> string \<Rightarrow> string list \<Rightarrow> 'c \<Rightarrow> 'c one" where
  "parseOne fs s args c =
     (case flag_text s of
        None \<Rightarrow> EndOfFlags (if s = ''--'' then args else s # args)
      | Some t \<Rightarrow>
          if t = [] \<or> hd t = CHR ''-'' \<or> hd t = CHR ''='' then LeaveWith 2
          else
            (let (name, value) = split_name t in
             case find (\<lambda>f. fl_name f = name) fs of
               None \<Rightarrow> LeaveWith (if name = ''help'' \<or> name = ''h'' then 0 else 2)
             | Some f \<Rightarrow>
                 (case value of
                    Some v \<Rightarrow> set_flag f v c args
                  | None \<Rightarrow>
                      if fl_bool f then set_flag f ''true'' c args
                      else (case args of [] \<Rightarrow> LeaveWith 2 | v # args' \<Rightarrow> set_flag f v c args'))))"

lemma set_flag_Next: "set_flag f v c args = NextFlag c' args' \<longleftrightarrow> fl_set f v c = Inr c' \<and> args' = args"
  by (auto simp: set_flag_def split: sum.split)

lemma parseOne_shorter: "parseOne fs s args c = NextFlag c' args' \<Longrightarrow> length args' \<le> length args"
  by (auto simp: parseOne_def set_flag_Next Let_def split: option.splits if_splits prod.splits list.splits)

function parse_flags :: "'c flag list \<Rightarrow> string list \<Rightarrow> 'c \<Rightarrow> 'c parsed" where
  "parse_flags fs [] c = Parsed c []"
| "parse_flags fs (s # args) c =
     (case parseOne fs s args c of
        EndOfFlags rest \<Rightarrow> Parsed c rest
      | LeaveWith code \<Rightarrow> ParseExit code
      | NextFlag c' args' \<Rightarrow> parse_flags fs args' c')"
  by pat_completeness auto

termination
  by (relation "measure (\<lambda>(fs, args, c). length args)") (auto simp: less_Suc_eq_le dest: parseOne_shorter)

definition register :: "'c flag list \<Rightarrow> 'c \<Rightarrow> 'c" where
  "register fs c = fold fl_init fs c"

section \<open>The flags of the program\<close>

record settings =
  st_config :: ProxyConfig \<comment> \<open>the variable \<open>config.DefaultConfig\<close>\<close>
  st_configFile :: string
  st_logLevel :: string
  st_logFormat :: string

text \<open>The environment: user, password and database of PostgreSQL.\<close>

record environment =
  env_user :: string
  env_password :: string
  env_database :: string

abbreviation "in_ingester f \<equiv> st_config_update (cfg_Ingester_update f)"
abbreviation "in_otlp f \<equiv> in_ingester (ing_OTLP_update f)"
abbreviation "in_redis f \<equiv> in_ingester (ing_Redis_update f)"
abbreviation "in_catalogSync f \<equiv> in_ingester (ing_CatalogSync_update f)"
abbreviation "in_database f \<equiv> st_config_update (cfg_Database_update f)"
abbreviation "in_postgres f \<equiv> in_database (db_PostgreSQL_update f)"
abbreviation "in_insert f \<equiv> st_config_update (cfg_Insert_update f)"
abbreviation "in_server f \<equiv> st_config_update (cfg_Server_update f)"
abbreviation "in_upstream f \<equiv> st_config_update (cfg_Upstream_update f)"
abbreviation "in_inventory f \<equiv> st_config_update (cfg_Inventory_update f)"
abbreviation "in_memory f \<equiv> st_config_update (cfg_MemoryLimit_update f)"
abbreviation "in_retention f \<equiv> st_config_update (cfg_Retention_update f)"

definition log_RegisterFlags :: "settings flag list" where
  "log_RegisterFlags =
     [StringVar (\<lambda>v. st_logLevel_update (\<lambda>_. v)) ''log-level'' (Some ''INFO''),
      StringVar (\<lambda>v. st_logFormat_update (\<lambda>_. v)) ''log-format'' (Some ''text'')]"

definition RegisterPostGreSQLFlags :: "environment \<Rightarrow> number_parsers \<Rightarrow> settings flag list" where
  "RegisterPostGreSQLFlags env P =
     [DurationVar P (\<lambda>v. in_postgres (pg_DialTimeout_update (\<lambda>_. v))) ''postgresql-dial-timeout'' (Some (5 * second)),
      StringVar (\<lambda>v. in_postgres (pg_Addr_update (\<lambda>_. v))) ''postgresql-addr'' (Some ''localhost''),
      IntVar P (\<lambda>v. in_postgres (pg_Port_update (\<lambda>_. v))) ''postgresql-port'' (Some 5432),
      StringVar (\<lambda>v. in_postgres (pg_User_update (\<lambda>_. v))) ''postgresql-user'' (Some (env_user env)),
      StringVar (\<lambda>v. in_postgres (pg_Password_update (\<lambda>_. v))) ''postgresql-password'' (Some (env_password env)),
      StringVar (\<lambda>v. in_postgres (pg_Database_update (\<lambda>_. v))) ''postgresql-database'' (Some (env_database env)),
      StringVar (\<lambda>v. in_postgres (pg_SSLMode_update (\<lambda>_. v))) ''postgresql-sslmode'' (Some ''disable''),
      IntVar P (\<lambda>v. in_postgres (pg_MaxOpenConns_update (\<lambda>_. v))) ''postgresql-max-open-conns'' (Some 0),
      IntVar P (\<lambda>v. in_postgres (pg_MaxIdleConns_update (\<lambda>_. v))) ''postgresql-max-idle-conns'' (Some 0),
      DurationVar P (\<lambda>v. in_postgres (pg_ConnMaxLifetime_update (\<lambda>_. v))) ''postgresql-conn-max-lifetime'' (Some 0),
      DurationVar P (\<lambda>v. in_postgres (pg_ConnMaxIdleTime_update (\<lambda>_. v))) ''postgresql-conn-max-idle-time'' (Some 0)]"

definition RegisterSqliteFlags :: "settings flag list" where
  "RegisterSqliteFlags =
     [StringVar (\<lambda>v. in_database (db_SQLite_update (sl_DatabasePath_update (\<lambda>_. v)))) ''sqlite-database-path''
        (Some ''prom-analytics-proxy.db'')]"

definition RegisterInventoryFlags :: "number_parsers \<Rightarrow> settings flag list" where
  "RegisterInventoryFlags P =
     [DurationVar P (\<lambda>v. in_inventory (inv_SyncInterval_update (\<lambda>_. v))) ''inventory-sync-interval'' None,
      DurationVar P (\<lambda>v. in_inventory (inv_TimeWindow_update (\<lambda>_. v))) ''inventory-time-window'' None,
      DurationVar P (\<lambda>v. in_inventory (inv_RunTimeout_update (\<lambda>_. v))) ''inventory-run-timeout'' None,
      DurationVar P (\<lambda>v. in_inventory (inv_MetadataStepTimeout_update (\<lambda>_. v))) ''inventory-metadata-timeout'' None,
      DurationVar P (\<lambda>v. in_inventory (inv_SummaryStepTimeout_update (\<lambda>_. v))) ''inventory-summary-timeout'' None,
      DurationVar P (\<lambda>v. in_inventory (inv_JobIndexLabelTimeout_update (\<lambda>_. v))) ''inventory-job-index-label-timeout'' None,
      DurationVar P (\<lambda>v. in_inventory (inv_JobIndexPerJobTimeout_update (\<lambda>_. v))) ''inventory-job-index-per-job-timeout'' None,
      IntVar P (\<lambda>v. in_inventory (inv_JobIndexWorkers_update (\<lambda>_. v))) ''inventory-job-index-workers'' None,
      BoolVar (\<lambda>v. in_inventory (inv_MetadataSyncEnabled_update (\<lambda>_. v))) ''inventory-metadata-sync-enabled'' None]"

definition RegisterMemoryLimitFlags :: "number_parsers \<Rightarrow> settings flag list" where
  "RegisterMemoryLimitFlags P =
     [BoolVar (\<lambda>v. in_memory (ml_Enabled_update (\<lambda>_. v))) ''memory-limit-enabled'' None,
      Float64Var P (\<lambda>v. in_memory (ml_Ratio_update (\<lambda>_. v))) ''memory-limit-ratio'' None,
      DurationVar P (\<lambda>v. in_memory (ml_RefreshInterval_update (\<lambda>_. v))) ''memory-limit-refresh-interval'' None]"

definition RegisterRetentionFlags :: "number_parsers \<Rightarrow> settings flag list" where
  "RegisterRetentionFlags P =
     [BoolVar (\<lambda>v. in_retention (ret_Enabled_update (\<lambda>_. v))) ''retention-enabled'' None,
      DurationVar P (\<lambda>v. in_retention (ret_Interval_update (\<lambda>_. v))) ''retention-interval'' None,
      DurationVar P (\<lambda>v. in_retention (ret_RunTimeout_update (\<lambda>_. v))) ''retention-run-timeout'' None,
      DurationVar P (\<lambda>v. in_retention (ret_QueriesMaxAge_update (\<lambda>_. v))) ''retention-queries-max-age'' None]"

definition api_RegisterFlags :: "environment \<Rightarrow> number_parsers \<Rightarrow> settings flag list" where
  "api_RegisterFlags env P =
     [StringVar (\<lambda>v. st_configFile_update (\<lambda>_. v)) ''config-file'' (Some ''''),
      StringVar (\<lambda>v. in_database (db_Provider_update (\<lambda>_. v))) ''database-provider'' (Some ''''),
      BoolVar (\<lambda>v. in_inventory (inv_Enabled_update (\<lambda>_. v))) ''inventory-enabled'' None,
      Uint64Var P (\<lambda>v. st_config_update (cfg_MetadataLimit_update (\<lambda>_. v))) ''metadata-limit'' None,
      Uint64Var P (\<lambda>v. st_config_update (cfg_SeriesLimit_update (\<lambda>_. v))) ''series-limit'' None,
      StringVar (\<lambda>v. in_server (srv_InsecureListenAddress_update (\<lambda>_. v))) ''insecure-listen-address'' (Some '':9091''),
      DurationVar P (\<lambda>v. in_server (srv_PushMetricsUsageTimeout_update (\<lambda>_. v))) ''push-metrics-usage-timeout'' None,
      StringVar (\<lambda>v. in_upstream (up_URL_update (\<lambda>_. v))) ''upstream'' (Some ''''),
      BoolVar (\<lambda>v. in_upstream (up_IncludeQueryStats_update (\<lambda>_. v))) ''include-query-stats'' (Some True),
      IntVar P (\<lambda>v. in_insert (ins_BufferSize_update (\<lambda>_. v))) ''insert-buffer-size'' (Some 100),
      IntVar P (\<lambda>v. in_insert (ins_BatchSize_update (\<lambda>_. v))) ''insert-batch-size'' (Some 10),
      DurationVar P (\<lambda>v. in_insert (ins_Timeout_update (\<lambda>_. v))) ''insert-timeout'' (Some (1 * second)),
      DurationVar P (\<lambda>v. in_insert (ins_FlushInterval_update (\<lambda>_. v))) ''insert-flush-interval'' (Some (5 * second)),
      DurationVar P (\<lambda>v. in_insert (ins_GracePeriod_update (\<lambda>_. v))) ''insert-grace-period'' (Some (5 * second))]
     @ RegisterPostGreSQLFlags env P @ RegisterSqliteFlags @ RegisterInventoryFlags P
     @ RegisterMemoryLimitFlags P @ RegisterRetentionFlags P"

text \<open>\<open>strings.Split\<close> at commas, and the list a flag of comma-separated values gives.\<close>

fun split_comma :: "string \<Rightarrow> string list" where
  "split_comma [] = [[]]"
| "split_comma (c # s) =
     (if c = CHR '','' then [] # split_comma s
      else (case split_comma s of [] \<Rightarrow> [[c]] | p # ps \<Rightarrow> (c # p) # ps))"

definition comma_list :: "string \<Rightarrow> string list" where
  "comma_list v = (if v = [] then [] else filter (\<lambda>s. s \<noteq> []) (map TrimSpace (split_comma v)))"

definition RegisterOTLPFlags :: "number_parsers \<Rightarrow> settings flag list" where
  "RegisterOTLPFlags P =
     [StringVar (\<lambda>v. in_otlp (ListenAddress_update (\<lambda>_. v))) ''otlp-listen-address'' (Some '':4317''),
      StringVar (\<lambda>v. in_otlp (DownstreamAddress_update (\<lambda>_. v))) ''otlp-downstream-address'' (Some ''''),
      IntVar P (\<lambda>v. in_otlp (GRPCMaxRecvMsgSizeBytes_update (\<lambda>_. v))) ''otlp-max-recv-bytes'' None,
      IntVar P (\<lambda>v. in_otlp (GRPCMaxSendMsgSizeBytes_update (\<lambda>_. v))) ''otlp-max-send-bytes'' None,
      IntVar P (\<lambda>v. in_otlp (DownstreamGRPCMaxRecvMsgSizeBytes_update (\<lambda>_. v))) ''otlp-downstream-max-recv-bytes'' None,
      IntVar P (\<lambda>v. in_otlp (DownstreamGRPCMaxSendMsgSizeBytes_update (\<lambda>_. v))) ''otlp-downstream-max-send-bytes'' None,
      IntVar P (\<lambda>v. in_otlp (DownstreamRetryMaxAttempts_update (\<lambda>_. v))) ''otlp-downstream-retry-max-attempts'' None,
      DurationVar P (\<lambda>v. in_otlp (DownstreamRetryInitialBackoff_update (\<lambda>_. v))) ''otlp-downstream-retry-initial-backoff'' None,
      DurationVar P (\<lambda>v. in_otlp (DownstreamRetryMaxBackoff_update (\<lambda>_. v))) ''otlp-downstream-retry-max-backoff'' None,
      Float64Var P (\<lambda>v. in_otlp (DownstreamRetryBackoffMultiplier_update (\<lambda>_. v))) ''otlp-downstream-retry-backoff-multiplier'' None,
      FuncFlag (\<lambda>v. in_otlp (DownstreamRetryCodes_update (\<lambda>_. comma_list v))) ''otlp-downstream-retry-codes'',
      StringVar (\<lambda>v. in_otlp (BalancerName_update (\<lambda>_. v))) ''otlp-balancer-name'' (Some ''''),
      DurationVar P (\<lambda>v. in_otlp (DownstreamConnectMinTimeout_update (\<lambda>_. v))) ''otlp-downstream-connect-min-timeout'' None,
      DurationVar P (\<lambda>v. in_otlp (DownstreamConnectBaseDelay_update (\<lambda>_. v))) ''otlp-downstream-connect-base-delay'' None,
      DurationVar P (\<lambda>v. in_otlp (DownstreamConnectMaxDelay_update (\<lambda>_. v))) ''otlp-downstream-connect-max-delay'' None,
      Float64Var P (\<lambda>v. in_otlp (DownstreamConnectBackoffMultiplier_update (\<lambda>_. v))) ''otlp-downstream-connect-backoff-multiplier'' None,
      IntVar P (\<lambda>v. in_otlp (LookupChunkSize_update (\<lambda>_. v))) ''otlp-lookup-chunk-size'' None,
      BoolVar (\<lambda>v. in_redis (rd_Enabled_update (\<lambda>_. v))) ''ingester-cache-enabled'' None,
      StringVar (\<lambda>v. in_redis (rd_Addr_update (\<lambda>_. v))) ''ingester-cache-addr'' None,
      StringVar (\<lambda>v. in_redis (rd_Username_update (\<lambda>_. v))) ''ingester-cache-username'' None,
      StringVar (\<lambda>v. in_redis (rd_Password_update (\<lambda>_. v))) ''ingester-cache-password'' None,
      IntVar P (\<lambda>v. in_redis (rd_DB_update (\<lambda>_. v))) ''ingester-cache-db'' None,
      DurationVar P (\<lambda>v. in_redis (rd_UsedTTL_update (\<lambda>_. v))) ''ingester-cache-used-ttl'' None,
      DurationVar P (\<lambda>v. in_redis (rd_UnusedTTL_update (\<lambda>_. v))) ''ingester-cache-unused-ttl'' None,
      BoolVar (\<lambda>v. in_redis (rd_UsedOnly_update (\<lambda>_. v))) ''ingester-cache-used-only'' None,
      DurationVar P (\<lambda>v. in_redis (rd_OperationTimeout_update (\<lambda>_. v))) ''ingester-cache-operation-timeout'' None,
      DurationVar P (\<lambda>v. in_redis (rd_DialTimeout_update (\<lambda>_. v))) ''ingester-cache-dial-timeout'' None,
      DurationVar P (\<lambda>v. in_redis (rd_ConnWriteTimeout_update (\<lambda>_. v))) ''ingester-cache-conn-write-timeout'' None,
      IntVar P (\<lambda>v. in_redis (rd_BatchSize_update (\<lambda>_. v))) ''ingester-cache-batch-size'' None,
      BoolVar (\<lambda>v. in_catalogSync (cs_Enabled_update (\<lambda>_. v))) ''ingester-catalog-sync-enabled'' None,
      DurationVar P (\<lambda>v. in_catalogSync (cs_FlushInterval_update (\<lambda>_. v))) ''ingester-catalog-sync-flush-interval'' None,
      IntVar P (\<lambda>v. in_catalogSync (cs_BufferSize_update (\<lambda>_. v))) ''ingester-catalog-sync-buffer-size'' None,
      DurationVar P (\<lambda>v. in_catalogSync (cs_SeenTTL_update (\<lambda>_. v))) ''ingester-catalog-sync-seen-ttl'' None]"

definition ingester_RegisterFlags :: "environment \<Rightarrow> number_parsers \<Rightarrow> settings flag list" where
  "ingester_RegisterFlags env P =
     [StringVar (\<lambda>v. st_configFile_update (\<lambda>_. v)) ''config-file'' (Some ''''),
      StringVar (\<lambda>v. in_ingester (ing_Protocol_update (\<lambda>_. v))) ''ingester-protocol'' (Some ''otlp''),
      DurationVar P (\<lambda>v. in_ingester (ing_GracefulShutdownTimeout_update (\<lambda>_. v))) ''ingester-graceful-timeout'' (Some (30 * second)),
      DurationVar P (\<lambda>v. in_ingester (ing_DrainDelay_update (\<lambda>_. v))) ''ingester-drain-delay'' (Some (2 * second)),
      StringVar (\<lambda>v. in_ingester (ing_MetricsListenAddress_update (\<lambda>_. v))) ''ingester-metrics-listen-address'' None,
      StringVar (\<lambda>v. in_database (db_Provider_update (\<lambda>_. v))) ''database-provider'' (Some ''''),
      BoolVar (\<lambda>v. in_ingester (ing_DryRun_update (\<lambda>_. v))) ''ingester-dry-run'' (Some False),
      FuncFlag (\<lambda>v. in_ingester (ing_AllowedJobs_update (\<lambda>_. comma_list v))) ''ingester-allowed-jobs'',
      FuncFlag (\<lambda>v. in_ingester (ing_DeniedJobs_update (\<lambda>_. comma_list v))) ''ingester-denied-jobs'']
     @ RegisterOTLPFlags P @ RegisterPostGreSQLFlags env P @ RegisterSqliteFlags @ RegisterMemoryLimitFlags P"

text \<open>The two flag sets of \<open>main\<close>.\<close>

definition apiFlagSet :: "environment \<Rightarrow> number_parsers \<Rightarrow> settings flag list" where
  "apiFlagSet env P = log_RegisterFlags @ api_RegisterFlags env P"

definition ingesterFlagSet :: "environment \<Rightarrow> number_parsers \<Rightarrow> settings flag list" where
  "ingesterFlagSet env P = log_RegisterFlags @ ingester_RegisterFlags env P"

end
