(* ===== verification/Otlp_Downstream.thy ===== *)
theory Otlp_Downstream
  imports Otlp_Ingester Go_Text
begin

text \<open>
  The downstream exporter (\<open>internal/ingester/otlp/downstream.go\<close>): the options of the client,
  merged from the configuration over the defaults, the service config handed to gRPC, and one
  call with the observation it leaves in the histogram of calls. \<open>initDownstreamExporter\<close> and
  \<open>grpcServerOptions\<close> of \<open>ingester.go\<close> are here as well. The gRPC client library is an argument;
  what it requires of a retry policy is \<open>valid_retry_policy\<close>.
\<close>

section \<open>Options\<close>

record RetryPolicy =
  MaxAttempts :: int
  InitialBackoff :: duration
  MaxBackoff :: duration
  BackoffMultiplier :: real
  RetryableStatusCodes :: "string list"

record ExporterOptions =
  eo_Retry :: RetryPolicy
  eo_MaxSendMsgSizeBytes :: int
  eo_MaxRecvMsgSizeBytes :: int
  eo_BalancerName :: string
  eo_ConnectMinTimeout :: duration
  eo_ConnectBaseDelay :: duration
  eo_ConnectMaxDelay :: duration
  eo_ConnectMultiplier :: real

definition defaultExporterOptions :: ExporterOptions where
  "defaultExporterOptions =
     \<lparr>eo_Retry = \<lparr>MaxAttempts = 2, InitialBackoff = 250 * millisecond, MaxBackoff = 1 * second,
        BackoffMultiplier = 16 / 10, RetryableStatusCodes = [''UNAVAILABLE'']\<rparr>,
      eo_MaxSendMsgSizeBytes = 10 * 1024 * 1024, eo_MaxRecvMsgSizeBytes = 10 * 1024 * 1024, eo_BalancerName = [],
      eo_ConnectMinTimeout = 500 * millisecond, eo_ConnectBaseDelay = 250 * millisecond,
      eo_ConnectMaxDelay = 5 * second, eo_ConnectMultiplier = 16 / 10\<rparr>"

text \<open>A field that is set replaces the default.\<close>

definition positive_or :: "'a :: linordered_idom \<Rightarrow> 'a \<Rightarrow> 'a" where
  "positive_or x d = (if x > 0 then x else d)"

definition nonempty_or :: "'a list \<Rightarrow> 'a list \<Rightarrow> 'a list" where
  "nonempty_or x d = (if x \<noteq> [] then x else d)"

definition merge_retry :: "RetryPolicy \<Rightarrow> RetryPolicy \<Rightarrow> RetryPolicy" where
  "merge_retry opts r =
     \<lparr>MaxAttempts = positive_or (MaxAttempts opts) (MaxAttempts r),
      InitialBackoff = positive_or (InitialBackoff opts) (InitialBackoff r),
      MaxBackoff = positive_or (MaxBackoff opts) (MaxBackoff r),
      BackoffMultiplier = positive_or (BackoffMultiplier opts) (BackoffMultiplier r),
      RetryableStatusCodes = nonempty_or (RetryableStatusCodes opts) (RetryableStatusCodes r)\<rparr>"

definition merge_options :: "ExporterOptions option \<Rightarrow> ExporterOptions" where
  "merge_options optsp =
     (let d = defaultExporterOptions in
      case optsp of
        None \<Rightarrow> d
      | Some opts \<Rightarrow>
          \<lparr>eo_Retry = merge_retry (eo_Retry opts) (eo_Retry d),
           eo_MaxSendMsgSizeBytes = positive_or (eo_MaxSendMsgSizeBytes opts) (eo_MaxSendMsgSizeBytes d),
           eo_MaxRecvMsgSizeBytes = positive_or (eo_MaxRecvMsgSizeBytes opts) (eo_MaxRecvMsgSizeBytes d),
           eo_BalancerName = nonempty_or (eo_BalancerName opts) (eo_BalancerName d),
           eo_ConnectMinTimeout = positive_or (eo_ConnectMinTimeout opts) (eo_ConnectMinTimeout d),
           eo_ConnectBaseDelay = positive_or (eo_ConnectBaseDelay opts) (eo_ConnectBaseDelay d),
           eo_ConnectMaxDelay = positive_or (eo_ConnectMaxDelay opts) (eo_ConnectMaxDelay d),
           eo_ConnectMultiplier = positive_or (eo_ConnectMultiplier opts) (eo_ConnectMultiplier d)\<rparr>)"

section \<open>The service config\<close>

text \<open>
  \<open>FormatFloat(float64(d)/float64(time.Second), 'f', -1, 64)\<close> on a positive duration below
  \<open>10 ^ 15\<close> nanoseconds: fifteen digits survive a conversion to binary and back, so the
  shortest text is the decimal fraction without trailing zeros.
\<close>

fun digits_text :: "nat \<Rightarrow> nat \<Rightarrow> string" where
  "digits_text 0 n = []"
| "digits_text (Suc k) n = digits_text k (n div 10) @ [char_of (48 + n mod 10)]"

lemma digits_text_numeral:
  "digits_text (numeral k) n = digits_text (pred_numeral k) (n div 10) @ [char_of (48 + n mod 10)]"
  unfolding numeral_eq_Suc digits_text.simps ..

definition drop_zeros :: "string \<Rightarrow> string" where
  "drop_zeros s = rev (dropWhile (\<lambda>c. c = CHR ''0'') (rev s))"

definition seconds_text :: "duration \<Rightarrow> string" where
  "seconds_text d =
     (let whole = nat (d div second); frac = drop_zeros (digits_text 9 (nat (d mod second)))
      in itoa whole @ (if frac = [] then [] else ''.'' @ frac) @ ''s'')"

record grpcRetryPolicyJSON =
  rp_maxAttempts :: int
  rp_initialBackoff :: string
  rp_maxBackoff :: string
  rp_backoffMultiplier :: real
  rp_retryableStatusCodes :: "string list"

record grpcMethodConfigJSON =
  mc_name :: "(string \<times> string) list" \<comment> \<open>service and method\<close>
  mc_retryPolicy :: grpcRetryPolicyJSON

text \<open>The objects of \<open>loadBalancingConfig\<close> are given by their only key; their value is empty.\<close>

record grpcServiceConfigJSON =
  sc_loadBalancingConfig :: "string list"
  sc_methodConfig :: "grpcMethodConfigJSON list"

definition buildServiceConfigJSON ::
  "(grpcServiceConfigJSON \<Rightarrow> go_error + string) \<Rightarrow> ExporterOptions \<Rightarrow> go_error + string" where
  "buildServiceConfigJSON marshal opts = marshal
     \<lparr>sc_loadBalancingConfig = (if eo_BalancerName opts = ''round_robin'' then [''round_robin''] else []),
      sc_methodConfig = [\<lparr>mc_name = [(''opentelemetry.proto.collector.metrics.v1.MetricsService'', ''Export'')],
        mc_retryPolicy = \<lparr>rp_maxAttempts = MaxAttempts (eo_Retry opts),
          rp_initialBackoff = seconds_text (InitialBackoff (eo_Retry opts)),
          rp_maxBackoff = seconds_text (MaxBackoff (eo_Retry opts)),
          rp_backoffMultiplier = BackoffMultiplier (eo_Retry opts),
          rp_retryableStatusCodes = RetryableStatusCodes (eo_Retry opts)\<rparr>\<rparr>]\<rparr>"

section \<open>The client\<close>

record dial_options =
  do_serviceConfig :: string
  do_maxSend :: int
  do_maxRecv :: int
  do_minConnectTimeout :: duration
  do_baseDelay :: duration
  do_multiplier :: real
  do_jitter :: real
  do_maxDelay :: duration

text \<open>\<open>dial\<close> is \<open>grpc.NewClient\<close>: an error, or a connection.\<close>

definition NewOTLPExporter ::
  "(grpcServiceConfigJSON \<Rightarrow> go_error + string) \<Rightarrow> (string \<Rightarrow> dial_options \<Rightarrow> go_error + 'c) \<Rightarrow> string \<Rightarrow> string
   \<Rightarrow> ExporterOptions option \<Rightarrow> go_error + string \<times> 'c" where
  "NewOTLPExporter marshal dial endpoint protocol optsp =
     (let opts = merge_options optsp in
      case buildServiceConfigJSON marshal opts of
        Inl err \<Rightarrow> Inl err
      | Inr serviceConfig \<Rightarrow>
          (case dial endpoint
                  \<lparr>do_serviceConfig = serviceConfig,
                   do_maxSend = positive_or (eo_MaxSendMsgSizeBytes opts) (10 * 1024 * 1024),
                   do_maxRecv = positive_or (eo_MaxRecvMsgSizeBytes opts) (10 * 1024 * 1024),
                   do_minConnectTimeout = eo_ConnectMinTimeout opts, do_baseDelay = eo_ConnectBaseDelay opts,
                   do_multiplier = eo_ConnectMultiplier opts, do_jitter = 2 / 10, do_maxDelay = eo_ConnectMaxDelay opts\<rparr> of
             Inl err \<Rightarrow> Inl err
           | Inr conn \<Rightarrow> Inr (protocol, conn)))"

text \<open>The options a configuration gives, and the exporter of the ingester: none without an address.\<close>

definition exporter_options :: "OtlpIngesterConfig \<Rightarrow> ExporterOptions" where
  "exporter_options c =
     \<lparr>eo_Retry = \<lparr>MaxAttempts = DownstreamRetryMaxAttempts c, InitialBackoff = DownstreamRetryInitialBackoff c,
        MaxBackoff = DownstreamRetryMaxBackoff c, BackoffMultiplier = DownstreamRetryBackoffMultiplier c,
        RetryableStatusCodes = DownstreamRetryCodes c\<rparr>,
      eo_MaxSendMsgSizeBytes = DownstreamGRPCMaxSendMsgSizeBytes c,
      eo_MaxRecvMsgSizeBytes = DownstreamGRPCMaxRecvMsgSizeBytes c, eo_BalancerName = BalancerName c,
      eo_ConnectMinTimeout = DownstreamConnectMinTimeout c, eo_ConnectBaseDelay = DownstreamConnectBaseDelay c,
      eo_ConnectMaxDelay = DownstreamConnectMaxDelay c, eo_ConnectMultiplier = DownstreamConnectBackoffMultiplier c\<rparr>"

definition initDownstreamExporter where
  "initDownstreamExporter marshal dial cfg =
     (let otlp = ing_OTLP (cfg_Ingester cfg) in
      if DownstreamAddress otlp = [] then Inr None
      else (case NewOTLPExporter marshal dial (DownstreamAddress otlp) (ing_Protocol (cfg_Ingester cfg))
                   (Some (exporter_options otlp)) of
              Inl err \<Rightarrow> Inl err | Inr e \<Rightarrow> Inr (Some e)))"

text \<open>The sizes of the server's own messages: receive and send.\<close>

definition grpcServerOptions :: "ProxyConfig option \<Rightarrow> int \<times> int" where
  "grpcServerOptions cfgp =
     (case cfgp of
        None \<Rightarrow> (10 * 1024 * 1024, 10 * 1024 * 1024)
      | Some cfg \<Rightarrow> (positive_or (GRPCMaxRecvMsgSizeBytes (ing_OTLP (cfg_Ingester cfg))) (10 * 1024 * 1024),
                     positive_or (GRPCMaxSendMsgSizeBytes (ing_OTLP (cfg_Ingester cfg))) (10 * 1024 * 1024)))"

text \<open>
  One call: what the server answered, and the code and duration observed in the histogram
  \<open>ingester_rpc_client_duration_seconds\<close>.
\<close>

definition otlpExporter_Export ::
  "export_error option \<Rightarrow> duration \<Rightarrow> (string \<times> duration) list \<Rightarrow> export_error option \<times> (string \<times> duration) list" where
  "otlpExporter_Export answer elapsed observed =
     (answer, observed @ [((case answer of None \<Rightarrow> ''OK'' | Some err \<Rightarrow> ee_code err), elapsed)])"

definition otlpExporter_Close :: "('c \<Rightarrow> go_error option) \<Rightarrow> 'c option \<Rightarrow> go_error option" where
  "otlpExporter_Close close conn = (case conn of None \<Rightarrow> None | Some c \<Rightarrow> close c)"

section \<open>Facts\<close>

text \<open>Reading a text of seconds back, as the JSON form of a protobuf duration is read.\<close>

definition read_seconds :: "string \<Rightarrow> duration" where
  "read_seconds s =
     (let body = butlast s; whole = takeWhile (\<lambda>c. c \<noteq> CHR ''.'') body; frac = drop (Suc (length whole)) body
      in int (read_nat whole) * second + int (read_nat frac * 10 ^ (9 - length frac)))"

lemma digits_text_facts:
  "length (digits_text k n) = k" "read_nat (digits_text k n) = n mod 10 ^ k" "CHR ''.'' \<notin> set (digits_text k n)"
proof (induction k arbitrary: n)
  case (Suc k)
  { case 1 show ?case using Suc by simp }
  { case 2
    have "n mod (10 * 10 ^ k) = 10 * (n div 10 mod 10 ^ k) + n mod 10" by (rule mod_mult2_eq)
    then show ?case using Suc(2) by (simp add: read_nat_snoc digit_char del: of_char_of) }
  { case 3 show ?case using Suc(3) digit_char(2) [of "n mod 10"] by auto }
qed (simp_all add: read_nat_def)

lemma drop_zeros_split: "\<exists>k. s = drop_zeros s @ replicate k (CHR ''0'')"
proof -
  let ?z = "takeWhile (\<lambda>c. c = CHR ''0'') (rev s)"
  have "?z = replicate (length ?z) (CHR ''0'')"
    by (rule replicate_eqI [symmetric, THEN sym]) (auto dest: set_takeWhileD)
  moreover have "rev s = ?z @ dropWhile (\<lambda>c. c = CHR ''0'') (rev s)" by simp
  then have "s = drop_zeros s @ rev ?z" unfolding drop_zeros_def by (metis rev_append rev_rev_ident)
  ultimately show ?thesis by (metis rev_replicate)
qed

lemma seconds_text_reads_back:
  assumes "0 \<le> d"
  shows "read_seconds (seconds_text d) = d"
proof -
  define w f where "w = nat (d div second)" and "f = nat (d mod second)"
  define z where "z = drop_zeros (digits_text 9 f)"
  have f: "f < 10 ^ 9" "d = int w * second + int f"
    using assms pos_mod_bound [of second d] by (simp_all add: w_def f_def duration_defs pos_imp_zdiv_nonneg_iff)
  obtain k where k: "digits_text 9 f = z @ replicate k (CHR ''0'')" using drop_zeros_split z_def by blast
  have len: "length z + k = 9" using digits_text_facts(1) [of 9 f] by (simp add: k)
  have "read_nat z * 10 ^ k = f" using digits_text_facts(2) [of 9 f] f(1) by (simp add: k read_nat_zeros)
  moreover have "k = 9 - length z" using len by simp
  ultimately have frac: "read_nat z * 10 ^ (9 - length z) = f" by simp
  have t: "seconds_text d = itoa w @ (if z = [] then [] else ''.'' @ z) @ ''s''"
    by (simp add: seconds_text_def w_def f_def z_def Let_def)
  have tw: "takeWhile (\<lambda>c. c \<noteq> CHR ''.'') (itoa w @ x) = itoa w @ takeWhile (\<lambda>c. c \<noteq> CHR ''.'') x" for x
    using itoa_facts(2) by (intro takeWhile_append2) auto
  have body: "butlast (seconds_text d) = itoa w @ (if z = [] then [] else ''.'' @ z)"
    by (simp add: t butlast_append)
  have whole: "takeWhile (\<lambda>c. c \<noteq> CHR ''.'') (butlast (seconds_text d)) = itoa w"
    unfolding body tw by simp
  have "drop (Suc (length (itoa w))) (butlast (seconds_text d)) = z" unfolding body by simp
  note rest = this
  show ?thesis unfolding read_seconds_def Let_def whole rest itoa_facts(1) frac using f(2) by simp
qed

text \<open>What gRPC requires of a retry policy (gRFC A6); it refuses a service config with another one.\<close>

definition valid_retry_policy :: "RetryPolicy \<Rightarrow> bool" where
  "valid_retry_policy r \<longleftrightarrow> MaxAttempts r > 1 \<and> InitialBackoff r > 0 \<and> MaxBackoff r > 0 \<and> BackoffMultiplier r > 0
     \<and> RetryableStatusCodes r \<noteq> []"



end
