(* ===== verification/Startup.thy ===== *)
theory Startup
  imports Flags Sql_Query Otlp_Downstream
begin

text \<open>
  The start of the program (\<open>main.go\<close>, \<open>internal/log/log.go\<close>): the command is chosen, its flags are
  parsed over the registered defaults, the configuration file is loaded over that, and the memory
  limit is computed. Reading and decoding of the file and the tracing library are arguments.
\<close>

section \<open>Logger and memory limit\<close>

text \<open>\<open>Level.UnmarshalText\<close>: a name in any case, with an offset.\<close>

definition parseLogLevel :: "string \<Rightarrow> go_error + int" where
  "parseLogLevel s =
     (let name = takeWhile (\<lambda>c. c \<noteq> CHR ''+'' \<and> c \<noteq> CHR ''-'') s; rest = drop (length name) s in
      case (if rest = [] then Inr 0 else Atoi rest) of
        Inl err \<Rightarrow> Inl err
      | Inr offset \<Rightarrow>
          (case map_of [(''DEBUG'', -4), (''INFO'', 0), (''WARN'', 4), (''ERROR'', 8)] (to_upper name) of
             None \<Rightarrow> Inl ''unknown name''
           | Some level \<Rightarrow> Inr (wrap64 (level + offset))))"

definition NewLogger :: "settings \<Rightarrow> go_error + int \<times> string" where
  "NewLogger s =
     (case parseLogLevel (st_logLevel s) of
        Inl err \<Rightarrow> Inl err
      | Inr level \<Rightarrow>
          if st_logFormat s = ''text'' \<or> st_logFormat s = ''json'' then Inr (level, st_logFormat s)
          else Inl ''unknown log format'')"

text \<open>What \<open>configureGoMemLimit\<close> asks of the library: nothing, or a ratio and an interval of refreshes.\<close>

definition configureGoMemLimit :: "MemoryLimitConfig \<Rightarrow> (real \<times> duration option) option" where
  "configureGoMemLimit cfg =
     (if ml_Enabled cfg
      then (let ratio = (if ml_Ratio cfg \<le> 0 \<or> ml_Ratio cfg > 1 then 9 / 10 else ml_Ratio cfg)
            in Some (ratio, if ml_RefreshInterval cfg > 0 then Some (ml_RefreshInterval cfg) else None))
      else None)"

section \<open>The command\<close>

text \<open>The exit code, or the command and its arguments.\<close>

definition help_args :: "string set" where "help_args = {''-h'', ''--help'', ''help''}"

definition choose_command :: "string list \<Rightarrow> int + string \<times> string list" where
  "choose_command args =
     (case args of
        [] \<Rightarrow> Inr (''api'', [])
      | first # rest \<Rightarrow>
          if first \<in> help_args then Inl 0
          else if first = ''api'' \<or> first = ''ingester'' then
            (if rest \<noteq> [] \<and> hd rest \<in> help_args then Inl 0 else Inr (first, rest))
          else if \<not> HasPrefix first ''-'' then Inl 2
          else Inr (''api'', args))"

definition flags_of :: "environment \<Rightarrow> number_parsers \<Rightarrow> string \<Rightarrow> settings flag list" where
  "flags_of env P cmd = (if cmd = ''api'' then apiFlagSet env P else ingesterFlagSet env P)"

text \<open>Both sets are registered before either is parsed.\<close>

definition registered :: "environment \<Rightarrow> number_parsers \<Rightarrow> settings" where
  "registered env P = register (ingesterFlagSet env P) (register (apiFlagSet env P)
     \<lparr>st_config = DefaultConfig, st_configFile = [], st_logLevel = [], st_logFormat = []\<rparr>)"

text \<open>
  \<open>main\<close> up to the call of the command's \<open>Run\<close>: the exit code; or the command, the settings, the
  memory limit and the lines the log shows at the level \<open>DEBUG\<close>.
\<close>

datatype outcome = Exit int | Started string settings "(real \<times> duration option) option" "log_line list"

definition main :: "environment \<Rightarrow> number_parsers \<Rightarrow> (string \<Rightarrow> go_error + string)
    \<Rightarrow> (string \<Rightarrow> ProxyConfig \<Rightarrow> go_error option \<times> ProxyConfig) \<Rightarrow> (ProxyConfig \<Rightarrow> go_error option)
    \<Rightarrow> string list \<Rightarrow> outcome" where
  "main env P readFile unmarshal tracer args =
     (case choose_command args of
        Inl code \<Rightarrow> Exit code
      | Inr (cmd, rest) \<Rightarrow>
          (case parse_flags (flags_of env P cmd) rest (registered env P) of
             ParseExit code \<Rightarrow> Exit code
           | Parsed s _ \<Rightarrow>
               (case NewLogger s of
                  Inl err \<Rightarrow> Exit 1
                | Inr (level, format) \<Rightarrow>
                    (case (if st_configFile s \<noteq> [] then LoadConfig (readFile (st_configFile s)) unmarshal (st_config s)
                           else (None, st_config s)) of
                       (Some err, _) \<Rightarrow> Exit 1
                     | (None, cfg) \<Rightarrow>
                         if IsTracingEnabled (Some cfg) \<and> tracer cfg \<noteq> None then Exit 1
                         else Started cmd (s\<lparr>st_config := cfg\<rparr>) (configureGoMemLimit (cfg_MemoryLimit cfg))
                                (if level \<le> -4 then LogConfig cmd cfg else [])))))"

section \<open>Facts on the parser\<close>

lemma parseOne_append:
  "parseOne fs s args c = NextFlag c' args' \<Longrightarrow> parseOne fs s (args @ ys) c = NextFlag c' (args' @ ys)"
  unfolding parseOne_def
  by (cases "flag_text s"; cases "split_name (the (flag_text s))"; cases "find (\<lambda>f. fl_name f = fst (split_name (the (flag_text s)))) fs";
      cases "snd (split_name (the (flag_text s)))"; cases args) (auto simp: set_flag_Next split: if_splits)

lemma parseOne_EndOfFlags:
  "parseOne fs s args c = EndOfFlags rest \<longleftrightarrow> flag_text s = None \<and> rest = (if s = ''--'' then args else s # args)"
  unfolding parseOne_def
  by (cases "flag_text s"; cases "split_name (the (flag_text s))"; cases "find (\<lambda>f. fl_name f = fst (split_name (the (flag_text s)))) fs";
      cases "snd (split_name (the (flag_text s)))"; cases args) (auto simp: set_flag_def split: sum.split)

lemma parseOne_rest: "parseOne fs s args c = NextFlag c' args' \<Longrightarrow> set args' \<subseteq> set args"
  unfolding parseOne_def
  by (cases "flag_text s"; cases "split_name (the (flag_text s))"; cases "find (\<lambda>f. fl_name f = fst (split_name (the (flag_text s)))) fs";
      cases "snd (split_name (the (flag_text s)))"; cases args) (auto simp: set_flag_Next split: if_splits)

text \<open>Flags that are followed by more: the rest is parsed with what they set.\<close>

lemma parse_flags_append:
  "parse_flags fs xs c = Parsed c' [] \<Longrightarrow> ''--'' \<notin> set xs \<Longrightarrow> parse_flags fs (xs @ ys) c = parse_flags fs ys c'"
proof (induction fs xs c rule: parse_flags.induct)
  case (2 fs s args c)
  then obtain c1 args1 where n: "parseOne fs s args c = NextFlag c1 args1"
    by (auto simp: parseOne_EndOfFlags split: one.splits if_splits)
  have "''--'' \<notin> set args1"
    using 2(3) parseOne_rest [OF n] by auto
  with 2 n show ?case by (simp add: parseOne_append)
qed simp

text \<open>An argument that is not a flag, where one is expected, ends the flags.\<close>

lemma parse_flags_stops:
  assumes "flag_text w = None"
  shows "parse_flags fs xs c = Parsed c' rest \<Longrightarrow> \<exists>rest'. parse_flags fs (xs @ w # ys) c = Parsed c' rest'"
proof (induction fs xs c rule: parse_flags.induct)
  case (1 fs c)
  then show ?case using assms by (simp add: parseOne_def)
next
  case (2 fs s args c)
  show ?case
  proof (cases "parseOne fs s args c")
    case (EndOfFlags r)
    then have "\<exists>r'. parseOne fs s (args @ w # ys) c = EndOfFlags r'" by (simp add: parseOne_EndOfFlags)
    with 2 EndOfFlags show ?thesis by auto
  next
    case (NextFlag c1 args1)
    with 2 show ?thesis by (simp add: parseOne_append)
  qed (use 2 in simp)
qed

section \<open>The registered settings\<close>

lemmas flag_lists = apiFlagSet_def ingesterFlagSet_def log_RegisterFlags_def api_RegisterFlags_def ingester_RegisterFlags_def
  RegisterPostGreSQLFlags_def RegisterSqliteFlags_def RegisterInventoryFlags_def RegisterMemoryLimitFlags_def
  RegisterRetentionFlags_def RegisterOTLPFlags_def

lemma flag_fields [simp]:
  "fl_name (Var b p put n d) = n" "fl_bool (Var b p put n d) = b" "fl_init (Var b p put n d) = (case d of None \<Rightarrow> id | Some v \<Rightarrow> put v)"
  "fl_set (Var b p put n d) v c = (case p v of Inl err \<Rightarrow> Inl err | Inr x \<Rightarrow> Inr (put x c))"
  "fl_name (FuncFlag f n) = n" "fl_bool (FuncFlag f n) = False" "fl_init (FuncFlag f n) = id" "fl_set (FuncFlag f n) v c = Inr (f v c)"
  by (simp_all add: Var_def FuncFlag_def)

lemma flags_distinct: "distinct (map fl_name (apiFlagSet env P))" "distinct (map fl_name (ingesterFlagSet env P))"
  by (simp_all add: flag_lists)

definition default_settings :: "environment \<Rightarrow> settings" where
  "default_settings env =
     \<lparr>st_config = DefaultConfig
        \<lparr>cfg_Insert := \<lparr>ins_BatchSize = 10, ins_BufferSize = 100, ins_FlushInterval = 5 * second,
           ins_GracePeriod = 5 * second, ins_Timeout = second\<rparr>,
         cfg_Database := \<lparr>db_Provider = [],
           db_PostgreSQL = \<lparr>pg_Addr = ''localhost'', pg_Database = env_database env, pg_DialTimeout = 5 * second,
             pg_Password = env_password env, pg_Port = 5432, pg_SSLMode = ''disable'', pg_User = env_user env,
             pg_MaxOpenConns = 0, pg_MaxIdleConns = 0, pg_ConnMaxLifetime = 0, pg_ConnMaxIdleTime = 0\<rparr>,
           db_SQLite = \<lparr>sl_DatabasePath = ''prom-analytics-proxy.db''\<rparr>\<rparr>\<rparr>,
      st_configFile = [], st_logLevel = ''INFO'', st_logFormat = ''text''\<rparr>"

lemma registered: "registered env P = default_settings env"
  by (simp add: registered_def default_settings_def register_def flag_lists DefaultConfig_def DefaultIngesterConfig_def
      DefaultOtlpIngesterConfig_def)

lemma default_facts [simp]:
  "cfg_Tracing (st_config (default_settings env)) = None" "st_configFile (default_settings env) = []"
  "ml_Enabled (cfg_MemoryLimit (st_config (default_settings env))) = False"
  by (simp_all add: default_settings_def DefaultConfig_def)

lemma NewLogger_config [simp]: "NewLogger (st_config_update f s) = NewLogger s"
  by (simp add: NewLogger_def split: sum.split)

lemma same_config [simp]: "s\<lparr>st_config := st_config s\<rparr> = s"
  by simp

lemma default_log: "NewLogger (default_settings env) = Inr (0, ''text'')"
  by (simp add: default_settings_def NewLogger_def parseLogLevel_def Let_def upper_char_def wrap64_def)

lemma main_StartedD:
  assumes "main env P readFile unmarshal tracer args = Started cmd s limit lines"
  obtains rest s1 left where "choose_command args = Inr (cmd, rest)"
    "parse_flags (flags_of env P cmd) rest (registered env P) = Parsed s1 left"
    "st_configFile s = st_configFile s1" "st_configFile s1 = [] \<Longrightarrow> s = s1"
proof (cases "choose_command args")
  case (Inr a)
  obtain c rest where a: "a = (c, rest)" by fastforce
  show ?thesis
  proof (cases "parse_flags (flags_of env P c) rest (registered env P)")
    case (Parsed s1 left)
    define loaded where "loaded = (if st_configFile s1 \<noteq> [] then LoadConfig (readFile (st_configFile s1)) unmarshal (st_config s1)
      else (None, st_config s1))"
    obtain err cfg where l: "loaded = (err, cfg)" by fastforce
    have "c = cmd" "s = s1\<lparr>st_config := cfg\<rparr>"
      using assms Inr a Parsed l
      by (auto simp: main_def loaded_def [symmetric] split: sum.splits option.splits if_splits)
    moreover have "st_configFile s1 = [] \<Longrightarrow> cfg = st_config s1" using l by (simp add: loaded_def)
    ultimately show ?thesis using that [of rest s1 left] Inr a Parsed by auto
  qed (use assms Inr a in \<open>simp add: main_def\<close>)
qed (use assms in \<open>simp add: main_def\<close>)

section \<open>Properties\<close>

text \<open>
  The flags of each command have distinct names, so no registration panics, and registering
  both sets changes the configuration only where a flag brings a default of its own: the
  insertion of queries, the connection to PostgreSQL and the path of the SQLite file. Started
  without arguments the program runs the API with these settings, logs nothing of them at its
  level, and sets no memory limit.
\<close>

lemma start_without_arguments:
  "distinct (map fl_name (apiFlagSet env P)) \<and> distinct (map fl_name (ingesterFlagSet env P))
   \<and> main env P readFile unmarshal tracer [] = Started ''api'' (default_settings env) None []"
  using flags_distinct
  by (simp add: main_def choose_command_def registered default_log IsTracingEnabled_def configureGoMemLimit_def)

text \<open>
  C36. The first argument that is not a flag ends the command line: it and everything behind it,
  flags included, is ignored without an error. So a flag of type bool with its value as a separate
  argument is read as true: \<open>-retention-enabled false\<close> switches the deletion of old queries on.
\<close>

theorem argument_ends_flags:
  assumes "main env P readFile unmarshal tracer xs = Started cmd s limit lines" "xs \<noteq> []"
    and "flag_text w = None" "w \<noteq> ''help''"
  shows "main env P readFile unmarshal tracer (xs @ w # ys) = Started cmd s limit lines"
proof -
  obtain rest s1 left where r: "choose_command xs = Inr (cmd, rest)"
    and p: "parse_flags (flags_of env P cmd) rest (registered env P) = Parsed s1 left"
    using assms(1) by (rule main_StartedD)
  have "w \<notin> help_args" using assms(3,4) by (auto simp: help_args_def flag_text_def)
  then have r': "choose_command (xs @ w # ys) = Inr (cmd, rest @ w # ys)"
    using r assms(2) by (cases xs; cases "tl xs") (auto simp: choose_command_def split: if_splits)
  from parse_flags_stops [OF assms(3) p] obtain left' where
    "parse_flags (flags_of env P cmd) (rest @ w # ys) (registered env P) = Parsed s1 left'" by blast
  with r r' p show ?thesis using assms(1) by (simp add: main_def)
qed

text \<open>An environment and parsers of numbers for the examples, which pass no number.\<close>

definition no_numbers :: number_parsers where
  "no_numbers = \<lparr>np_int = (\<lambda>_. Inl ''''), np_uint64 = (\<lambda>_. Inl ''''), np_float64 = (\<lambda>_. Inl ''''), np_duration = (\<lambda>_. Inl '''')\<rparr>"

abbreviation run_main :: "string list \<Rightarrow> outcome" where
  "run_main \<equiv> main \<lparr>env_user = ''u'', env_password = ''p'', env_database = ''d''\<rparr> no_numbers (\<lambda>_. Inl ''no file'')
     (\<lambda>_ c. (None, c)) (\<lambda>_. None)"

lemma retention_enabled:
  "\<exists>s. run_main [''-retention-enabled''] = Started ''api'' s None [] \<and> ret_Enabled (cfg_Retention (st_config s))
     \<and> db_Provider (cfg_Database (st_config s)) = []"
proof -
  let ?s = "in_retention (ret_Enabled_update (\<lambda>_. True)) (default_settings \<lparr>env_user = ''u'', env_password = ''p'', env_database = ''d''\<rparr>)"
  have "run_main [''-retention-enabled''] = Started ''api'' ?s None []"
    by (simp add: main_def choose_command_def help_args_def HasPrefix_def registered flags_of_def flag_lists parseOne_def flag_text_def set_flag_def
        ParseBool_def default_log IsTracingEnabled_def configureGoMemLimit_def)
  then show ?thesis by (simp add: default_settings_def)
qed

theorem argument_ends_flags_witness:
  "\<exists>s. run_main [''-retention-enabled'', ''false'', ''-database-provider'', ''sqlite''] = Started ''api'' s None []
     \<and> ret_Enabled (cfg_Retention (st_config s)) \<and> db_Provider (cfg_Database (st_config s)) = []"
proof -
  obtain s where s: "run_main [''-retention-enabled''] = Started ''api'' s None []" "ret_Enabled (cfg_Retention (st_config s))"
    "db_Provider (cfg_Database (st_config s)) = []"
    using retention_enabled by blast
  have "flag_text ''false'' = None" by (simp add: flag_text_def)
  from argument_ends_flags [OF s(1) _ this, of "[''-database-provider'', ''sqlite'']"] s show ?thesis by simp
qed


lemma denied_settings:
  "\<exists>s. run_main [''ingester'', ''-ingester-denied-jobs'', ''batch,api''] = Started ''ingester'' s None []
     \<and> st_configFile s = [] \<and> (\<exists>oi. NewOtlpIngester None None (Some (st_config s)) True = Inr (oi, None))"
proof -
  let ?s = "in_ingester (ing_DeniedJobs_update (\<lambda>_. comma_list ''batch,api''))
    (default_settings \<lparr>env_user = ''u'', env_password = ''p'', env_database = ''d''\<rparr>)"
  have "run_main [''ingester'', ''-ingester-denied-jobs'', ''batch,api''] = Started ''ingester'' ?s None []"
    by (simp add: main_def choose_command_def help_args_def registered flags_of_def flag_lists parseOne_def flag_text_def set_flag_def
        default_log IsTracingEnabled_def configureGoMemLimit_def)
  moreover have "\<exists>oi. NewOtlpIngester None None (Some (st_config ?s)) True = Inr (oi, None)"
    by (simp add: NewOtlpIngester_def default_settings_def new_catalog_def new_seen_cache_def DefaultConfig_def DefaultIngesterConfig_def
        DefaultRedisCacheConfig_def Let_def)
  ultimately show ?thesis by (intro exI [of _ ?s]) simp
qed


end
