(* ===== verification/Otlp_Server.thy ===== *)
theory Otlp_Server
  imports Otlp_Downstream
begin

text \<open>
  The life of the OTLP ingester's server, \<open>Run\<close> of \<open>internal/ingester/otlp/ingester.go\<close>: start, the
  calls it accepts, the goroutine that flushes the catalog buffer, and the shutdown: health is
  withdrawn, the listener closed, the calls are waited for up to a timeout, the buffer is flushed
  a last time and exporter and caches are closed. Calls, flusher and \<open>Run\<close> itself interleave, so
  the system is a step relation; the network, the database and the seen cache may fail at will.
\<close>

section \<open>State\<close>

text \<open>A flush of the catalog buffer: nothing, the write of drained items, the marking of their names.\<close>

datatype flush = Idle | Writing "MetricCatalogItem list" | Marking "string list"

fun flush_items :: "flush \<Rightarrow> MetricCatalogItem list list" where
  "flush_items (Writing items) = [items]" | "flush_items _ = []"

fun flush_marks :: "flush \<Rightarrow> string list list" where
  "flush_marks (Marking names) = [names]" | "flush_marks _ = []"

datatype phase = NotStarted | Serving | Draining | Stopping | Flushing | Final flush | Closing | Returned "go_error option"

text \<open>
  A call in flight has arrived, has asked the seen cache about its catalog candidates, or is past
  the buffer. The fields after \<open>s_offered\<close> are observations that no step reads.
\<close>

record 'r server =
  s_phase :: phase
  s_health :: bool
  s_listening :: bool
  s_arrived :: nat
  s_asked :: "(metric list \<times> (string, bool) go_map) list"
  s_late :: nat
  s_timedOut :: bool
  s_exporter :: bool \<comment> \<open>open connections: exporter, metric cache, seen cache\<close>
  s_metricCache :: bool
  s_seenCache :: bool
  s_flusher :: "flush option" \<comment> \<open>\<open>None\<close>: not running\<close>
  s_buf :: "catalogBuffer option"
  s_tables :: tables
  s_cache :: 'r
  s_offered :: "string set"
  s_accepted :: nat
  s_answered :: nat
  s_finalFailed :: bool
  s_background :: "string set" \<comment> \<open>names the flusher was writing when the last flush drained the buffer\<close>

definition calls_in_flight :: "'r server \<Rightarrow> nat" where
  "calls_in_flight st = s_arrived st + length (s_asked st) + s_late st"

text \<open>\<open>health\<close> is the status a new health server of the gRPC library reports.\<close>

definition new_server :: "bool \<Rightarrow> OtlpIngester \<Rightarrow> catalogBuffer option \<Rightarrow> tables \<Rightarrow> 'r \<Rightarrow> 'r server" where
  "new_server health oi b t r =
     \<lparr>s_phase = NotStarted, s_health = health, s_listening = False, s_arrived = 0, s_asked = [], s_late = 0, s_timedOut = False,
      s_exporter = False, s_metricCache = oi_metricCache oi \<noteq> None, s_seenCache = oi_seenCache oi \<noteq> None,
      s_flusher = None, s_buf = b, s_tables = t, s_cache = r, s_offered = {}, s_accepted = 0, s_answered = 0,
      s_finalFailed = False, s_background = {}\<rparr>"

text \<open>The part of \<open>Run\<close> before its \<open>select\<close>: the listener, the exporter, the two goroutines.\<close>

definition Run_start :: "go_error option \<Rightarrow> go_error + bool \<Rightarrow> 'r server \<Rightarrow> 'r server" where
  "Run_start listenErr initExporter st =
     (case listenErr of
        Some err \<Rightarrow> st\<lparr>s_phase := Returned (Some err)\<rparr>
      | None \<Rightarrow>
          (case initExporter of
             Inl err \<Rightarrow> st\<lparr>s_phase := Returned (Some err)\<rparr>
           | Inr present \<Rightarrow>
               st\<lparr>s_phase := Serving, s_listening := True, s_exporter := present, s_health := True,
                  s_flusher := (if s_buf st \<noteq> None then Some Idle else None)\<rparr>))"

definition IsReady :: "'r server \<Rightarrow> bool" where
  "IsReady st = s_health st"

definition shutdown_timeout :: "ProxyConfig \<Rightarrow> duration" where
  "shutdown_timeout cfg =
     (let timeout = ing_GracefulShutdownTimeout (cfg_Ingester cfg)
      in if timeout \<le> 0 then defaultGracefulShutdownTimeout else timeout)"

section \<open>Steps\<close>

definition running :: "'r server \<Rightarrow> bool" where
  "running st \<longleftrightarrow> (case s_phase st of NotStarted \<Rightarrow> False | Returned _ \<Rightarrow> False | _ \<Rightarrow> True)"

definition final_flush :: "'r server \<Rightarrow> flush" where
  "final_flush st = (case s_phase st of Final f \<Rightarrow> f | _ \<Rightarrow> Idle)"

definition flusher_flush :: "'r server \<Rightarrow> flush" where
  "flusher_flush st = (case s_flusher st of None \<Rightarrow> Idle | Some f \<Rightarrow> f)"

definition after_write :: "catalogBuffer \<Rightarrow> MetricCatalogItem list \<Rightarrow> flush" where
  "after_write b items = (if cb_hasSeenCache b then Marking (map ci_Name items) else Idle)"

text \<open>
  Calls come in as long as a connection lives, which is until the graceful stop is complete. The
  flusher leaves its loop at some moment after the signal, not before it finishes a flush. The
  sleep of the drain delay and the waiting for the timeout take any time.
\<close>

inductive server_step ::
  "('r \<Rightarrow> string list \<Rightarrow> (string, bool) go_map \<times> 'r) \<Rightarrow> ('r \<Rightarrow> string list \<Rightarrow> duration \<Rightarrow> go_error option \<times> 'r)
   \<Rightarrow> 'r server \<Rightarrow> 'r server \<Rightarrow> bool" for has mark where
  accept:
    "s_phase st \<in> {Serving, Draining, Stopping} \<Longrightarrow>
     server_step has mark st (st\<lparr>s_arrived := Suc (s_arrived st), s_accepted := Suc (s_accepted st)\<rparr>)"
| ask:
    "running st \<Longrightarrow> s_arrived st = Suc n \<Longrightarrow> s_buf st = Some b \<Longrightarrow> cb_hasSeenCache b \<Longrightarrow>
     has (s_cache st) (prometheusCatalogNames ms) = (seen, c') \<Longrightarrow>
     server_step has mark st (st\<lparr>s_arrived := n, s_asked := (ms, seen) # s_asked st, s_cache := c'\<rparr>)"
| no_ask:
    "running st \<Longrightarrow> s_arrived st = Suc n \<Longrightarrow> s_buf st = Some b \<Longrightarrow>
     server_step has mark st (st\<lparr>s_arrived := n, s_asked := (ms, []) # s_asked st\<rparr>)"
| offer:
    "running st \<Longrightarrow> (ms, seen) \<in> set (s_asked st) \<Longrightarrow> s_buf st = Some b \<Longrightarrow>
     server_step has mark st (st\<lparr>s_buf := Some (addBatch ms seen b), s_asked := remove1 (ms, seen) (s_asked st),
        s_late := Suc (s_late st), s_offered := s_offered st \<union> set (prometheusCatalogNames ms)\<rparr>)"
| answer_early:
    "running st \<Longrightarrow> s_arrived st = Suc n \<Longrightarrow>
     server_step has mark st (st\<lparr>s_arrived := n, s_answered := Suc (s_answered st)\<rparr>)"
| answer:
    "running st \<Longrightarrow> s_late st = Suc n \<Longrightarrow>
     server_step has mark st (st\<lparr>s_late := n, s_answered := Suc (s_answered st)\<rparr>)"
| tick:
    "running st \<Longrightarrow> s_flusher st = Some Idle \<Longrightarrow> s_buf st = Some b \<Longrightarrow> drain b = (items, b') \<Longrightarrow> items \<noteq> [] \<Longrightarrow>
     server_step has mark st (st\<lparr>s_flusher := Some (Writing items), s_buf := Some b'\<rparr>)"
| flush_written:
    "running st \<Longrightarrow> s_flusher st = Some (Writing items) \<Longrightarrow> s_buf st = Some b \<Longrightarrow>
     UpsertMetricsCatalog fl now (s_tables st) items = (None, t') \<Longrightarrow>
     server_step has mark st (st\<lparr>s_flusher := Some (after_write b items), s_buf := Some (markFlushed items now b), s_tables := t'\<rparr>)"
| flush_failed:
    "running st \<Longrightarrow> s_flusher st = Some (Writing items) \<Longrightarrow> s_buf st = Some b \<Longrightarrow>
     UpsertMetricsCatalog fl now (s_tables st) items = (Some err, t') \<Longrightarrow>
     server_step has mark st (st\<lparr>s_flusher := Some Idle, s_buf := Some (requeue items b), s_tables := t'\<rparr>)"
| flush_marked:
    "running st \<Longrightarrow> s_flusher st = Some (Marking names) \<Longrightarrow> s_buf st = Some b \<Longrightarrow> cb_hasSeenCache b \<Longrightarrow>
     server_step has mark st (st\<lparr>s_flusher := Some Idle, s_cache := snd (mark (s_cache st) names (cb_seenTTL b))\<rparr>)"
| flusher_ends:
    "running st \<Longrightarrow> s_phase st \<noteq> Serving \<Longrightarrow> s_flusher st = Some Idle \<Longrightarrow>
     server_step has mark st (st\<lparr>s_flusher := None\<rparr>)"
| signal:
    "s_phase st = Serving \<Longrightarrow> server_step has mark st (st\<lparr>s_phase := Draining, s_health := False\<rparr>)"
| close_listener:
    "s_phase st = Draining \<Longrightarrow> server_step has mark st (st\<lparr>s_phase := Stopping, s_listening := False\<rparr>)"
| stopped:
    "s_phase st = Stopping \<Longrightarrow> calls_in_flight st = 0 \<Longrightarrow> server_step has mark st (st\<lparr>s_phase := Flushing\<rparr>)"
| stop_timeout:
    "s_phase st = Stopping \<Longrightarrow> server_step has mark st (st\<lparr>s_phase := Flushing, s_timedOut := True\<rparr>)"
| final_take:
    "s_phase st = Flushing \<Longrightarrow> s_buf st = Some b \<Longrightarrow> drain b = (items, b') \<Longrightarrow> items \<noteq> [] \<Longrightarrow>
     server_step has mark st (st\<lparr>s_phase := Final (Writing items), s_buf := Some b',
        s_background := inflight_names (flush_items (flusher_flush st))\<rparr>)"
| final_empty:
    "s_phase st = Flushing \<Longrightarrow> (case s_buf st of None \<Rightarrow> True | Some b \<Rightarrow> fst (drain b) = []) \<Longrightarrow>
     server_step has mark st (st\<lparr>s_phase := Closing,
        s_background := inflight_names (flush_items (flusher_flush st))\<rparr>)"
| final_written:
    "s_phase st = Final (Writing items) \<Longrightarrow> s_buf st = Some b \<Longrightarrow>
     UpsertMetricsCatalog fl now (s_tables st) items = (None, t') \<Longrightarrow>
     server_step has mark st (st\<lparr>s_phase := (if cb_hasSeenCache b then Final (Marking (map ci_Name items)) else Closing),
        s_buf := Some (markFlushed items now b), s_tables := t'\<rparr>)"
| final_failed:
    "s_phase st = Final (Writing items) \<Longrightarrow> s_buf st = Some b \<Longrightarrow>
     UpsertMetricsCatalog fl now (s_tables st) items = (Some err, t') \<Longrightarrow>
     server_step has mark st (st\<lparr>s_phase := Closing, s_buf := Some (requeue items b), s_tables := t', s_finalFailed := True\<rparr>)"
| final_marked:
    "s_phase st = Final (Marking names) \<Longrightarrow> s_buf st = Some b \<Longrightarrow> cb_hasSeenCache b \<Longrightarrow>
     server_step has mark st (st\<lparr>s_phase := Closing, s_cache := snd (mark (s_cache st) names (cb_seenTTL b))\<rparr>)"
| close:
    "s_phase st = Closing \<Longrightarrow>
     server_step has mark st (st\<lparr>s_exporter := False, s_metricCache := False,
        s_seenCache := (if s_buf st = None then s_seenCache st else False),
        s_phase := Returned (if s_timedOut st then Some ''context canceled'' else None)\<rparr>)"
| serve_failed:
    "s_phase st = Serving \<Longrightarrow>
     server_step has mark st (st\<lparr>s_phase := Returned (if lis_closed then None else Some err)\<rparr>)"

section \<open>The catalog buffer keeps its account\<close>

text \<open>Buffer, flusher and last flush of a server as the system of \<open>Catalog_Buffer\<close>.\<close>

definition catalog_of :: "'r server \<Rightarrow> catalogBuffer \<Rightarrow> 'r catalog_sys" where
  "catalog_of st b =
     \<lparr>y_buf = b, y_handlers = s_asked st, y_inflight = flush_items (final_flush st) @ flush_items (flusher_flush st),
      y_tomark = flush_marks (final_flush st) @ flush_marks (flusher_flush st), y_tables = s_tables st,
      y_cache = s_cache st, y_offered = s_offered st\<rparr>"

text \<open>The same work, listed in another order or with marks left out.\<close>

definition same_work :: "'r catalog_sys \<Rightarrow> 'r catalog_sys \<Rightarrow> bool" where
  "same_work y z \<longleftrightarrow> z = y\<lparr>y_inflight := y_inflight z, y_tomark := y_tomark z\<rparr>
     \<and> set (y_inflight z) = set (y_inflight y) \<and> set (y_tomark z) \<subseteq> set (y_tomark y)"

lemma same_work_inv: "same_work y z \<Longrightarrow> sys_inv good y \<Longrightarrow> sys_inv good z"
proof -
  assume w: "same_work y z" and y: "sys_inv good y"
  obtain xs ms where z: "z = y\<lparr>y_inflight := xs, y_tomark := ms\<rparr>" using w by (auto simp: same_work_def)
  have "set xs = set (y_inflight y)" "set ms \<subseteq> set (y_tomark y)" using w by (auto simp: same_work_def z)
  moreover from this have "inflight_names xs = inflight_names (y_inflight y)" by (simp add: inflight_names_def)
  ultimately show "sys_inv good z" using y by (auto simp: sys_inv_def accounted_def z)
qed

lemma same_workI [intro]:
  "set (y_inflight z) = set (y_inflight y) \<Longrightarrow> set (y_tomark z) \<subseteq> set (y_tomark y) \<Longrightarrow>
   z = y\<lparr>y_inflight := y_inflight z, y_tomark := y_tomark z\<rparr> \<Longrightarrow> same_work y z"
  by (simp add: same_work_def)

lemma running_not_final [simp]:
  "s_phase st \<in> {Serving, Draining, Stopping, Flushing, Closing} \<Longrightarrow> final_flush st = Idle"
  by (auto simp: final_flush_def)

lemmas flush_defs = catalog_of_def final_flush_def flusher_flush_def after_write_def

lemma remove1_flush [simp]:
  "set (remove1 items (flush_items f @ [items])) = set (flush_items f)"
  "set (remove1 names (flush_marks f @ [names])) = set (flush_marks f)"
  by (cases f; simp)+

text \<open>Every step of the server is a step of the buffer's system, or none.\<close>

lemma server_step_buffer:
  assumes "server_step has mark st st'"
  shows "s_buf st' = None \<longleftrightarrow> s_buf st = None"
  using assms by (auto elim!: server_step.cases)

lemma server_step_catalog:
  assumes "server_step has mark st st'" and b: "s_buf st = Some b"
  shows "\<exists>b' y. s_buf st' = Some b' \<and> (buf_step has mark)\<^sup>=\<^sup>= (catalog_of st b) y \<and> same_work y (catalog_of st' b')"
proof -
  let ?y = "catalog_of st b"
  have still: ?thesis if "s_buf st' = Some b" "same_work ?y (catalog_of st' b)"
    using that by (intro exI [of _ b] exI [of _ ?y]) simp
  have move: ?thesis if "buf_step has mark ?y y" "s_buf st' = Some b'" "same_work y (catalog_of st' b')" for b' y
    using that by blast
  from assms(1) show ?thesis
  proof cases
    case (ask n b1 ms seen c')
    then show ?thesis using b
      by (intro move [OF buf_step.ask_cache [of ?y has ms seen c' mark]]) (auto simp: same_work_def flush_defs)
  next
    case (no_ask n b1 ms)
    then show ?thesis using b
      by (intro move [OF buf_step.no_cache [of has mark ?y ms]]) (auto simp: same_work_def flush_defs)
  next
    case (offer ms seen b1)
    then show ?thesis using b
      by (intro move [OF buf_step.add [of ms seen ?y has mark]]) (auto simp: same_work_def flush_defs)
  next
    case (tick b1 items b')
    then show ?thesis using b
      by (intro move [OF buf_step.take [of ?y items b' has mark]]) (auto simp: same_work_def flush_defs)
  next
    case (flush_written items b1 fl now t')
    then show ?thesis using b
      by (intro move [OF buf_step.written [of items ?y fl now t' has mark]]) (auto simp: same_work_def flush_defs split: phase.splits)
  next
    case (flush_failed items b1 fl now err t')
    then show ?thesis using b
      by (intro move [OF buf_step.failed [of items ?y fl now err t' has mark]]) (auto simp: same_work_def flush_defs split: phase.splits)
  next
    case (flush_marked names b1)
    then show ?thesis using b
      by (intro move [OF buf_step.mark_seen [of names ?y has mark]]) (auto simp: same_work_def flush_defs split: phase.splits)
  next
    case (final_take b1 items b')
    then show ?thesis using b
      by (intro move [OF buf_step.take [of ?y items b' has mark]]) (auto simp: same_work_def flush_defs)
  next
    case (final_written items b1 fl now t')
    then show ?thesis using b
      by (intro move [OF buf_step.written [of items ?y fl now t' has mark]]) (auto simp: same_work_def flush_defs)
  next
    case (final_failed items b1 fl now err t')
    then show ?thesis using b
      by (intro move [OF buf_step.failed [of items ?y fl now err t' has mark]]) (auto simp: same_work_def flush_defs)
  next
    case (final_marked names b1)
    then show ?thesis using b
      by (intro move [OF buf_step.mark_seen [of names ?y has mark]]) (auto simp: same_work_def flush_defs)
  qed (use b in \<open>auto intro!: still simp: same_work_def flush_defs\<close>)
qed

section \<open>The shutdown\<close>

fun after_calls :: "phase \<Rightarrow> bool" where
  "after_calls Flushing = True" | "after_calls (Final f) = True" | "after_calls Closing = True"
| "after_calls (Returned res) = True" | "after_calls _ = False"

fun after_drain :: "phase \<Rightarrow> bool" where
  "after_drain (Final f) = True" | "after_drain Closing = True" | "after_drain (Returned res) = True" | "after_drain _ = False"

definition at_flusher :: "'r server \<Rightarrow> string set" where
  "at_flusher st = inflight_names (flush_items (flusher_flush st))"

text \<open>
  Health is withdrawn for the whole shutdown, so without it and after the calls none is in flight
  unless the timeout struck; after the last flush took the buffer, what is left of it is what the
  flusher was writing then.
\<close>

definition calls_inv :: "'r server \<Rightarrow> bool" where
  "calls_inv st \<longleftrightarrow> s_accepted st = s_answered st + calls_in_flight st
     \<and> (s_health st \<longrightarrow> s_phase st = Serving \<or> (\<exists>res. s_phase st = Returned res))
     \<and> (\<not> s_health st \<longrightarrow> after_calls (s_phase st) \<longrightarrow> \<not> s_listening st \<and> (s_timedOut st \<or> calls_in_flight st = 0))
     \<and> (\<not> s_health st \<longrightarrow> s_phase st = Stopping \<longrightarrow> \<not> s_listening st)
     \<and> (s_phase st = Serving \<longrightarrow> s_health st) \<and> s_phase st \<noteq> NotStarted"

definition closed_inv :: "'r server \<Rightarrow> bool" where
  "closed_inv st \<longleftrightarrow> (s_buf st = None \<longrightarrow> \<not> s_seenCache st) \<and> (\<forall>res. s_phase st = Returned res \<longrightarrow> \<not> s_health st \<longrightarrow>
     \<not> s_exporter st \<and> \<not> s_metricCache st \<and> (s_buf st \<noteq> None \<longrightarrow> \<not> s_seenCache st)
     \<and> res = (if s_timedOut st then Some ''context canceled'' else None))"

definition drained_inv :: "'r server \<Rightarrow> bool" where
  "drained_inv st \<longleftrightarrow> (\<forall>b. s_buf st = Some b \<longrightarrow> \<not> s_health st \<longrightarrow> after_drain (s_phase st) \<longrightarrow>
     \<not> s_timedOut st \<longrightarrow> \<not> s_finalFailed st \<longrightarrow> pending_names b \<union> at_flusher st \<subseteq> s_background st)"

lemma calls_inv_step: "server_step has mark st st' \<Longrightarrow> calls_inv st \<Longrightarrow> calls_inv st'"
  by (induction rule: server_step.induct)
    (auto simp: calls_inv_def calls_in_flight_def running_def length_remove1 split: phase.splits dest: length_pos_if_in_set)

lemma closed_inv_step: "server_step has mark st st' \<Longrightarrow> calls_inv st \<Longrightarrow> closed_inv st \<Longrightarrow> closed_inv st'"
  by (induction rule: server_step.induct)
    (auto simp: closed_inv_def calls_inv_def running_def split: phase.splits if_splits)

lemma drain_empties: "drain b = (items, b') \<Longrightarrow> pending_names b' = {}" "fst (drain b) = [] \<Longrightarrow> pending_names b = {}"
  by (auto simp: drain_def pending_names_def split: if_splits)

lemma requeue_pending: "pending_names (requeue items b) \<subseteq> pending_names b \<union> ci_Name ` set items"
proof -
  have step: "pending_names (requeue_item it b) \<subseteq> insert (ci_Name it) (pending_names b)" for it b
    by (auto simp: requeue_item_def add_item_def pending_names_def dom_update)
  have "pending_names (fold requeue_item items b) \<subseteq> pending_names b \<union> ci_Name ` set items"
  proof (induction items arbitrary: b)
    case (Cons it items)
    from Cons.IH [of "requeue_item it b"] step [of it b] show ?case by auto
  qed simp
  then show ?thesis by (auto simp: requeue_def set_size_def pending_names_def)
qed

lemma markFlushed_pending [simp]: "pending_names (markFlushed items now b) = pending_names b"
  by (simp add: markFlushed_def pending_names_def split: option.split)

lemma drained_inv_step:
  assumes "server_step has mark st st'" "calls_inv st" "drained_inv st" "\<And>b. s_buf st = Some b \<Longrightarrow> buf_wf b"
  shows "drained_inv st'"
  using assms(1)
proof cases
  case (offer ms seen b)
  have "s_timedOut st" if "\<not> s_health st" "after_drain (s_phase st)"
  proof -
    have "after_calls (s_phase st)" using that(2) by (cases "s_phase st") auto
    moreover have "calls_in_flight st \<noteq> 0" using offer by (auto simp: calls_in_flight_def)
    ultimately show ?thesis using assms(2) that(1) by (auto simp: calls_inv_def)
  qed
  with offer show ?thesis by (auto simp: drained_inv_def)
next
  case (tick b items b')
  then have "pending_names b' \<union> ci_Name ` set items \<subseteq> pending_names b"
    using drain_names [OF assms(4)] by blast
  with tick assms(3) show ?thesis by (simp add: drained_inv_def at_flusher_def flusher_flush_def) blast
next
  case (flush_written items b fl now t')
  with assms(3) show ?thesis by (auto simp: drained_inv_def at_flusher_def flusher_flush_def after_write_def)
next
  case (flush_failed items b fl now err t')
  with assms(3) requeue_pending [of items b] show ?thesis
    by (simp add: drained_inv_def at_flusher_def flusher_flush_def) blast
next
  case (final_take b items b')
  with drain_empties(1) [of b items b'] show ?thesis by (auto simp: drained_inv_def at_flusher_def flusher_flush_def)
next
  case final_empty
  with drain_empties(2) show ?thesis by (auto simp: drained_inv_def at_flusher_def flusher_flush_def)
qed (use assms(2,3) in \<open>auto simp: drained_inv_def at_flusher_def flusher_flush_def calls_inv_def\<close>)

text \<open>A last flush has a buffer, and marks names only if there is a seen cache.\<close>

definition final_inv :: "'r server \<Rightarrow> bool" where
  "final_inv st \<longleftrightarrow> (\<forall>f. s_phase st = Final f \<longrightarrow> f \<noteq> Idle \<and>
     (\<exists>b. s_buf st = Some b \<and> (\<forall>names. f = Marking names \<longrightarrow> cb_hasSeenCache b)))"

lemma buffer_seen_cache [simp]:
  "cb_hasSeenCache (markFlushed items now b) = cb_hasSeenCache b" "cb_hasSeenCache (requeue items b) = cb_hasSeenCache b"
  "cb_hasSeenCache (addBatch ms seen b) = cb_hasSeenCache b"
proof -
  have "cb_hasSeenCache (fold requeue_item items b) = cb_hasSeenCache b" for b
    by (induction items arbitrary: b) (auto simp: requeue_item_def add_item_def)
  then show "cb_hasSeenCache (requeue items b) = cb_hasSeenCache b" by (simp add: requeue_def set_size_def)
  have "cb_hasSeenCache (fold (add_candidate_item seen) its b) = cb_hasSeenCache b" for its b
    by (induction its arbitrary: b) (auto simp: add_candidate_item_def add_item_def set_size_def Let_def)
  then show "cb_hasSeenCache (addBatch ms seen b) = cb_hasSeenCache b" by (simp add: addBatch_fold)
qed (simp add: markFlushed_def split: option.split)

lemma drain_seen_cache: "drain b = (items, b') \<Longrightarrow> cb_hasSeenCache b' = cb_hasSeenCache b"
  by (auto simp: drain_def split: if_splits)

lemma final_inv_step: "server_step has mark st st' \<Longrightarrow> final_inv st \<Longrightarrow> final_inv st'"
  by (induction rule: server_step.induct) (auto simp: final_inv_def dest: drain_seen_cache)

definition server_inv :: "((string \<Rightarrow> bool) \<Rightarrow> 'r \<Rightarrow> bool) \<Rightarrow> 'r server \<Rightarrow> bool" where
  "server_inv good st \<longleftrightarrow> calls_inv st \<and> closed_inv st \<and> drained_inv st \<and> final_inv st
     \<and> (\<forall>b. s_buf st = Some b \<longrightarrow> sys_inv good (catalog_of st b))"

context seen_cache
begin

lemma server_inv_step:
  assumes "server_step has_many mark_many st st'" "server_inv good st"
  shows "server_inv good st'"
proof -
  have wf: "buf_wf b" if "s_buf st = Some b" for b
    using that assms(2) by (simp add: server_inv_def sys_inv_def catalog_of_def)
  have "sys_inv good (catalog_of st' b')" if b': "s_buf st' = Some b'" for b'
  proof -
    obtain b where b: "s_buf st = Some b" using server_step_buffer [OF assms(1)] b' by (cases "s_buf st") auto
    then obtain y where "(buf_step has_many mark_many)\<^sup>=\<^sup>= (catalog_of st b) y" "same_work y (catalog_of st' b')"
      using server_step_catalog [OF assms(1)] b' by fastforce
    moreover have "sys_inv good (catalog_of st b)" using assms(2) b by (simp add: server_inv_def)
    ultimately show ?thesis by (auto intro: same_work_inv buf_step_inv)
  qed
  with assms show ?thesis
    using calls_inv_step closed_inv_step drained_inv_step [OF assms(1)] final_inv_step wf unfolding server_inv_def by blast
qed

lemma server_reachable:
  assumes "(server_step has_many mark_many)\<^sup>*\<^sup>* (Run_start None (Inr present) (new_server health oi bopt t r)) st"
    and "NewOtlpIngester usageErr seenErr config dbp = Inr (oi, bopt)" "good (\<lambda>n. n \<in> catalog_names t) r"
  shows "server_inv good st"
  using assms(1)
proof (induction rule: rtranclp_induct)
  case base
  have wf: "\<forall>b. bopt = Some b \<longrightarrow> buf_wf b" using NewOtlpIngester_wf [OF assms(2)] by (simp add: ingester_wf_def)
  have "bopt = None \<longrightarrow> oi_seenCache oi = None"
    using assms(2) by (auto simp: NewOtlpIngester_def new_catalog_def new_seen_cache_def Let_def split: option.splits if_splits)
  with wf assms(3) show ?case
    by (auto simp: server_inv_def calls_inv_def closed_inv_def drained_inv_def final_inv_def Run_start_def new_server_def
        calls_in_flight_def sys_inv_def flush_defs)
qed (rule server_inv_step)

end

fun shutdown_rank :: "phase \<Rightarrow> nat" where
  "shutdown_rank Draining = 6" | "shutdown_rank Stopping = 5" | "shutdown_rank Flushing = 4"
| "shutdown_rank (Final (Writing items)) = 3" | "shutdown_rank (Final f) = 2" | "shutdown_rank Closing = 1"
| "shutdown_rank _ = 0"

lemma shutdown_rank_step: "server_step has mark st st' \<Longrightarrow> s_phase st \<noteq> Serving \<Longrightarrow> shutdown_rank (s_phase st') \<le> shutdown_rank (s_phase st)"
  by (induction rule: server_step.induct) auto

lemma shutdown_next:
  assumes "final_inv st" "s_phase st \<notin> {NotStarted, Serving}" "\<nexists>res. s_phase st = Returned res"
  shows "\<exists>st'. server_step has mark st st' \<and> shutdown_rank (s_phase st') < shutdown_rank (s_phase st)"
proof (cases "s_phase st")
  case Draining
  then show ?thesis by - (intro exI conjI, rule server_step.close_listener [of st has mark], auto)
next
  case Stopping
  then show ?thesis by - (intro exI conjI, rule server_step.stop_timeout [of st has mark], auto)
next
  case Flushing
  show ?thesis
  proof (cases "case s_buf st of None \<Rightarrow> True | Some b \<Rightarrow> fst (drain b) = []")
    case True
    with Flushing show ?thesis by - (intro exI conjI, rule server_step.final_empty [of st has mark], auto)
  next
    case False
    then obtain b items b' where "s_buf st = Some b" "drain b = (items, b')" "items \<noteq> []"
      by (cases "s_buf st") (auto, metis prod.collapse)
    with Flushing show ?thesis by - (intro exI conjI, rule server_step.final_take [of st b items b' has mark], auto)
  qed
next
  case (Final f)
  then obtain b where b: "s_buf st = Some b" "f \<noteq> Idle" "\<forall>names. f = Marking names \<longrightarrow> cb_hasSeenCache b"
    using assms(1) by (auto simp: final_inv_def)
  show ?thesis
  proof (cases f)
    case (Writing items)
    obtain t' where "UpsertMetricsCatalog no_faults 0 (s_tables st) items = (None, t')"
      by (cases "items = []") (simp_all add: UpsertMetricsCatalog_def)
    with Final Writing b show ?thesis
      by - (intro exI conjI, rule server_step.final_written [of st items b no_faults 0 t' has mark], auto)
  next
    case (Marking names)
    with Final b show ?thesis by - (intro exI conjI, rule server_step.final_marked [of st names b has mark], auto)
  qed (use b in simp)
next
  case Closing
  then show ?thesis by - (intro exI conjI, rule server_step.close [of st has mark], auto)
qed (use assms in auto)

section \<open>What a shutdown guarantees\<close>

text \<open>
  C31. A graceful shutdown is complete: however calls, flusher and shutdown interleave and whatever
  fails, when \<open>Run\<close> returns after a signal the listener, the exporter and the caches are closed; it
  reports an error exactly if the timeout struck, and if not, every accepted call was answered
  before anything was closed. Every metric name the calls offered is then in the catalog, was
  dropped for lack of room, or is still in the buffer because the last write failed, or because
  the flusher had it in its hands when the last flush emptied the buffer.
\<close>

theorem graceful_shutdown_complete:
  assumes "redis_seen_good exec c I (\<lambda>n. n \<in> catalog_names t) r"
    and "NewOtlpIngester usageErr seenErr config True = Inr (oi, bopt)"
    and "(server_step (HasMany exec c) (MarkMany exec c))\<^sup>*\<^sup>* (Run_start None (Inr present) (new_server health oi bopt t r)) st"
    and "s_phase st = Returned res" "\<not> IsReady st"
  shows "\<not> s_listening st \<and> \<not> s_exporter st \<and> \<not> s_metricCache st \<and> \<not> s_seenCache st
    \<and> (res = None \<longleftrightarrow> \<not> s_timedOut st)
    \<and> (res = None \<longrightarrow> s_answered st = s_accepted st \<and> calls_in_flight st = 0)
    \<and> (\<forall>b. s_buf st = Some b \<longrightarrow>
         s_offered st \<subseteq> catalog_names (s_tables st) \<union> set (cb_dropped b) \<union> pending_names b \<union> at_flusher st
       \<and> (res = None \<and> \<not> s_finalFailed st \<longrightarrow> pending_names b \<union> at_flusher st \<subseteq> s_background st))"
proof -
  have i: "server_inv (redis_seen_good exec c I) st"
    by (rule redis_seen.server_reachable [OF assms(3,2,1)])
  have "s_offered st \<subseteq> catalog_names (s_tables st) \<union> set (cb_dropped b) \<union> pending_names b \<union> at_flusher st" if "s_buf st = Some b" for b
    using i that assms(4)
    by (auto simp: server_inv_def sys_inv_def accounted_def catalog_of_def final_flush_def at_flusher_def)
  with i assms(4,5) show ?thesis
    by (auto simp: server_inv_def calls_inv_def closed_inv_def drained_inv_def IsReady_def)
qed

text \<open>
  C32. The shutdown always ends: in every reachable state after the signal in which \<open>Run\<close> has not
  returned, it has a next step that brings it nearer to its end, with any number of calls still
  in flight, and no step of another goroutine takes it further from it.
\<close>

theorem shutdown_ends:
  assumes "redis_seen_good exec c I (\<lambda>n. n \<in> catalog_names t) r"
    and "NewOtlpIngester usageErr seenErr config True = Inr (oi, bopt)"
    and "(server_step (HasMany exec c) (MarkMany exec c))\<^sup>*\<^sup>* (Run_start None (Inr present) (new_server health oi bopt t r)) st"
    and "s_phase st \<noteq> Serving" "\<nexists>res. s_phase st = Returned res"
  shows "(\<exists>st'. server_step (HasMany exec c) (MarkMany exec c) st st' \<and> shutdown_rank (s_phase st') < shutdown_rank (s_phase st))
    \<and> (\<forall>st'. server_step (HasMany exec c) (MarkMany exec c) st st' \<longrightarrow> shutdown_rank (s_phase st') \<le> shutdown_rank (s_phase st))"
proof -
  have "server_inv (redis_seen_good exec c I) st"
    by (rule redis_seen.server_reachable [OF assms(3,2,1)])
  then have "final_inv st" "s_phase st \<noteq> NotStarted" by (simp_all add: server_inv_def calls_inv_def)
  with shutdown_next [of st] shutdown_rank_step assms(4,5) show ?thesis by blast
qed

section \<open>A name lost in a shutdown\<close>

text \<open>
  \<open>Run\<close> does not wait for the flusher. Here the flusher has taken the only name when the signal
  comes; the last flush finds the buffer empty; then the flusher's write, whose context is
  cancelled, fails and puts the name back into a buffer that nobody empties any more.
\<close>

definition sync_config :: ProxyConfig where
  "sync_config = DefaultConfig\<lparr>cfg_Ingester := DefaultIngesterConfig\<lparr>ing_CatalogSync := \<lparr>cs_Enabled = True,
     cs_FlushInterval = 30 * second, cs_BufferSize = 10000, cs_SeenTTL = hour\<rparr>\<rparr>\<rparr>"

definition sync_ingester :: OtlpIngester where
  "sync_ingester = fst (projr (NewOtlpIngester None None (Some sync_config) True))"

lemma sync_ingester:
  "NewOtlpIngester None None (Some sync_config) True = Inr (sync_ingester, Some (newCatalogBuffer 10000 hour False))"
  by (simp add: NewOtlpIngester_def sync_ingester_def sync_config_def new_catalog_def new_seen_cache_def DefaultConfig_def
      DefaultIngesterConfig_def DefaultRedisCacheConfig_def duration_defs Let_def)

abbreviation kv_step :: "(string \<Rightarrow> int option) server \<Rightarrow> (string \<Rightarrow> int option) server \<Rightarrow> bool" where
  "kv_step \<equiv> server_step (HasMany kv_exec \<lparr>sc_maxBatchSize = 100\<rparr>) (MarkMany kv_exec \<lparr>sc_maxBatchSize = 100\<rparr>)"

definition started_server :: "(string \<Rightarrow> int option) server" where
  "started_server = Run_start None (Inr True) (new_server True sync_ingester (Some (newCatalogBuffer 10000 hour False)) empty_tables Map.empty)"

lemma buffered_up:
  "\<exists>item b. drain (addBatch [gauge_metric] [] (newCatalogBuffer 10000 hour False)) = ([item], b) \<and> ci_Name item = ''up''
     \<and> fst (drain b) = [] \<and> cb_dropped (requeue [item] b) = []"
  by (simp add: addBatch_def prometheusCatalogItems_def prometheusMetricName_def gauge_metric_def Let_def isHistogram_def
      isExponentialHistogram_def isSummary_def add_candidate_item_def add_item_def newCatalogBuffer_def set_size_def drain_def
      requeue_def requeue_item_def)

lemma lossy_shutdown:
  "\<exists>st. kv_step\<^sup>*\<^sup>* started_server st \<and> s_phase st = Returned None \<and> \<not> IsReady st \<and> \<not> s_finalFailed st
     \<and> s_accepted st = 1 \<and> s_offered st = {''up''} \<and> s_tables st = empty_tables \<and> (\<exists>b. s_buf st = Some b \<and> cb_dropped b = [])
     \<and> s_background st = {''up''}"
proof -
  let ?b0 = "newCatalogBuffer 10000 hour False"
  obtain item b where b: "drain (addBatch [gauge_metric] [] ?b0) = ([item], b)" "ci_Name item = ''up''"
    "fst (drain b) = []" "cb_dropped (requeue [item] b) = []"
    using buffered_up by blast
  define fl where "fl = no_faults\<lparr>f_begin := Some ''context canceled''\<rparr>"
  define s1 where "s1 = started_server\<lparr>s_arrived := 1, s_accepted := 1\<rparr>"
  define s2 where "s2 = s1\<lparr>s_arrived := 0, s_asked := [([gauge_metric], [])]\<rparr>"
  define s3 where "s3 = s2\<lparr>s_buf := Some (addBatch [gauge_metric] [] ?b0), s_asked := [], s_late := 1, s_offered := {''up''}\<rparr>"
  define s4 where "s4 = s3\<lparr>s_flusher := Some (Writing [item]), s_buf := Some b\<rparr>"
  define s5 where "s5 = s4\<lparr>s_late := 0, s_answered := 1\<rparr>"
  define s6 where "s6 = s5\<lparr>s_phase := Draining, s_health := False\<rparr>"
  define s7 where "s7 = s6\<lparr>s_phase := Stopping, s_listening := False\<rparr>"
  define s8 where "s8 = s7\<lparr>s_phase := Flushing\<rparr>"
  define s9 where "s9 = s8\<lparr>s_phase := Closing, s_background := {''up''}\<rparr>"
  define s10 where "s10 = s9\<lparr>s_flusher := Some Idle, s_buf := Some (requeue [item] b), s_tables := empty_tables\<rparr>"
  define s11 where "s11 = s10\<lparr>s_exporter := False, s_metricCache := False, s_seenCache := False, s_phase := Returned None\<rparr>"
  note defs = s11_def s10_def s9_def s8_def s7_def s6_def s5_def s4_def s3_def s2_def s1_def
    started_server_def Run_start_def new_server_def running_def calls_in_flight_def flusher_flush_def
  have names: "prometheusCatalogNames [gauge_metric] = [''up'']"
    by (simp add: prometheusCatalogNames_def prometheusCatalogItems_def prometheusMetricName_def gauge_metric_def Let_def
        isHistogram_def isExponentialHistogram_def isSummary_def)
  have up: "UpsertMetricsCatalog fl 0 empty_tables [item] = (Some ''begin tx: context canceled'', empty_tables)"
    by (simp add: UpsertMetricsCatalog_def run_tx_def fl_def no_faults_def)
  have "kv_step started_server s1" using server_step.accept [of started_server] by (simp add: defs)
  moreover have "kv_step s1 s2" using server_step.no_ask [of s1 0 ?b0 _ _ "[gauge_metric]"] by (simp add: defs)
  moreover have "kv_step s2 s3" using server_step.offer [of s2 "[gauge_metric]" "[]" ?b0] by (simp add: defs names)
  moreover have "kv_step s3 s4" using server_step.tick [of s3 _ _ b] b by (simp add: defs)
  moreover have "kv_step s4 s5" using server_step.answer [of s4 0] by (simp add: defs)
  moreover have "kv_step s5 s6" using server_step.signal [of s5] by (simp add: defs)
  moreover have "kv_step s6 s7" using server_step.close_listener [of s6] by (simp add: defs)
  moreover have "kv_step s7 s8" using server_step.stopped [of s7] by (simp add: defs)
  moreover have "kv_step s8 s9" using server_step.final_empty [of s8] b by (simp add: defs)
  moreover have "kv_step s9 s10" using server_step.flush_failed [of s9 "[item]" b fl 0 _ empty_tables] up by (simp add: defs)
  moreover have "kv_step s10 s11" using server_step.close [of s10] by (simp add: defs)
  ultimately have "kv_step\<^sup>*\<^sup>* started_server s11" by (meson converse_rtranclp_into_rtranclp rtranclp.rtrancl_refl)
  then show ?thesis using b by (intro exI [of _ s11]) (simp add: defs IsReady_def)
qed

lemma kv_seen_good:
  "redis_seen_good kv_exec \<lparr>sc_maxBatchSize = 100\<rparr> (\<lambda>Q m. \<forall>k. m k \<noteq> None \<longrightarrow> Q k) (\<lambda>n. n \<in> catalog_names empty_tables) Map.empty"
  using kv_exists by (simp add: redis_seen_good_def)

theorem graceful_shutdown_complete_witness:
  "\<exists>st. kv_step\<^sup>*\<^sup>* started_server st \<and> s_phase st = Returned None \<and> s_answered st = 1 \<and> \<not> s_finalFailed st
     \<and> s_offered st = {''up''} \<and> ''up'' \<notin> catalog_names (s_tables st) \<and> s_background st = {''up''}
     \<and> (\<forall>b. s_buf st = Some b \<longrightarrow> ''up'' \<notin> set (cb_dropped b))"
proof -
  obtain st b where st: "kv_step\<^sup>*\<^sup>* started_server st" "s_phase st = Returned None" "\<not> IsReady st" "\<not> s_finalFailed st"
    "s_accepted st = 1" "s_offered st = {''up''}" "s_tables st = empty_tables" "s_buf st = Some b" "cb_dropped b = []"
    "s_background st = {''up''}"
    using lossy_shutdown by (elim exE conjE) (rule that)
  have "s_answered st = s_accepted st"
    using graceful_shutdown_complete [OF kv_seen_good sync_ingester st(1) [unfolded started_server_def] st(2,3)] by blast
  moreover have "catalog_names (s_tables st) = {}" by (simp add: st(7) catalog_names_def empty_tables_def)
  ultimately show ?thesis using st(1,2,4,5,6,8,9,10) by (intro exI [of _ st] conjI) simp_all
qed

theorem shutdown_ends_witness:
  "\<exists>st'. kv_step (started_server\<lparr>s_phase := Draining, s_health := False\<rparr>) st' \<and> shutdown_rank (s_phase st') < 6"
proof -
  have "kv_step started_server (started_server\<lparr>s_phase := Draining, s_health := False\<rparr>)"
    by (rule server_step.signal) (simp add: started_server_def Run_start_def)
  from shutdown_ends [OF kv_seen_good sync_ingester r_into_rtranclp [where r = kv_step, OF this, unfolded started_server_def]]
  show ?thesis by (simp add: started_server_def)
qed

end
