(* ===== verification/Commands.thy ===== *)
theory Commands
  imports Db_Open Mux Startup Otlp_Server Inventory Retention
begin

text \<open>
  The two commands (\<open>cmd/api/run.go\<close>, \<open>cmd/ingester/run.go\<close>): how each builds its parts from the
  configuration and which goroutines it starts. The libraries for URLs, sockets and the database
  are arguments; what the parts do is in their own theories.
\<close>

section \<open>The API\<close>

text \<open>The members of the run group; the number is the key of the advisory lock a worker waits for.\<close>

datatype actor =
    QueryIngesterRun | HttpServer | InventoryRun "int option" | RetentionRun "int option"
  | OtlpRun | MetricsServer | SignalHandler

datatype 'a wiring = Failed go_error | Panicked | Wired 'a

record api_world =
  aw_parse :: "string \<Rightarrow> go_error + target_url"
  aw_sql :: sql_library
  aw_promClient :: "string \<Rightarrow> go_error option"
  aw_listen :: "string \<Rightarrow> go_error option"

record api_app =
  ap_provider :: Provider
  ap_ingester :: QueryIngester
  ap_routes :: "Provider routes_state"
  ap_actors :: "actor list"

definition inventory_key :: int where "inventory_key = 0x6d657472696373"
definition retention_key :: int where "retention_key = 0x726574656e74696f"

definition leader_key :: "string \<Rightarrow> int \<Rightarrow> int option" where
  "leader_key provider key = (if provider = ''postgresql'' then Some key else None)"

definition inventory_actors :: "(string \<Rightarrow> go_error option) \<Rightarrow> ProxyConfig \<Rightarrow> actor list" where
  "inventory_actors client cfg =
     (if inv_Enabled (cfg_Inventory cfg)
      then (case NewSyncer (client (up_URL (cfg_Upstream cfg))) cfg of
              Inl err \<Rightarrow> []
            | Inr syncer \<Rightarrow> [InventoryRun (leader_key (db_Provider (cfg_Database cfg)) inventory_key)])
      else [])"

definition retention_actors :: "ProxyConfig \<Rightarrow> actor list" where
  "retention_actors cfg =
     (if ret_Enabled (cfg_Retention cfg)
      then (case NewWorker (Some cfg) of
              Inl err \<Rightarrow> []
            | Inr w \<Rightarrow> [RetentionRun (leader_key (db_Provider (cfg_Database cfg)) retention_key)])
      else [])"

definition api_Run :: "api_world \<Rightarrow> ProxyConfig \<Rightarrow> api_app wiring" where
  "api_Run w cfg =
     (case aw_parse w (up_URL (cfg_Upstream cfg)) of
        Inl err \<Rightarrow> Failed (''parse upstream: '' @ err)
      | Inr upstreamURL \<Rightarrow>
          if tu_Scheme upstreamURL \<noteq> ''http'' \<and> tu_Scheme upstreamURL \<noteq> ''https''
          then Failed (''invalid upstream scheme: '' @ tu_Scheme upstreamURL)
          else
            (case GetDbProvider (aw_sql w) (cfg_Database cfg) of
               Inl err \<Rightarrow> Failed (''create db provider: '' @ error_text err)
             | Inr dbProvider \<Rightarrow>
                 if ins_BufferSize (cfg_Insert cfg) < 0 then Panicked
                 else
                   (let i = cfg_Insert cfg;
                        queryIngester = NewQueryIngester
                          [WithBufferSize (nat (ins_BufferSize i)), WithIngestTimeout (ins_Timeout i),
                           WithShutdownGracePeriod (ins_GracePeriod i), WithBatchSize (nat (ins_BatchSize i)),
                           WithBatchFlushInterval (ins_FlushInterval i)];
                        routesHandler = NewRoutes
                          [WithIncludeQueryStats (up_IncludeQueryStats (cfg_Upstream cfg)), WithProxy upstreamURL,
                           WithPromAPI (aw_promClient w (up_URL (cfg_Upstream cfg))),
                           WithDBProvider dbProvider, WithQueryIngester queryIngester, WithHandlers, WithConfig cfg,
                           WithLimits \<lparr>lc_MetadataLimit = cfg_MetadataLimit cfg, lc_SeriesLimit = cfg_SeriesLimit cfg\<rparr>]
                    in case aw_listen w (srv_InsecureListenAddress (cfg_Server cfg)) of
                         Some err \<Rightarrow> Failed (''listen: '' @ err)
                       | None \<Rightarrow> Wired
                           \<lparr>ap_provider = dbProvider, ap_ingester = queryIngester, ap_routes = routesHandler,
                            ap_actors = [QueryIngesterRun, HttpServer] @ inventory_actors (aw_promClient w) cfg
                              @ retention_actors cfg @ [SignalHandler]\<rparr>)))"

section \<open>The ingester\<close>

record ingester_app =
  ia_provider :: Provider
  ia_otlp :: OtlpIngester
  ia_buffer :: "catalogBuffer option"
  ia_actors :: "actor list"

definition ingester_Run :: "sql_library \<Rightarrow> go_error option \<Rightarrow> go_error option \<Rightarrow> ProxyConfig \<Rightarrow> ingester_app wiring" where
  "ingester_Run sl usageErr seenErr cfg =
     (case GetDbProvider sl (cfg_Database cfg) of
        Inl err \<Rightarrow> Failed (''create db provider: '' @ error_text err)
      | Inr dbProvider \<Rightarrow>
          if ing_Protocol (cfg_Ingester cfg) = ''otlp''
          then (case NewOtlpIngester usageErr seenErr (Some cfg) True of
                  Inl err \<Rightarrow> Failed (''create otlp ingester: '' @ err)
                | Inr (oi, b) \<Rightarrow> Wired \<lparr>ia_provider = dbProvider, ia_otlp = oi, ia_buffer = b,
                                       ia_actors = [OtlpRun, MetricsServer, SignalHandler]\<rparr>)
          else Failed (''unknown protocol: '' @ ing_Protocol (cfg_Ingester cfg)))"

text \<open>The probes: the process is alive, and it is ready while the gRPC health says so.\<close>

definition livez :: "'r server \<Rightarrow> nat" where "livez st = 200"

definition readyz :: "'r server \<Rightarrow> nat" where
  "readyz st = (if IsReady st then 200 else 503)"

section \<open>What is wired\<close>

lemma inventory_actors_facts:
  "inventory_actors client cfg =
     (if inv_Enabled (cfg_Inventory cfg) \<and> client (up_URL (cfg_Upstream cfg)) = None
      then [InventoryRun (leader_key (db_Provider (cfg_Database cfg)) inventory_key)] else [])"
  by (auto simp: inventory_actors_def NewSyncer_def Let_def split: option.split)

lemma retention_actors_facts:
  "retention_actors cfg =
     (let r = cfg_Retention cfg in
      if ret_Enabled r \<and> 0 < ret_Interval r \<and> 0 < ret_RunTimeout r \<and> 0 < ret_QueriesMaxAge r
      then [RetentionRun (leader_key (db_Provider (cfg_Database cfg)) retention_key)] else [])"
  by (auto simp: retention_actors_def NewWorker_def Let_def)

text \<open>
  C39. What the API command builds when it comes up: it forwards to an upstream with scheme http or
  https, on the database the configuration names; the routes have the whole table of handlers, a
  limit of series, the provider and the very query ingester that the group runs, with the sizes
  and times of the configuration. The inventory runs exactly if it is enabled and its client could
  be made, retention exactly if it is enabled and its settings are positive. On PostgreSQL each of
  them waits for a lock of its own, so replicas share the work and one worker never blocks the
  other; on SQLite none waits.
\<close>

theorem api_wiring:
  assumes "api_Run w cfg = Wired app"
  shows "(\<exists>u. aw_parse w (up_URL (cfg_Upstream cfg)) = Inr u \<and> tu_Scheme u \<in> {''http'', ''https''} \<and> rs_proxy (ap_routes app) = Some u)
   \<and> GetDbProvider (aw_sql w) (cfg_Database cfg) = Inr (ap_provider app)
   \<and> db_Provider (cfg_Database cfg) \<in> {''postgresql'', ''sqlite''}
   \<and> rs_mux (ap_routes app) = handlers \<and> rs_seriesLimit (ap_routes app) \<noteq> None
   \<and> rs_dbProvider (ap_routes app) = Some (ap_provider app) \<and> rs_queryIngester (ap_routes app) = Some (ap_ingester app)
   \<and> ap_ingester app = \<lparr>qi_bufferSize = Some (nat (ins_BufferSize (cfg_Insert cfg))), qi_ingestTimeout = ins_Timeout (cfg_Insert cfg),
        qi_shutdownGracePeriod = ins_GracePeriod (cfg_Insert cfg), qi_batchSize = nat (ins_BatchSize (cfg_Insert cfg)),
        qi_batchFlushInterval = ins_FlushInterval (cfg_Insert cfg)\<rparr>
   \<and> {QueryIngesterRun, HttpServer, SignalHandler} \<subseteq> set (ap_actors app)
   \<and> ((\<exists>k. InventoryRun k \<in> set (ap_actors app)) \<longleftrightarrow>
        inv_Enabled (cfg_Inventory cfg) \<and> aw_promClient w (up_URL (cfg_Upstream cfg)) = None)
   \<and> ((\<exists>k. RetentionRun k \<in> set (ap_actors app)) \<longleftrightarrow> ret_Enabled (cfg_Retention cfg) \<and> 0 < ret_Interval (cfg_Retention cfg)
        \<and> 0 < ret_RunTimeout (cfg_Retention cfg) \<and> 0 < ret_QueriesMaxAge (cfg_Retention cfg))
   \<and> (\<forall>j k. InventoryRun j \<in> set (ap_actors app) \<and> RetentionRun k \<in> set (ap_actors app) \<longrightarrow>
        (if db_Provider (cfg_Database cfg) = ''postgresql'' then j \<noteq> None \<and> k \<noteq> None \<and> j \<noteq> k else j = None \<and> k = None))"
proof -
  obtain u p where u: "aw_parse w (up_URL (cfg_Upstream cfg)) = Inr u" "tu_Scheme u \<in> {''http'', ''https''}"
    and p: "GetDbProvider (aw_sql w) (cfg_Database cfg) = Inr p"
    using assms by (auto simp: api_Run_def split: sum.splits if_splits)
  have app: "app = \<lparr>ap_provider = p, ap_ingester = ap_ingester app, ap_routes = ap_routes app,
        ap_actors = [QueryIngesterRun, HttpServer] @ inventory_actors (aw_promClient w) cfg @ retention_actors cfg @ [SignalHandler]\<rparr>"
    and qi: "ap_ingester app = \<lparr>qi_bufferSize = Some (nat (ins_BufferSize (cfg_Insert cfg))), qi_ingestTimeout = ins_Timeout (cfg_Insert cfg),
        qi_shutdownGracePeriod = ins_GracePeriod (cfg_Insert cfg), qi_batchSize = nat (ins_BatchSize (cfg_Insert cfg)),
        qi_batchFlushInterval = ins_FlushInterval (cfg_Insert cfg)\<rparr>"
    and rs: "rs_proxy (ap_routes app) = Some u" "rs_mux (ap_routes app) = handlers" "rs_seriesLimit (ap_routes app) \<noteq> None"
      "rs_dbProvider (ap_routes app) = Some p" "rs_queryIngester (ap_routes app) = Some (ap_ingester app)"
    using assms u p by (auto simp: api_Run_def NewQueryIngester_def NewRoutes_def Let_def split: option.splits if_splits)
  have prov: "db_Provider (cfg_Database cfg) \<in> {''postgresql'', ''sqlite''}"
    using GetDbProvider_opened [OF p] by auto
  have acts: "ap_actors app = [QueryIngesterRun, HttpServer] @ inventory_actors (aw_promClient w) cfg @ retention_actors cfg @ [SignalHandler]"
    and pv: "ap_provider app = p" by (subst app, simp)+
  show ?thesis unfolding acts pv
    using u p qi rs prov by (auto simp: inventory_actors_facts retention_actors_facts leader_key_def inventory_key_def retention_key_def Let_def)
qed

definition working_world :: api_world where
  "working_world =
     \<lparr>aw_parse = (\<lambda>u. Inr \<lparr>tu_Scheme = ''http'', tu_Host = ''prometheus:9090'', tu_Path = [], tu_RawQuery = []\<rparr>),
      aw_sql = \<lparr>sl_open = (\<lambda>_ _. None), sl_ping = (\<lambda>_. None), sl_setDialect = (\<lambda>_. None), sl_up = (\<lambda>_ _ _. None), sl_exec = (\<lambda>_ _. None)\<rparr>,
      aw_promClient = (\<lambda>_. None), aw_listen = (\<lambda>_. None)\<rparr>"

definition postgres_config :: ProxyConfig where
  "postgres_config = DefaultConfig\<lparr>cfg_Upstream := \<lparr>up_URL = ''http://prometheus:9090'', up_IncludeQueryStats = True\<rparr>,
     cfg_Database := (cfg_Database DefaultConfig)\<lparr>db_Provider := ''postgresql''\<rparr>,
     cfg_Retention := (cfg_Retention DefaultConfig)\<lparr>ret_Enabled := True\<rparr>\<rparr>"

lemma postgres_wired: "\<exists>app. api_Run working_world postgres_config = Wired app"
  by (simp add: api_Run_def working_world_def postgres_config_def DefaultConfig_def GetDbProvider_def newPostGreSQLProvider_def
      runMigrations_def Let_def)

theorem api_wiring_witness:
  "\<exists>app j k. api_Run working_world postgres_config = Wired app \<and> InventoryRun (Some j) \<in> set (ap_actors app)
     \<and> RetentionRun (Some k) \<in> set (ap_actors app) \<and> j \<noteq> k \<and> rs_mux (ap_routes app) = handlers"
proof -
  obtain app where app: "api_Run working_world postgres_config = Wired app" using postgres_wired by blast
  have cfg: "inv_Enabled (cfg_Inventory postgres_config)" "aw_promClient working_world (up_URL (cfg_Upstream postgres_config)) = None"
    "ret_Enabled (cfg_Retention postgres_config)" "0 < ret_Interval (cfg_Retention postgres_config)"
    "0 < ret_RunTimeout (cfg_Retention postgres_config)" "0 < ret_QueriesMaxAge (cfg_Retention postgres_config)"
    "db_Provider (cfg_Database postgres_config) = ''postgresql''"
    by (simp_all add: postgres_config_def working_world_def DefaultConfig_def duration_defs)
  from api_wiring [OF app] cfg obtain j k where
    "InventoryRun j \<in> set (ap_actors app)" "RetentionRun k \<in> set (ap_actors app)" "j \<noteq> None" "k \<noteq> None" "j \<noteq> k"
    "rs_mux (ap_routes app) = handlers" by auto
  with app show ?thesis by (auto simp: not_None_eq)
qed

text \<open>The ingester is ready only while its server is between start and signal.\<close>

lemma ready_until_signal:
  assumes "server_step has mark st st'" "readyz st' = 200"
  shows "readyz st = 200"
  using assms by (induction rule: server_step.induct) (auto simp: readyz_def IsReady_def split: if_splits)

end
