(* ===== verification/Api_Shutdown.thy ===== *)
theory Api_Shutdown
  imports Commands
begin

text \<open>
  The life of the API process (\<open>Run\<close> of \<open>cmd/api/run.go\<close>): the members of the run group, the proxied
  queries in flight and the query ingester, from the signal to the exit. When the first member
  returns, the group interrupts all of them in order and waits until each has returned. The
  interrupt of the HTTP server cancels the context that it then passes to \<open>Shutdown\<close>, so
  \<open>Shutdown\<close> closes the listener and returns at once, whatever is in flight.
\<close>

section \<open>State and steps\<close>

datatype group_phase = Up | Interrupting "actor list" | Waiting | Exited

record 's api_process =
  gp_phase :: group_phase
  gp_interrupted :: "actor set"
  gp_returned :: "actor set"
  gp_listening :: bool
  gp_inflight :: nat \<comment> \<open>proxied queries that have not finished\<close>
  gp_ingester :: "'s qi_state"
  gp_started :: nat
  gp_finished :: nat

definition api_start :: "'s \<Rightarrow> 's api_process" where
  "api_start s = \<lparr>gp_phase = Up, gp_interrupted = {}, gp_returned = {}, gp_listening = True, gp_inflight = 0,
     gp_ingester = qi_init s, gp_started = 0, gp_finished = 0\<rparr>"

text \<open>
  A finished request hands its query to the ingester. The ingester collects until it stops; a
  worker returns some time after its interrupt. The program ends with requests in flight cut.
\<close>

inductive api_step ::
  "actor list \<Rightarrow> QueryIngester \<Rightarrow> 'a promql \<Rightarrow> ('f \<Rightarrow> 's \<Rightarrow> Query list \<Rightarrow> go_error option \<times> 's)
   \<Rightarrow> 's api_process \<Rightarrow> 's api_process \<Rightarrow> bool" for actors qi pq ins where
  accept:
    "gp_phase st \<noteq> Exited \<Longrightarrow> gp_listening st \<Longrightarrow>
     api_step actors qi pq ins st (st\<lparr>gp_inflight := Suc (gp_inflight st), gp_started := Suc (gp_started st)\<rparr>)"
| finish:
    "gp_phase st \<noteq> Exited \<Longrightarrow> gp_inflight st = Suc n \<Longrightarrow>
     api_step actors qi pq ins st (st\<lparr>gp_inflight := n, gp_finished := Suc (gp_finished st),
        gp_ingester := Ingest qi query (gp_ingester st)\<rparr>)"
| collect:
    "gp_phase st \<noteq> Exited \<Longrightarrow> QueryIngesterRun \<notin> gp_returned st \<Longrightarrow>
     q' \<in> {run_receive qi pq (ins f) (gp_ingester st), run_tick (ins f) (gp_ingester st)} \<Longrightarrow>
     api_step actors qi pq ins st (st\<lparr>gp_ingester := q'\<rparr>)"
| ingester_returns:
    "gp_phase st \<noteq> Exited \<Longrightarrow> QueryIngesterRun \<in> gp_interrupted st \<Longrightarrow> QueryIngesterRun \<notin> gp_returned st \<Longrightarrow>
     api_step actors qi pq ins st (st\<lparr>gp_ingester := run_shutdown qi (ins f) (gp_ingester st),
        gp_returned := insert QueryIngesterRun (gp_returned st)\<rparr>)"
| member_returns:
    "gp_phase st \<noteq> Exited \<Longrightarrow> a \<in> gp_interrupted st \<Longrightarrow> a \<noteq> QueryIngesterRun \<Longrightarrow>
     api_step actors qi pq ins st (st\<lparr>gp_returned := insert a (gp_returned st)\<rparr>)"
| signal:
    "gp_phase st = Up \<Longrightarrow>
     api_step actors qi pq ins st (st\<lparr>gp_phase := Interrupting actors, gp_returned := insert SignalHandler (gp_returned st)\<rparr>)"
| serve_failed:
    "gp_phase st = Up \<Longrightarrow>
     api_step actors qi pq ins st (st\<lparr>gp_phase := Interrupting actors, gp_listening := False,
        gp_returned := insert HttpServer (gp_returned st)\<rparr>)"
| interrupt:
    "gp_phase st = Interrupting (a # rest) \<Longrightarrow>
     api_step actors qi pq ins st (st\<lparr>gp_phase := Interrupting rest, gp_interrupted := insert a (gp_interrupted st),
        gp_listening := (gp_listening st \<and> a \<noteq> HttpServer)\<rparr>)"
| all_interrupted:
    "gp_phase st = Interrupting [] \<Longrightarrow> api_step actors qi pq ins st (st\<lparr>gp_phase := Waiting\<rparr>)"
| exit:
    "gp_phase st = Waiting \<Longrightarrow> set actors \<subseteq> gp_returned st \<Longrightarrow>
     api_step actors qi pq ins st (st\<lparr>gp_phase := Exited\<rparr>)"

section \<open>Invariant\<close>

definition remaining :: "group_phase \<Rightarrow> actor list \<Rightarrow> actor set" where
  "remaining p actors = (case p of Up \<Rightarrow> set actors | Interrupting as \<Rightarrow> set as | _ \<Rightarrow> {})"

definition process_inv :: "actor list \<Rightarrow> QueryIngester \<Rightarrow> 's api_process \<Rightarrow> bool" where
  "process_inv actors qi st \<longleftrightarrow>
     balanced (gp_ingester st) \<and> bounded qi (gp_ingester st) \<and> quiescent (gp_ingester st)
   \<and> (qs_closed (gp_ingester st) \<longleftrightarrow> QueryIngesterRun \<in> gp_returned st)
   \<and> (HttpServer \<in> gp_interrupted st \<union> gp_returned st \<longrightarrow> \<not> gp_listening st)
   \<and> length (qs_submitted (gp_ingester st)) = gp_finished st \<and> gp_started st = gp_finished st + gp_inflight st
   \<and> set actors \<subseteq> gp_interrupted st \<union> remaining (gp_phase st) actors
   \<and> (gp_phase st = Exited \<longrightarrow> set actors \<subseteq> gp_returned st)"

lemma Ingest_fields:
  "qs_closed (Ingest qi q s) = qs_closed s" "length (qs_submitted (Ingest qi q s)) = Suc (length (qs_submitted s))"
  by (auto simp: Ingest_def Let_def split: option.split)

lemma collect_fields:
  "qs_closed (run_receive qi pq ins s) = qs_closed s" "qs_submitted (run_receive qi pq ins s) = qs_submitted s"
  "qs_closed (run_tick ins s) = qs_closed s" "qs_submitted (run_tick ins s) = qs_submitted s"
  "qs_closed (run_shutdown qi ins s)" "qs_submitted (run_shutdown qi ins s) = qs_submitted s"
  using drain_all [of qi ins "s\<lparr>qs_closed := True\<rparr>"]
  by (simp_all add: run_receive_def run_tick_def run_shutdown_def add_to_batch_fields ingest_fields split: list.split)

lemma api_step_ingester:
  assumes "api_step actors qi pq ins st st'" "process_inv actors qi st"
  shows "gp_ingester st' = gp_ingester st \<or> qi_step qi pq ins (gp_ingester st) (gp_ingester st')"
  using assms by (cases rule: api_step.cases) (auto simp: process_inv_def intro: qi_step.intros)

lemma process_inv_step:
  assumes "api_step actors qi pq ins st st'" "process_inv actors qi st"
  shows "process_inv actors qi st'"
proof -
  have "balanced (gp_ingester st') \<and> bounded qi (gp_ingester st') \<and> quiescent (gp_ingester st')"
    using api_step_ingester [OF assms] assms(2) qi_step_balanced qi_step_bounded qi_step_quiescent
    unfolding process_inv_def by metis
  moreover have "(qs_closed (gp_ingester st') \<longleftrightarrow> QueryIngesterRun \<in> gp_returned st')
   \<and> (HttpServer \<in> gp_interrupted st' \<union> gp_returned st' \<longrightarrow> \<not> gp_listening st')
   \<and> length (qs_submitted (gp_ingester st')) = gp_finished st' \<and> gp_started st' = gp_finished st' + gp_inflight st'
   \<and> set actors \<subseteq> gp_interrupted st' \<union> remaining (gp_phase st') actors
   \<and> (gp_phase st' = Exited \<longrightarrow> set actors \<subseteq> gp_returned st')"
    using assms by (cases rule: api_step.cases) (auto simp: process_inv_def Ingest_fields collect_fields remaining_def)
  ultimately show ?thesis by (simp add: process_inv_def)
qed

lemma process_reachable:
  "(api_step actors qi pq ins)\<^sup>*\<^sup>* (api_start s) st \<Longrightarrow> process_inv actors qi st"
proof (induction rule: rtranclp_induct)
  case base
  have "balanced (qi_init s) \<and> bounded qi (qi_init s) \<and> quiescent (qi_init s)"
    using qi_reachable [of qi undefined undefined s "qi_init s"] by blast
  then show ?case by (simp add: process_inv_def api_start_def qi_init_def remaining_def)
qed (rule process_inv_step)

lemma ingester_reachable:
  assumes "(api_step actors qi pq ins)\<^sup>*\<^sup>* (api_start s) st"
  shows "(qi_step qi pq ins)\<^sup>*\<^sup>* (qi_init s) (gp_ingester st)"
  using assms
proof (induction rule: rtranclp_induct)
  case (step st1 st2)
  then show ?case
    using api_step_ingester [OF step.hyps(2) process_reachable [OF step.hyps(1)]] by (metis rtranclp.rtrancl_into_rtrancl)
qed (simp add: api_start_def)

text \<open>How far the shutdown is from its end.\<close>

definition exit_rank :: "actor list \<Rightarrow> 's api_process \<Rightarrow> nat" where
  "exit_rank actors st =
     (let left = card (set actors - gp_returned st) in
      case gp_phase st of Up \<Rightarrow> 0 | Interrupting as \<Rightarrow> 2 + length as + left | Waiting \<Rightarrow> 1 + left | Exited \<Rightarrow> 0)"

lemma left_insert: "card (set actors - insert a R) \<le> card (set actors - R)"
  by (rule card_mono) auto

lemma left_returns: "a \<in> set actors \<Longrightarrow> a \<notin> R \<Longrightarrow> card (set actors - insert a R) < card (set actors - R)"
  by (rule psubset_card_mono) auto

lemma exit_rank_step:
  "api_step actors qi pq ins st st' \<Longrightarrow> gp_phase st \<noteq> Up \<Longrightarrow> exit_rank actors st' \<le> exit_rank actors st"
  by (induction rule: api_step.induct) (auto simp: exit_rank_def Let_def left_insert split: group_phase.split)

lemma exit_rank_next:
  assumes "process_inv actors qi st" "gp_phase st \<notin> {Up, Exited}"
  shows "\<exists>st'. api_step actors qi pq ins st st' \<and> exit_rank actors st' < exit_rank actors st"
proof (cases "gp_phase st")
  case (Interrupting as)
  show ?thesis
  proof (cases as)
    case Nil
    with Interrupting show ?thesis
      by - (intro exI conjI, rule api_step.all_interrupted [of st actors qi pq ins], auto simp: exit_rank_def Let_def)
  next
    case (Cons a rest)
    with Interrupting show ?thesis
      by - (intro exI conjI, rule api_step.interrupt [of st a rest actors qi pq ins], auto simp: exit_rank_def Let_def)
  qed
next
  case Waiting
  show ?thesis
  proof (cases "set actors \<subseteq> gp_returned st")
    case True
    with Waiting show ?thesis
      by - (intro exI conjI, rule api_step.exit [of st actors qi pq ins], auto simp: exit_rank_def Let_def)
  next
    case False
    then obtain a where a: "a \<in> set actors" "a \<notin> gp_returned st" by blast
    then have "a \<in> gp_interrupted st" using assms(1) Waiting by (auto simp: process_inv_def remaining_def)
    with a Waiting left_returns [OF a] show ?thesis
      by (cases "a = QueryIngesterRun")
        (intro exI conjI, rule api_step.ingester_returns [of st actors qi pq ins undefined],
          auto simp: exit_rank_def Let_def intro!: exI [of _ "st\<lparr>gp_returned := insert a (gp_returned st)\<rparr>"] api_step.member_returns)
  qed
qed (use assms in auto)

section \<open>What the exit leaves\<close>


definition sqlite_config :: ProxyConfig where
  "sqlite_config = DefaultConfig\<lparr>cfg_Upstream := \<lparr>up_URL = ''http://prometheus:9090'', up_IncludeQueryStats = True\<rparr>,
     cfg_Database := (cfg_Database DefaultConfig)\<lparr>db_Provider := ''sqlite''\<rparr>,
     cfg_Insert := \<lparr>ins_BatchSize = 10, ins_BufferSize = 100, ins_FlushInterval = second, ins_GracePeriod = second, ins_Timeout = second\<rparr>,
     cfg_Inventory := (cfg_Inventory DefaultConfig)\<lparr>inv_Enabled := False\<rparr>\<rparr>"

lemma sqlite_wired: "\<exists>app. api_Run working_world sqlite_config = Wired app \<and> ap_actors app = [QueryIngesterRun, HttpServer, SignalHandler]"
  by (simp add: api_Run_def working_world_def sqlite_config_def DefaultConfig_def GetDbProvider_def newSqliteProvider_def
      runMigrations_def inventory_actors_def retention_actors_def Let_def)

lemma exit_with_request_in_flight:
  "\<exists>st. (api_step [QueryIngesterRun, HttpServer, SignalHandler] qi pq Insert)\<^sup>*\<^sup>* (api_start empty_tables) st
     \<and> gp_phase st = Exited \<and> gp_started st = 1 \<and> gp_inflight st = 1"
proof -
  let ?as = "[QueryIngesterRun, HttpServer, SignalHandler]" and ?step = "api_step [QueryIngesterRun, HttpServer, SignalHandler] qi pq Insert"
  define s1 where "s1 = (api_start empty_tables)\<lparr>gp_inflight := 1, gp_started := 1\<rparr>"
  define s2 where "s2 = s1\<lparr>gp_phase := Interrupting ?as, gp_returned := {SignalHandler}\<rparr>"
  define s3 where "s3 = s2\<lparr>gp_phase := Interrupting [HttpServer, SignalHandler], gp_interrupted := {QueryIngesterRun}\<rparr>"
  define s4 where "s4 = s3\<lparr>gp_phase := Interrupting [SignalHandler], gp_interrupted := {HttpServer, QueryIngesterRun}, gp_listening := False\<rparr>"
  define s5 where "s5 = s4\<lparr>gp_phase := Interrupting [], gp_interrupted := {SignalHandler, HttpServer, QueryIngesterRun}\<rparr>"
  define s6 where "s6 = s5\<lparr>gp_phase := Waiting\<rparr>"
  define s7 where "s7 = s6\<lparr>gp_ingester := run_shutdown qi (Insert None) (gp_ingester s6), gp_returned := {QueryIngesterRun, SignalHandler}\<rparr>"
  define s8 where "s8 = s7\<lparr>gp_returned := {HttpServer, QueryIngesterRun, SignalHandler}\<rparr>"
  define s9 where "s9 = s8\<lparr>gp_phase := Exited\<rparr>"
  note defs = s9_def s8_def s7_def s6_def s5_def s4_def s3_def s2_def s1_def api_start_def
  have "?step (api_start empty_tables) s1" using api_step.accept [of "api_start empty_tables" ?as qi pq Insert] by (simp add: defs)
  moreover have "?step s1 s2" using api_step.signal [of s1 ?as qi pq Insert] by (simp add: defs)
  moreover have "?step s2 s3"
    using api_step.interrupt [of s2 QueryIngesterRun "[HttpServer, SignalHandler]" ?as qi pq Insert] by (simp add: defs)
  moreover have "?step s3 s4" using api_step.interrupt [of s3 HttpServer "[SignalHandler]" ?as qi pq Insert] by (simp add: defs)
  moreover have "?step s4 s5" using api_step.interrupt [of s4 SignalHandler "[]" ?as qi pq Insert] by (simp add: defs)
  moreover have "?step s5 s6" using api_step.all_interrupted [of s5 ?as qi pq Insert] by (simp add: defs)
  moreover have "?step s6 s7" using api_step.ingester_returns [of s6 ?as qi pq Insert None] by (simp add: defs)
  moreover have "?step s7 s8" using api_step.member_returns [of s7 HttpServer ?as qi pq Insert] by (simp add: defs)
  moreover have "?step s8 s9" using api_step.exit [of s8 ?as qi pq Insert] by (simp add: defs)
  ultimately have "?step\<^sup>*\<^sup>* (api_start empty_tables) s9" by (meson converse_rtranclp_into_rtranclp rtranclp.rtrancl_refl)
  then show ?thesis by (intro exI [of _ s9]) (simp add: defs)
qed


end
