(* ===== verification/Query_Copy.thy ===== *)
theory Query_Copy
  imports Query_Ingester
begin

text \<open>
  The second query ingester (\<open>internal/ingester/query/ingester.go\<close>), an older form of the one in
  \<open>Query_Ingester\<close> that no package imports any more. It has the same channel and batches, but
  enriches nothing, counts nothing, never marks itself closed, and its shutdown stores the batch
  and leaves the channel as it is.
\<close>

section \<open>Operations\<close>

text \<open>Without \<open>WithBufferSize\<close> the channel has no buffer: a query is taken only by a waiting goroutine.\<close>

record 's copy_state = "'s qi_state" +
  qc_stopped :: bool

definition copy_init :: "'s \<Rightarrow> 's copy_state" where
  "copy_init s = qi_state.extend (qi_init s) \<lparr>qc_stopped = False\<rparr>"

definition copy_Ingest :: "QueryIngester \<Rightarrow> Query \<Rightarrow> 's copy_state \<Rightarrow> 's copy_state" where
  "copy_Ingest qi query st0 =
     (let st = st0\<lparr>qs_submitted := qs_submitted st0 @ [query]\<rparr> in
      if qs_closed st then st\<lparr>qs_droppedClosed := qs_droppedClosed st @ [query]\<rparr>
      else if length (qs_chan st) < (case qi_bufferSize qi of None \<Rightarrow> 0 | Some n \<Rightarrow> n)
      then st\<lparr>qs_chan := qs_chan st @ [query]\<rparr>
      else st\<lparr>qs_droppedBlocked := qs_droppedBlocked st @ [query]\<rparr>)"

text \<open>The error of an insert is ignored.\<close>

definition copy_ingest :: "('s \<Rightarrow> Query list \<Rightarrow> go_error option \<times> 's) \<Rightarrow> Query list \<Rightarrow> 's copy_state \<Rightarrow> 's copy_state" where
  "copy_ingest ins queries st =
     (case ins (qs_store st) queries of
        (None, s') \<Rightarrow> st\<lparr>qs_store := s', qs_accepted := qs_accepted st @ [queries]\<rparr>
      | (Some err, s') \<Rightarrow> st\<lparr>qs_store := s', qs_refused := qs_refused st @ [queries]\<rparr>)"

definition copy_add ::
  "QueryIngester \<Rightarrow> ('s \<Rightarrow> Query list \<Rightarrow> go_error option \<times> 's) \<Rightarrow> Query \<Rightarrow> 's copy_state \<Rightarrow> 's copy_state" where
  "copy_add qi ins q st =
     (let batch = qs_batch st @ [q] in
      if qi_batchSize qi > 0 \<and> length batch \<ge> qi_batchSize qi then (copy_ingest ins batch st)\<lparr>qs_batch := []\<rparr>
      else st\<lparr>qs_batch := batch\<rparr>)"

definition copy_tick :: "('s \<Rightarrow> Query list \<Rightarrow> go_error option \<times> 's) \<Rightarrow> 's copy_state \<Rightarrow> 's copy_state" where
  "copy_tick ins st = (if length (qs_batch st) > 0 then (copy_ingest ins (qs_batch st) st)\<lparr>qs_batch := []\<rparr> else st)"

text \<open>The grace period only bounds the insert, which may fail in either case.\<close>

definition copy_drain :: "('s \<Rightarrow> Query list \<Rightarrow> go_error option \<times> 's) \<Rightarrow> 's copy_state \<Rightarrow> 's copy_state" where
  "copy_drain ins st = (if length (qs_batch st) > 0 then (copy_ingest ins (qs_batch st) st)\<lparr>qs_batch := []\<rparr> else st)"

inductive copy_step ::
  "QueryIngester \<Rightarrow> ('f \<Rightarrow> 's \<Rightarrow> Query list \<Rightarrow> go_error option \<times> 's) \<Rightarrow> 's copy_state \<Rightarrow> 's copy_state \<Rightarrow> bool"
  for qi ins where
  submit: "copy_step qi ins st (copy_Ingest qi query st)"
| handoff:
    "\<not> qc_stopped st \<Longrightarrow> \<not> qs_closed st \<Longrightarrow> qs_chan st = [] \<Longrightarrow>
     copy_step qi ins st (copy_add qi (ins ferr) query (st\<lparr>qs_submitted := qs_submitted st @ [query]\<rparr>))"
| receive:
    "\<not> qc_stopped st \<Longrightarrow> qs_chan st = q # rest \<Longrightarrow>
     copy_step qi ins st (copy_add qi (ins ferr) q (st\<lparr>qs_chan := rest\<rparr>))"
| tick: "\<not> qc_stopped st \<Longrightarrow> copy_step qi ins st (copy_tick (ins ferr) st)"
| shutdown: "\<not> qc_stopped st \<Longrightarrow> copy_step qi ins st ((copy_drain (ins ferr) st)\<lparr>qc_stopped := True\<rparr>)"

section \<open>Accounting\<close>

definition copy_balanced :: "'s copy_state \<Rightarrow> bool" where
  "copy_balanced st \<longleftrightarrow> mset (qs_submitted st) = mset (qs_chan st) + mset (qs_batch st)
     + mset (concat (qs_accepted st)) + mset (concat (qs_refused st)) + mset (qs_droppedClosed st) + mset (qs_droppedBlocked st)"

definition copy_inv :: "'s copy_state \<Rightarrow> bool" where
  "copy_inv st \<longleftrightarrow> copy_balanced st \<and> \<not> qs_closed st \<and> (qc_stopped st \<longrightarrow> qs_batch st = [])"

lemma copy_step_inv: "copy_step qi ins st st' \<Longrightarrow> copy_inv st \<Longrightarrow> copy_inv st'"
  by (induction rule: copy_step.induct)
    (auto simp: copy_inv_def copy_balanced_def copy_Ingest_def copy_add_def copy_tick_def copy_drain_def copy_ingest_def Let_def
      split: prod.splits option.splits)

lemma copy_reachable: "(copy_step qi ins)\<^sup>*\<^sup>* (copy_init s) st \<Longrightarrow> copy_inv st"
proof (induction rule: rtranclp_induct)
  case base
  show ?case by (simp add: copy_inv_def copy_balanced_def copy_init_def qi_init_def qi_state.defs)
qed (rule copy_step_inv)

text \<open>
  After the shutdown nothing leaves the channel: what was queued then, and what handlers still
  put there, is never stored, refused or counted.
\<close>

lemma copy_queue_lost:
  assumes "(copy_step qi ins)\<^sup>*\<^sup>* st st'" "qc_stopped st"
  shows "qc_stopped st' \<and> qs_accepted st' = qs_accepted st \<and> qs_refused st' = qs_refused st
    \<and> (\<exists>more. qs_chan st' = qs_chan st @ more)"
  using assms(1)
proof (induction rule: rtranclp_induct)
  case (step st1 st2)
  from step.hyps(2) step.IH show ?case
    by (cases rule: copy_step.cases) (auto simp: copy_Ingest_def Let_def)
qed (simp add: assms)

end
