(* ===== verification/Spec2Isabelle.thy ===== *)
theory Spec2Isabelle
  imports Usage_Verdict Sqlite_Charts Pg_Charts Api_Shutdown Query_Copy
begin

text \<open>
  Verification of prom-analytics-proxy.

  The program sits between Prometheus clients and Prometheus. As a query proxy it records every
  query that passes; as an OTLP ingester it forwards metrics and drops those that nobody uses;
  an inventory job joins the two: it learns which metrics exist, which jobs produce them and how
  often rules, dashboards and recorded queries use them. Everything meets in a database behind
  one provider interface.

  \<^bold>\<open>How the parts interact.\<close> An HTTP handler (\<open>api/routes\<close>) records a proxied query and hands it to
  the query ingester (\<open>internal/ingester/queryIngester.go\<close>), whose goroutine adds fingerprint
  and label matchers (\<open>internal/promfp\<close>) and inserts batches into the database. Usage of rules
  and dashboards is pushed to another handler. The inventory syncer (\<open>internal/inventory\<close>) fills
  the metrics catalog, refreshes the usage summary and the job index. The OTLP ingester
  (\<open>internal/ingester/otlp\<close>) looks the names of a request up in that summary, through a Redis
  cache, filters the request and forwards it; it also buffers new names for the catalog. The
  retention worker (\<open>internal/retention\<close>) deletes old queries. The API reports on all of it. Two
  commands (\<open>cmd/api\<close>, \<open>cmd/ingester\<close>) build these parts from flags and a configuration file.

  \<^bold>\<open>Theories and the code they model.\<close>
  \<^item> \<open>Go_Prelude\<close>: strings, maps, batches and in-place compaction as the Go code uses them.
    \<open>Go_Time\<close>: durations, the calendar, the two time layouts. \<open>Go_Calendar\<close>: texts of times in
    these layouts sort like the times, for years of four digits.
    \<open>Go_Text\<close>: decimal texts.
  \<^item> \<open>Db_Model\<close>, \<open>Db_Common\<close>: the records of the provider interface (\<open>internal/db/model.go\<close>,
    \<open>provider.go\<close>), errors, placeholders, intervals, validation of sort and paging parameters
    (\<open>common.go\<close>, \<open>errors.go\<close>). \<open>Sql_Query\<close>: \<open>LIKE\<close>, \<open>ORDER BY\<close>, window functions, \<open>LIMIT\<close> and
    \<open>OFFSET\<close>, and the contract of a paged report.
  \<^item> \<open>Sqlite_Store\<close>, \<open>Sqlite_Reads\<close>, \<open>Sqlite_Reports\<close>, \<open>Sqlite_Charts\<close>: \<open>internal/db/sqlite.go\<close>, the
    writes, the listings of metadata and usage, the totals and query listings, the charts. The
    state is the record \<open>tables\<close>; each operation is its statement read as a function on it.
  \<^item> \<open>Pg_Server\<close>, \<open>Pg_Store\<close>, \<open>Pg_Reads\<close>, \<open>Pg_Reports\<close>, \<open>Pg_Charts\<close>: \<open>internal/db/postgresql.go\<close>,
    what it relies on in the server, and the same groups of operations over the same \<open>tables\<close>.
    \<open>Db_Open\<close>: \<open>GetDbProvider\<close>, the opening of either database and \<open>migrate.go\<close>.
  \<^item> \<open>Config\<close>, \<open>Config_Log\<close>: \<open>internal/config/config.go\<close>, the settings and their start-up log.
    \<open>Flags\<close>: Go's package \<open>flag\<close> and all registrations. \<open>Startup\<close>: \<open>main.go\<close>, \<open>internal/log\<close>.
    \<open>Commands\<close>: \<open>cmd/api/run.go\<close> and \<open>cmd/ingester/run.go\<close>. \<open>Api_Shutdown\<close>: the members of the
    run group of \<open>cmd/api/run.go\<close> from the signal to the exit, with the queries in flight.
  \<^item> \<open>Otlp_Data\<close>, \<open>Otlp_Filter\<close>: the protobuf messages and \<open>filter.go\<close>, \<open>prometheus_names.go\<close>.
    \<open>Metric_Cache\<close>, \<open>Catalog_Seen\<close>, \<open>Catalog_Buffer\<close>: \<open>metric_cache.go\<close>, \<open>catalog_seen_cache.go\<close>,
    \<open>catalog_buffer.go\<close>. \<open>Usage_Lookup\<close>, \<open>Otlp_Ingester\<close>: \<open>ingester.go\<close>, the lookup of unused
    names and the request handler. \<open>Otlp_Downstream\<close>: \<open>downstream.go\<close>, the options of the client
    and the retry policy it hands to gRPC. \<open>Otlp_Server\<close>: \<open>Run\<close> of \<open>ingester.go\<close>, from the start of
    the server to the end of a graceful shutdown, as a step relation.
  \<^item> \<open>Prom_Fingerprint\<close>, \<open>Query_Ingester\<close>: \<open>internal/promfp/fingerprint.go\<close> and
    \<open>internal/ingester/queryIngester.go\<close>. \<open>Query_Copy\<close>: \<open>internal/ingester/query/ingester.go\<close>, an
    older copy that nothing uses.
  \<^item> \<open>Inventory\<close>: \<open>internal/inventory/syncer.go\<close>, \<open>leader_pg.go\<close>. \<open>Retention\<close>:
    \<open>internal/retention/retention.go\<close>. \<open>Usage_Verdict\<close>: the way of a recorded use through
    database, inventory and OTLP ingester.
  \<^item> \<open>Routes\<close>, \<open>Routes_Reports\<close>: \<open>api/routes/routes.go\<close>, \<open>api/response/responseWriter.go\<close>,
    \<open>api/models\<close>. \<open>Mux\<close>: which handler gets a request, the reverse proxy, the user interface and
    the options of the routes.

  \<^bold>\<open>Conventions.\<close> A struct is a record whose fields carry a short prefix; a Go map is an
  association list, and where its iteration order matters the order is an argument or the
  statement holds for every order. An error is the left side of a sum or an option, with the
  text of the code's wrapping. The clock, random numbers, failures of the database driver, of
  Redis and of the network are arguments, so a statement for all arguments covers every failure
  and every interleaving. A goroutine with its channel (query ingester), the catalog buffer, the
  worker pool of the job index, the OTLP server and the run group of the API are inductive step
  relations.

  \<^bold>\<open>Interfaces.\<close> Each is a locale with its laws, interpreted on the definitions of both providers,
  so that what is proved of a client holds with either:
  \<open>inventory_db\<close> and \<open>usage_inventory\<close> (what the inventory run needs of a store), \<open>retention_store\<close>,
  \<open>usage_recorder\<close> (pushed usage), \<open>paged_report\<close> (listings), and those of the caches and the
  lookup in their theories.

  \<^bold>\<open>What the groups of lemmas show.\<close> Filtering conserves rows and drops exactly the unused ones;
  the lookup computes the verdict of the usage rows for every chunking and cache state; the
  handler forwards what is used, acknowledges what was delivered and counts every data point; a
  shutdown ends, closes everything and says which names it may lose;
  queries and metric names are accounted for in every interleaving; the worker pool refines a
  sequential run and ends; writes are atomic and keep the schema constraints; a use recorded in
  the window protects the metric end to end; reports list everything once, charts count every
  query once; request parameters reach the SQL only through white lists; a request reaches Prometheus or one
  handler, and queries are recorded once; settings reach the parts as given on the command line,
  and the log shows all of them but the secrets. For PostgreSQL they
  also show where it differs: what a batch may hold, which minutes a chart counts, which
  parameter reaches the statement, and that both providers have the same evidence of use.

  \<^bold>\<open>Bounds and fuel.\<close> Loops are structural recursion or have a termination proof; no fuel is
  used. Go's 64-bit \<open>int\<close> is \<open>int\<close> with the wrap-around written out where the code multiplies
  request parameters (\<open>wrap64\<close>); sizes below \<open>2 ^ 62\<close> in theorems on pages exclude it.
  Floating-point aggregates of the database are reals and its rounding is an argument. Times
  are nanoseconds since the epoch; statements that compare stored texts as times ask for years
  of four digits.

  \<^bold>\<open>Parameters.\<close> The PromQL parser and printer, the hash, JSON and gzip decoding, text to number
  conversions of floating-point and time parameters and of flags, YAML, the drivers of
  \<open>database/sql\<close> and the migration library, the gRPC client, the Redis client, the OTLP client, the
  Prometheus API, the text the SQLite driver stores for a time (\<open>driver_text\<close> states its
  documented layout), the PostgreSQL server (\<open>pg_server\<close>; \<open>documented\<close> states its behaviour) and
  the sort of the database (\<open>sql_sorts\<close>).

  \<^bold>\<open>Not modelled.\<close> The SQL of the migrations;
  CORS, security headers, instrumentation of the handlers, tracing and the registration of
  counters, which only configure libraries; the JSON encoding of replies; types that exist for the
  API documentation, the generated documentation and the demo programs.
\<close>

end
